(* ===== verification/Prelude.thy ===== *)
theory Prelude
  imports Main "HOL-Library.Multiset"
begin

text \<open>
  What every component of the development shares: the result of a Go call that can return an
  error or panic, runs of a step relation, and the locales under which invariants and
  termination of a step relation are proved once. Nothing here models a line of the program.
\<close>

subsection \<open>Collections of facts\<close>

named_theorems go_string "equations and bounds of the string functions of Go's library"
named_theorems wire_safe "what keeps a byte string unchanged by the record format"

subsection \<open>Runs of a step relation\<close>

text \<open>
  The concurrent parts of the program are step relations over a state record. The states a
  run can reach from the initial states are the least set closed under steps.
\<close>

inductive reach :: "('s \<Rightarrow> bool) \<Rightarrow> ('s \<Rightarrow> 's \<Rightarrow> bool) \<Rightarrow> 's \<Rightarrow> bool"
  for init :: "'s \<Rightarrow> bool" and step :: "'s \<Rightarrow> 's \<Rightarrow> bool" where
  reach_init: "init s \<Longrightarrow> reach init step s"
| reach_step: "reach init step s \<Longrightarrow> step s t \<Longrightarrow> reach init step t"

inductive run :: "('s \<Rightarrow> 's \<Rightarrow> bool) \<Rightarrow> 's \<Rightarrow> nat \<Rightarrow> 's \<Rightarrow> bool"
  for step :: "'s \<Rightarrow> 's \<Rightarrow> bool" where
  run_0: "run step s 0 s"
| run_Suc: "run step s n t \<Longrightarrow> step t u \<Longrightarrow> run step s (Suc n) u"

lemma reach_run: "reach init step s \<Longrightarrow> run step s n t \<Longrightarrow> reach init step t"
proof (rotate_tac, induction rule: run.induct)
  case (run_0 s)
  then show ?case by simp
next
  case (run_Suc s n t u)
  then show ?case by (blast intro: reach_step)
qed

text \<open>
  An invariant of a step relation: what holds at the start and is kept by every step holds in
  every reachable state.
\<close>

locale step_invariant =
  fixes init :: "'s \<Rightarrow> bool"
    and step :: "'s \<Rightarrow> 's \<Rightarrow> bool"
    and inv :: "'s \<Rightarrow> bool"
  assumes inv_init: "init s \<Longrightarrow> inv s"
    and inv_step: "inv s \<Longrightarrow> step s t \<Longrightarrow> inv t"
begin

lemma reach_inv: "reach init step s \<Longrightarrow> inv s"
  by (induction rule: reach.induct) (auto intro: inv_init inv_step)

lemma run_inv: "run step s n t \<Longrightarrow> inv s \<Longrightarrow> inv t"
  by (induction rule: run.induct) (auto intro: inv_step)

end

text \<open>
  A step relation whose steps decrease a measure, where the invariant holds: every run is
  bounded by the measure of its first state, and an invariant state that satisfies
  \<open>final\<close> or can step has a run that ends in a final state.
\<close>

locale bounded_steps = step_invariant init step inv
  for init :: "'s \<Rightarrow> bool" and step :: "'s \<Rightarrow> 's \<Rightarrow> bool" and inv :: "'s \<Rightarrow> bool" +
  fixes size_of :: "'s \<Rightarrow> nat"
    and final :: "'s \<Rightarrow> bool"
  assumes decreases: "inv s \<Longrightarrow> step s t \<Longrightarrow> size_of t < size_of s"
    and progress: "inv s \<Longrightarrow> \<not> final s \<Longrightarrow> \<exists>t. step s t"
begin

lemma run_bounded: "run step s n t \<Longrightarrow> inv s \<Longrightarrow> n + size_of t \<le> size_of s"
proof (induction rule: run.induct)
  case (run_0 s)
  then show ?case by simp
next
  case (run_Suc s n t u)
  then show ?case using decreases [of t u] run_inv [of s n t] by fastforce
qed

lemma run_snoc_front: "run step t n u \<Longrightarrow> step s t \<Longrightarrow> run step s (Suc n) u"
  by (induction rule: run.induct) (auto intro: run.intros)

lemma reaches_final: "inv s \<Longrightarrow> \<exists>n t. run step s n t \<and> final t"
proof (induction "size_of s" arbitrary: s rule: less_induct)
  case less
  show ?case
  proof (cases "final s")
    case True
    then show ?thesis by (blast intro: run_0)
  next
    case False
    then obtain t where st: "step s t" using progress less.prems by blast
    then have "inv t" and "size_of t < size_of s"
      using inv_step decreases less.prems by blast+
    then obtain n u where "run step t n u" and "final u" using less.hyps by blast
    with st show ?thesis by (blast intro: run_snoc_front)
  qed
qed

end

subsection \<open>Lists and multisets\<close>

lemma mset_filter_map_option:
  "mset (List.map_filter f xs) = mset (map (the \<circ> f) (filter (\<lambda>x. f x \<noteq> None) xs))"
  by (simp add: List.map_filter_def comp_def)

lemma mset_list_update:
  "i < length xs \<Longrightarrow> mset (xs[i := x]) = add_mset x (mset xs - {#xs ! i#})"
  by (simp add: mset_update)

lemma sum_list_update_nat:
  fixes f :: "'a \<Rightarrow> nat"
  assumes "i < length xs"
  shows "sum_list (map f (xs[i := x])) + f (xs ! i) = sum_list (map f xs) + f x"
  using assms by (induction xs arbitrary: i) (auto split: nat.splits)

lemma sum_mset_list_update:
  fixes f :: "'a \<Rightarrow> 'b multiset"
  assumes "i < length xs"
  shows "sum_list (map f (xs[i := x])) + f (xs ! i) = sum_list (map f xs) + f x"
  using assms by (induction xs arbitrary: i) (auto split: nat.splits simp: ac_simps)

lemma distinct_mset_subset:
  assumes "mset xs \<subseteq># mset ys" and "distinct ys"
  shows "distinct xs"
proof -
  from assms(1) obtain zs where "mset ys = mset xs + mset zs"
    by (metis ex_mset mset_subset_eq_exists_conv)
  then have "mset ys = mset (xs @ zs)" by simp
  with assms(2) have "distinct (xs @ zs)" by (metis mset_eq_imp_distinct_iff)
  then show ?thesis by simp
qed

lemma sum_mset_mono_mset:
  fixes f g :: "'a \<Rightarrow> 'b multiset"
  shows "(\<And>x. x \<in># A \<Longrightarrow> f x \<subseteq># g x) \<Longrightarrow> (\<Sum>x\<in>#A. f x) \<subseteq># (\<Sum>x\<in>#A. g x)"
  by (induction A) (auto intro: subset_mset.add_mono)

end
