(* ===== verification/Go_Strings.thy ===== *)
theory Go_Strings
  imports Prelude "HOL-Library.Sublist" "HOL-Library.Char_ord" "HOL-Library.List_Lexorder"
begin

text \<open>
  The functions of Go's \<open>strings\<close>, \<open>strconv\<close>, \<open>fmt\<close> and \<open>encoding/hex\<close> that the program
  calls, on Go strings: sequences of bytes, here lists of \<open>char\<close>, whose 256 values are the
  bytes. Each definition follows the library's documented behaviour. The cases the program
  never uses (an empty separator, a cut set of several characters) are not covered.
\<close>

subsection \<open>Prefixes and suffixes\<close>

definition has_prefix :: "string \<Rightarrow> string \<Rightarrow> bool" where
  "has_prefix s p \<longleftrightarrow> take (length p) s = p"

definition has_suffix :: "string \<Rightarrow> string \<Rightarrow> bool" where
  "has_suffix s p \<longleftrightarrow> has_prefix (rev s) (rev p)"

definition trim_prefix :: "string \<Rightarrow> string \<Rightarrow> string" where
  "trim_prefix s p = (if has_prefix s p then drop (length p) s else s)"

lemma has_prefix_append [simp, go_string]: "has_prefix (p @ s) p"
  by (simp add: has_prefix_def)

lemma has_prefix_iff: "has_prefix s p \<longleftrightarrow> (\<exists>t. s = p @ t)"
  by (metis append_eq_conv_conj append_take_drop_id has_prefix_def)

lemma trim_prefix_append [simp, go_string]: "trim_prefix (p @ s) p = s"
  by (simp add: trim_prefix_def)

lemma trim_prefix_other: "\<not> has_prefix s p \<Longrightarrow> trim_prefix s p = s"
  by (simp add: trim_prefix_def)

subsection \<open>Splitting and joining\<close>

text \<open>
  \<open>strings.Split s sep\<close> for a non-empty separator: the pieces between the leftmost,
  non-overlapping occurrences of \<open>sep\<close>. The middle argument is the current piece, reversed.
\<close>

function split_from :: "string \<Rightarrow> string \<Rightarrow> string \<Rightarrow> string list" where
  "split_from sep acc [] = [rev acc]"
| "split_from sep acc (c # s) =
     (if sep \<noteq> [] \<and> has_prefix (c # s) sep
      then rev acc # split_from sep [] (drop (length sep) (c # s))
      else split_from sep (c # acc) s)"
  by pat_completeness auto
termination
  by (relation "measure (\<lambda>(sep, acc, s). length s)") (auto simp: Suc_diff_le neq_Nil_conv)

definition split :: "string \<Rightarrow> string \<Rightarrow> string list" where
  "split s sep = split_from sep [] s"

fun join :: "string \<Rightarrow> string list \<Rightarrow> string" where
  "join sep [] = []"
| "join sep [x] = x"
| "join sep (x # y # xs) = x @ sep @ join sep (y # xs)"

lemma split_from_nonempty [simp]: "split_from sep acc s \<noteq> []"
  by (induction sep acc s rule: split_from.induct) auto

lemma split_nonempty [simp]: "split s sep \<noteq> []"
  by (simp add: split_def)

lemma split_from_plain:
  "hd sep \<notin> set s \<Longrightarrow> split_from sep acc s = [rev acc @ s]"
proof (induction sep acc s rule: split_from.induct)
  case (2 sep acc c s)
  then have "\<not> (sep \<noteq> [] \<and> has_prefix (c # s) sep)"
    by (cases sep) (auto simp: has_prefix_def)
  with 2 show ?case by simp
qed simp

lemma split_plain [go_string]: "hd sep \<notin> set s \<Longrightarrow> split s sep = [s]"
  by (simp add: split_def split_from_plain)

lemma split_from_sep:
  assumes "sep \<noteq> []" and "hd sep \<notin> set a"
  shows "split_from sep acc (a @ sep @ b) = (rev acc @ a) # split_from sep [] b"
  using assms(2)
proof (induction a arbitrary: acc)
  case Nil
  from assms(1) obtain c cs where "sep = c # cs" by (cases sep) auto
  then show ?case using has_prefix_append [of sep b] by simp
next
  case (Cons x a)
  then have "\<not> has_prefix (x # a @ sep @ b) sep"
    using assms(1) by (cases sep) (auto simp: has_prefix_def)
  with Cons show ?case by simp
qed

lemma split_sep [go_string]:
  "sep \<noteq> [] \<Longrightarrow> hd sep \<notin> set a \<Longrightarrow> split (a @ sep @ b) sep = a # split b sep"
  by (simp add: split_def split_from_sep)

lemma split_join [go_string]:
  assumes "sep \<noteq> []" and "xs \<noteq> []" and "\<And>x. x \<in> set xs \<Longrightarrow> hd sep \<notin> set x"
  shows "split (join sep xs) sep = xs"
  using assms
  by (induction sep xs rule: join.induct) (auto simp: split_plain split_sep)

lemma join_Cons: "xs \<noteq> [] \<Longrightarrow> join sep (x # xs) = x @ sep @ join sep xs"
  by (cases xs) auto

lemma join_split_from: "join sep (split_from sep acc s) = rev acc @ s"
proof (induction sep acc s rule: split_from.induct)
  case (2 sep acc c s)
  then show ?case
    by (auto simp: join_Cons has_prefix_iff)
qed simp

lemma join_split [go_string]: "join sep (split s sep) = s"
  by (simp add: split_def join_split_from)

lemma join_append:
  "xs \<noteq> [] \<Longrightarrow> ys \<noteq> [] \<Longrightarrow> join sep (xs @ ys) = join sep xs @ sep @ join sep ys"
  by (induction sep xs rule: join.induct) (auto simp: join_Cons)

text \<open>Every piece of a split is free of a one-character separator.\<close>

lemma split_from_char_pieces:
  "c \<notin> set acc \<Longrightarrow> x \<in> set (split_from [c] acc s) \<Longrightarrow> c \<notin> set x"
proof (induction "[c]" acc s rule: split_from.induct)
  case (2 acc d s)
  then show ?case by (cases "d = c") (auto simp: has_prefix_def)
qed auto

lemma split_char_pieces: "x \<in> set (split s [c]) \<Longrightarrow> c \<notin> set x"
  unfolding split_def by (rule split_from_char_pieces [of c "[]"]) simp_all

text \<open>Splitting at one character distributes over an occurrence of it.\<close>

lemma split_from_char_append:
  "split_from [c] acc (s @ c # t) = split_from [c] acc s @ split t [c]"
proof (induction "[c]" acc s rule: split_from.induct)
  case (1 acc)
  then show ?case by (simp add: has_prefix_def split_def)
next
  case (2 acc d s)
  then show ?case by (cases "d = c") (auto simp: has_prefix_def)
qed

lemma split_char_append: "split (s @ c # t) [c] = split s [c] @ split t [c]"
  by (metis split_def split_from_char_append)

subsection \<open>Trimming\<close>

text \<open>
  \<open>strings.TrimSpace\<close> removes leading and trailing Unicode white space. The white space of
  \<open>unicode.IsSpace\<close>, each code point as its UTF-8 bytes: no encoding is a prefix or a suffix
  of another one, so removing code points is removing these byte strings.
\<close>

definition space_runes :: "string list" where
  "space_runes =
     [[CHR 0x09], [CHR 0x0A], [CHR 0x0B], [CHR 0x0C], [CHR 0x0D], [CHR 0x20],
      [CHR 0xC2, CHR 0x85], [CHR 0xC2, CHR 0xA0],
      [CHR 0xE1, CHR 0x9A, CHR 0x80],
      [CHR 0xE2, CHR 0x80, CHR 0x80], [CHR 0xE2, CHR 0x80, CHR 0x81],
      [CHR 0xE2, CHR 0x80, CHR 0x82], [CHR 0xE2, CHR 0x80, CHR 0x83],
      [CHR 0xE2, CHR 0x80, CHR 0x84], [CHR 0xE2, CHR 0x80, CHR 0x85],
      [CHR 0xE2, CHR 0x80, CHR 0x86], [CHR 0xE2, CHR 0x80, CHR 0x87],
      [CHR 0xE2, CHR 0x80, CHR 0x88], [CHR 0xE2, CHR 0x80, CHR 0x89],
      [CHR 0xE2, CHR 0x80, CHR 0x8A], [CHR 0xE2, CHR 0x80, CHR 0xA8],
      [CHR 0xE2, CHR 0x80, CHR 0xA9], [CHR 0xE2, CHR 0x80, CHR 0xAF],
      [CHR 0xE2, CHR 0x81, CHR 0x9F], [CHR 0xE3, CHR 0x80, CHR 0x80]]"

function strip_all :: "string list \<Rightarrow> string \<Rightarrow> string" where
  "strip_all ps s =
     (case find (\<lambda>p. p \<noteq> [] \<and> has_prefix s p) ps of
        None \<Rightarrow> s
      | Some p \<Rightarrow> strip_all ps (drop (length p) s))"
  by pat_completeness auto
termination
  by (relation "measure (\<lambda>(ps, s). length s)")
    (auto simp: find_Some_iff has_prefix_iff neq_Nil_conv)

declare strip_all.simps [simp del]

definition trim_left_space :: "string \<Rightarrow> string" where
  "trim_left_space s = strip_all space_runes s"

definition trim_right_space :: "string \<Rightarrow> string" where
  "trim_right_space s = rev (strip_all (map rev space_runes) (rev s))"

definition trim_space :: "string \<Rightarrow> string" where
  "trim_space s = trim_right_space (trim_left_space s)"

text \<open>Strings that \<open>TrimSpace\<close> leaves alone.\<close>

definition trimmed :: "string \<Rightarrow> bool" where
  "trimmed s \<longleftrightarrow> list_all (\<lambda>p. \<not> has_prefix s p \<and> \<not> has_suffix s p) space_runes"

lemma space_runes_nonempty: "p \<in> set space_runes \<Longrightarrow> p \<noteq> []"
  by (auto simp: space_runes_def)

lemma strip_all_none: "(\<And>p. p \<in> set ps \<Longrightarrow> \<not> has_prefix s p) \<Longrightarrow> strip_all ps s = s"
  by (subst strip_all.simps) (auto simp: find_Some_iff split: option.splits)

lemma strip_all_no_prefix:
  "p \<in> set ps \<Longrightarrow> p \<noteq> [] \<Longrightarrow> \<not> has_prefix (strip_all ps s) p"
proof (induction ps s rule: strip_all.induct)
  case (1 ps s)
  then show ?case
    by (subst strip_all.simps) (auto simp: find_None_iff split: option.splits)
qed

lemma strip_all_suffix: "\<exists>u. s = u @ strip_all ps s"
proof (induction ps s rule: strip_all.induct)
  case (1 ps s)
  show ?case
  proof (cases "find (\<lambda>p. p \<noteq> [] \<and> has_prefix s p) ps")
    case None
    then show ?thesis by (subst strip_all.simps) simp
  next
    case (Some p)
    with 1 obtain u where "drop (length p) s = u @ strip_all ps (drop (length p) s)" by blast
    then have "s = (take (length p) s @ u) @ strip_all ps (drop (length p) s)"
      by (metis append_assoc append_take_drop_id)
    moreover have "strip_all ps s = strip_all ps (drop (length p) s)"
      using Some by (subst strip_all.simps) simp
    ultimately show ?thesis by metis
  qed
qed

lemma trim_space_trimmed [go_string]: "trimmed s \<Longrightarrow> trim_space s = s"
proof -
  assume t: "trimmed s"
  then have "trim_left_space s = s"
    by (auto simp: trim_left_space_def trimmed_def list_all_iff intro!: strip_all_none)
  moreover from t have "strip_all (map rev space_runes) (rev s) = rev s"
    by (auto simp: trimmed_def list_all_iff has_suffix_def intro!: strip_all_none)
  ultimately show ?thesis by (simp add: trim_space_def trim_right_space_def)
qed

lemma trimmed_trim_space: "trimmed (trim_space s)"
proof -
  let ?l = "strip_all space_runes s"
  let ?r = "strip_all (map rev space_runes) (rev ?l)"
  obtain u where u: "rev ?l = u @ ?r" using strip_all_suffix by blast
  then have l: "?l = rev ?r @ rev u" by (metis rev_append rev_rev_ident)
  have "\<not> has_prefix (rev ?r) p" if "p \<in> set space_runes" for p
    using strip_all_no_prefix [of p space_runes s] that space_runes_nonempty l
    by (metis append_assoc has_prefix_iff)
  moreover have "\<not> has_suffix (rev ?r) p" if "p \<in> set space_runes" for p
    using strip_all_no_prefix [of "rev p" "map rev space_runes" "rev ?l"] that
      space_runes_nonempty [of p] by (auto simp: has_suffix_def)
  ultimately show ?thesis
    by (simp add: trimmed_def list_all_iff trim_space_def trim_left_space_def
        trim_right_space_def)
qed

text \<open>\<open>strings.Trim s cutset\<close> for a cut set of one ASCII character.\<close>

definition trim_char :: "char \<Rightarrow> string \<Rightarrow> string" where
  "trim_char c s = rev (dropWhile (\<lambda>x. x = c) (rev (dropWhile (\<lambda>x. x = c) s)))"

lemma trim_char_plain [go_string]:
  "s \<noteq> [] \<Longrightarrow> hd s \<noteq> c \<Longrightarrow> last s \<noteq> c \<Longrightarrow> trim_char c s = s"
proof -
  assume s: "s \<noteq> []" "hd s \<noteq> c" "last s \<noteq> c"
  then have "dropWhile (\<lambda>x. x = c) s = s" by (cases s) auto
  moreover from s have "dropWhile (\<lambda>x. x = c) (rev s) = rev s"
    by (cases "rev s") (auto simp: hd_rev [symmetric])
  ultimately show ?thesis by (simp add: trim_char_def)
qed

subsection \<open>Lower case\<close>

text \<open>
  \<open>strings.ToLower\<close> on ASCII text, which the program's algorithm names are: the letters
  \<open>A\<close> to \<open>Z\<close> change and every other byte stays.
\<close>

definition lower_char :: "char \<Rightarrow> char" where
  "lower_char c =
     (let n = (of_char c :: nat) in if 65 \<le> n \<and> n \<le> 90 then char_of (n + 32) else c)"

definition to_lower :: "string \<Rightarrow> string" where
  "to_lower s = map lower_char s"

lemma lower_char_idem [simp]: "lower_char (lower_char c) = lower_char c"
  by (auto simp: lower_char_def Let_def)

lemma to_lower_idem [simp, go_string]: "to_lower (to_lower s) = to_lower s"
  by (simp add: to_lower_def)

end
