(* ===== verification/Go_Errors.thy ===== *)
theory Go_Errors
  imports Go_Conv
begin

text \<open>
  Error values. \<open>IntegrityError\<close> (internal/integritymonitor/integrityerror.go), the error list of
  the alert package (pkg/alerts/errors.go), and the errors built with \<open>errors.New\<close> and
  \<open>fmt.Errorf\<close> are the constructors of one type, as they are values of one interface in Go. A
  call that returns a value and an error, or panics, returns a \<open>result\<close>.
\<close>

subsection \<open>The integrity error\<close>

record integrity_error =
  ie_Type :: int
  ie_Path :: string
  ie_Hash :: string

definition ErrTypeFileMismatch :: int where "ErrTypeFileMismatch = 1"
definition ErrTypeNewFile :: int where "ErrTypeNewFile = 2"
definition ErrTypeFileDeleted :: int where "ErrTypeFileDeleted = 3"

definition IntegrityMessageNewFileFound :: string where
  "IntegrityMessageNewFileFound = ''new file found''"
definition IntegrityMessageFileDeleted :: string where
  "IntegrityMessageFileDeleted = ''file deleted''"
definition IntegrityMessageFileMismatch :: string where
  "IntegrityMessageFileMismatch = ''file content mismatch''"
definition IntegrityMessageUnknownErr :: string where
  "IntegrityMessageUnknownErr = ''unknown integrity error''"

lemmas err_type_defs = ErrTypeFileMismatch_def ErrTypeNewFile_def ErrTypeFileDeleted_def

lemmas integrity_message_defs =
  IntegrityMessageNewFileFound_def IntegrityMessageFileDeleted_def
  IntegrityMessageFileMismatch_def IntegrityMessageUnknownErr_def

definition integrity_error_text :: "integrity_error \<Rightarrow> string" where
  "integrity_error_text e =
     (if ie_Type e = ErrTypeNewFile then IntegrityMessageNewFileFound
      else if ie_Type e = ErrTypeFileDeleted then IntegrityMessageFileDeleted
      else if ie_Type e = ErrTypeFileMismatch then IntegrityMessageFileMismatch
      else IntegrityMessageUnknownErr)"

subsection \<open>Error values\<close>

text \<open>
  \<open>ErrWrap m e\<close> is \<open>fmt.Errorf\<close> of a format that ends in a colon, a blank and \<open>%w\<close>:
  \<open>m\<close> is the text before the colon. \<open>ErrWrapBlank m e\<close> is one whose format has only a blank there.
\<close>

datatype go_error =
    ErrNew string
  | ErrWrap string go_error
  | ErrWrapBlank string go_error
  | ErrIntegrity integrity_error
  | ErrList "go_error list"
  | ErrCanceled
  | ErrDeadlineExceeded

fun error_text :: "go_error \<Rightarrow> string"
  and errors_text :: "nat \<Rightarrow> go_error list \<Rightarrow> string" where
  "error_text (ErrNew m) = m"
| "error_text (ErrWrap m e) = m @ '': '' @ error_text e"
| "error_text (ErrWrapBlank m e) = m @ '' '' @ error_text e"
| "error_text (ErrIntegrity e) = integrity_error_text e"
| "error_text (ErrList es) = ''errors:'' @ [CHR 0x0A] @ errors_text 0 es"
| "error_text ErrCanceled = ''context canceled''"
| "error_text ErrDeadlineExceeded = ''context deadline exceeded''"
| "errors_text i [] = []"
| "errors_text i (e # es) =
     ''Error '' @ nat_str i @ '': '' @ error_text e @ [CHR 0x0A] @ errors_text (Suc i) es"

text \<open>\<open>errors.As(err, &integrityError)\<close>: the first integrity error along the chain of wraps.\<close>

fun as_integrity_error :: "go_error \<Rightarrow> integrity_error option" where
  "as_integrity_error (ErrIntegrity e) = Some e"
| "as_integrity_error (ErrWrap m e) = as_integrity_error e"
| "as_integrity_error (ErrWrapBlank m e) = as_integrity_error e"
| "as_integrity_error _ = None"

subsection \<open>Results\<close>

datatype 'a result = Ok 'a | Fail go_error | Panic string

fun bind_result :: "'a result \<Rightarrow> ('a \<Rightarrow> 'b result) \<Rightarrow> 'b result" where
  "bind_result (Ok a) f = f a"
| "bind_result (Fail e) f = Fail e"
| "bind_result (Panic m) f = Panic m"

text \<open>\<open>if err != nil { return ..., fmt.Errorf("m: %w", err) }\<close>\<close>

fun wrap_error :: "string \<Rightarrow> 'a result \<Rightarrow> 'a result" where
  "wrap_error m (Ok a) = Ok a"
| "wrap_error m (Fail e) = Fail (ErrWrap m e)"
| "wrap_error m (Panic p) = Panic p"

fun_cases bind_result_OkE: "bind_result r f = Ok b"

lemma bind_result_Ok_iff: "bind_result r f = Ok b \<longleftrightarrow> (\<exists>a. r = Ok a \<and> f a = Ok b)"
  by (cases r) auto

lemma wrap_error_Ok_iff [simp]: "wrap_error m r = Ok b \<longleftrightarrow> r = Ok b"
  by (cases r) auto

lemma wrap_error_Panic_iff [simp]: "wrap_error m r = Panic p \<longleftrightarrow> r = Panic p"
  by (cases r) auto

lemma bind_result_Panic_iff:
  "bind_result r f = Panic p \<longleftrightarrow> r = Panic p \<or> (\<exists>a. r = Ok a \<and> f a = Panic p)"
  by (cases r) auto

end
