(* ===== verification/Minio_Storage.thy ===== *)
theory Minio_Storage
  imports Go_Errors
begin

text \<open>
  The storage of the baselines: pkg/minio/minio.go. The MinIO client is a third-party package:
  its calls are the fields of \<open>minio_client\<close>, functions on the state of the world. What the
  storage promises is the locale \<open>object_store\<close>; that it keeps the promise when the client
  behaves as documented (\<open>client_ok\<close>) is \<open>storage_is_store\<close>.
\<close>

record 'w minio_client =
  PutObject :: "string \<Rightarrow> string \<Rightarrow> string \<Rightarrow> 'w \<Rightarrow> 'w \<times> go_error option"
  GetObject :: "string \<Rightarrow> string \<Rightarrow> 'w \<Rightarrow> 'w \<times> go_error option"
  StatObject :: "string \<Rightarrow> string \<Rightarrow> 'w \<Rightarrow> 'w \<times> go_error option"
  ReadObject :: "string \<Rightarrow> string \<Rightarrow> 'w \<Rightarrow> 'w \<times> string result" \<comment> \<open>\<open>io.ReadAll\<close> of the object\<close>
  RemoveObject :: "string \<Rightarrow> string \<Rightarrow> 'w \<Rightarrow> 'w \<times> go_error option"
  BucketExists :: "string \<Rightarrow> 'w \<Rightarrow> 'w \<times> (go_error + bool)"
  MakeBucket :: "string \<Rightarrow> 'w \<Rightarrow> 'w \<times> go_error option"
  ListBuckets :: "'w \<Rightarrow> 'w \<times> (go_error + string list)"

definition DefaultBucketName :: string where "DefaultBucketName = ''integrity''"

definition storage_Save ::
    "'w minio_client \<Rightarrow> string \<Rightarrow> string \<Rightarrow> string \<Rightarrow> 'w \<Rightarrow> 'w \<times> go_error option" where
  "storage_Save c bucketName objectName data w =
     (case PutObject c bucketName objectName data w of
        (w', Some err) \<Rightarrow> (w', Some (ErrWrap ''failed to upload object'' err))
      | (w', None) \<Rightarrow> (w', None))"

definition storage_Load ::
    "'w minio_client \<Rightarrow> string \<Rightarrow> string \<Rightarrow> 'w \<Rightarrow> 'w \<times> string result" where
  "storage_Load c bucketName objectName w =
     (case GetObject c bucketName objectName w of
        (w', Some err) \<Rightarrow> (w', Fail (ErrWrap ''failed to load object'' err))
      | (w', None) \<Rightarrow>
          (case StatObject c bucketName objectName w' of
             (w'', Some err) \<Rightarrow> (w'', Fail (ErrWrap ''failed to get info for object'' err))
           | (w'', None) \<Rightarrow> ReadObject c bucketName objectName w''))"

definition storage_Remove ::
    "'w minio_client \<Rightarrow> string \<Rightarrow> string \<Rightarrow> 'w \<Rightarrow> 'w \<times> go_error option" where
  "storage_Remove c bucketName objName w =
     (case RemoveObject c bucketName objName w of
        (w', Some err) \<Rightarrow> (w', Some (ErrWrap ''failed to remove object'' err))
      | (w', None) \<Rightarrow> (w', None))"

definition CreateBucketIfNotExists ::
    "'w minio_client \<Rightarrow> string \<Rightarrow> 'w \<Rightarrow> 'w \<times> go_error option" where
  "CreateBucketIfNotExists c bucketName w =
     (case BucketExists c bucketName w of
        (w', Inl err) \<Rightarrow> (w', Some (ErrWrap ''failed to create bucket'' err))
      | (w', Inr isExist) \<Rightarrow>
          if isExist then (w', None)
          else (case MakeBucket c bucketName w' of
                  (w'', Some err) \<Rightarrow> (w'', Some (ErrWrap ''failed to create bucket'' err))
                | (w'', None) \<Rightarrow> (w'', None)))"

definition storage_ListBuckets :: "'w minio_client \<Rightarrow> 'w \<Rightarrow> 'w \<times> (go_error + string list)" where
  "storage_ListBuckets c w = ListBuckets c w"

subsection \<open>The instance\<close>

text \<open>
  The package's variables \<open>once\<close> and \<open>instance\<close>; \<open>'s\<close> are the storages. \<open>minio_New\<close> is the
  client's constructor with the host and the keys of the configuration.
\<close>

record 's minio_vars =
  mv_once :: bool \<comment> \<open>\<open>once.Do\<close> has run\<close>
  mv_instance :: "'s option" \<comment> \<open>\<open>None\<close> is the nil pointer\<close>

definition NewMinIOClient :: "(string \<Rightarrow> go_error + 's) \<Rightarrow> string \<Rightarrow> go_error + 's" where
  "NewMinIOClient minio_New host =
     (case minio_New host of
        Inl err \<Rightarrow> Inl (ErrWrap ''failed to initiate MinIO client'' err)
      | Inr client \<Rightarrow> Inr client)"

definition NewStorage ::
    "(string \<Rightarrow> go_error + 's) \<Rightarrow> string \<Rightarrow> 's minio_vars \<Rightarrow>
     's minio_vars \<times> 's option \<times> go_error option" where
  "NewStorage minio_New host g =
     (if mv_once g then (g, mv_instance g, None)
      else
        case NewMinIOClient minio_New host of
          Inl err \<Rightarrow> (g\<lparr>mv_once := True\<rparr>, mv_instance g, Some err)
        | Inr client \<Rightarrow>
            (g\<lparr>mv_once := True, mv_instance := Some client\<rparr>, Some client, None))"

definition minio_Instance :: "'s minio_vars \<Rightarrow> 's option" where
  "minio_Instance g = mv_instance g"

subsection \<open>The store's contract\<close>

text \<open>
  \<open>view w\<close> is the map from bucket and object names to contents that the world \<open>w\<close> holds. An
  operation that reports no error has had exactly its effect on it; one that reports an error
  may or may not have.
\<close>

locale object_store =
  fixes save :: "string \<Rightarrow> string \<Rightarrow> string \<Rightarrow> 'w \<Rightarrow> 'w \<times> go_error option"
    and load :: "string \<Rightarrow> string \<Rightarrow> 'w \<Rightarrow> 'w \<times> string result"
    and remove :: "string \<Rightarrow> string \<Rightarrow> 'w \<Rightarrow> 'w \<times> go_error option"
    and view :: "'w \<Rightarrow> string \<times> string \<Rightarrow> string option"
  assumes save_view: "save b n d w = (w', None) \<Longrightarrow> view w' = (view w)((b, n) \<mapsto> d)"
    and load_view: "load b n w = (w', r) \<Longrightarrow> view w' = view w"
    and load_content: "load b n w = (w', Ok d) \<Longrightarrow> view w (b, n) = Some d"
    and remove_view: "remove b n w = (w', None) \<Longrightarrow> view w' = (view w)((b, n) := None)"
begin

lemma load_after_save:
  "save b n d w = (w', None) \<Longrightarrow> load b n w' = (w'', Ok d') \<Longrightarrow> d' = d"
  using save_view load_content by (metis fun_upd_same option.inject)

lemma load_after_other_save:
  "save b n d w = (w', None) \<Longrightarrow> (b', n') \<noteq> (b, n) \<Longrightarrow> load b' n' w' = (w'', Ok d') \<Longrightarrow>
   view w (b', n') = Some d'"
  using save_view load_content by (metis fun_upd_other)

lemma no_load_after_remove:
  "remove b n w = (w', None) \<Longrightarrow> load b n w' \<noteq> (w'', Ok d)"
  using remove_view load_content by (metis fun_upd_same option.distinct(1))

end

text \<open>The client's documented behaviour, on the same view.\<close>

definition client_ok :: "'w minio_client \<Rightarrow> ('w \<Rightarrow> string \<times> string \<Rightarrow> string option) \<Rightarrow> bool" where
  "client_ok c view \<longleftrightarrow>
     (\<forall>b n d w w'. PutObject c b n d w = (w', None) \<longrightarrow> view w' = (view w)((b, n) \<mapsto> d)) \<and>
     (\<forall>b n w w' r. GetObject c b n w = (w', r) \<longrightarrow> view w' = view w) \<and>
     (\<forall>b n w w' r. StatObject c b n w = (w', r) \<longrightarrow> view w' = view w) \<and>
     (\<forall>b n w w' r. ReadObject c b n w = (w', r) \<longrightarrow> view w' = view w) \<and>
     (\<forall>b n w w' d. ReadObject c b n w = (w', Ok d) \<longrightarrow> view w (b, n) = Some d) \<and>
     (\<forall>b n w w'. RemoveObject c b n w = (w', None) \<longrightarrow> view w' = (view w)((b, n) := None))"

lemma client_get: "client_ok c view \<Longrightarrow> GetObject c b n w = (w', r) \<Longrightarrow> view w' = view w"
  and client_stat: "client_ok c view \<Longrightarrow> StatObject c b n w = (w', r) \<Longrightarrow> view w' = view w"
  and client_read: "client_ok c view \<Longrightarrow> ReadObject c b n w = (w', q) \<Longrightarrow> view w' = view w"
  and client_content: "client_ok c view \<Longrightarrow> ReadObject c b n w = (w', Ok d) \<Longrightarrow> view w (b, n) = Some d"
  unfolding client_ok_def by metis+

lemma storage_is_store:
  assumes "client_ok c view"
  shows "object_store (storage_Save c) (storage_Load c) (storage_Remove c) view"
proof unfold_locales
  fix b n d w w'
  assume "storage_Save c b n d w = (w', None)"
  with assms show "view w' = (view w)((b, n) \<mapsto> d)"
    by (auto simp: storage_Save_def client_ok_def split: prod.splits option.splits)
next
  fix b n w w' r
  assume l: "storage_Load c b n w = (w', r)"
  obtain v e where g: "GetObject c b n w = (v, e)" by (rule prod.exhaust)
  obtain v' e' where st: "StatObject c b n v = (v', e')" by (rule prod.exhaust)
  have "view v = view w" "view v' = view v"
    using client_get [OF assms g] client_stat [OF assms st] by simp_all
  moreover have "w' = v \<or> w' = v' \<or> ReadObject c b n v' = (w', r)"
    using l g st by (cases e; cases e') (simp_all add: storage_Load_def)
  ultimately show "view w' = view w" using client_read [OF assms] by metis
next
  fix b n w w' d
  assume "storage_Load c b n w = (w', Ok d)"
  then obtain v v' where g: "GetObject c b n w = (v, None)" "StatObject c b n v = (v', None)"
    "ReadObject c b n v' = (w', Ok d)"
    by (auto simp: storage_Load_def split: prod.splits option.splits)
  show "view w (b, n) = Some d"
    using client_content [OF assms g(3)] client_get [OF assms g(1)] client_stat [OF assms g(2)] by simp
next
  fix b n w w'
  assume "storage_Remove c b n w = (w', None)"
  with assms show "view w' = (view w)((b, n) := None)"
    by (auto simp: storage_Remove_def client_ok_def split: prod.splits option.splits)
qed

text \<open>
  A client on a map with room for so many objects: it shows that the documented behaviour is
  possible, errors included.
\<close>

definition ErrNoSuchKey :: go_error where
  "ErrNoSuchKey = ErrNew ''The specified key does not exist.''"

definition map_client :: "(string \<times> string \<Rightarrow> string option) minio_client" where
  "map_client = \<lparr>
     PutObject = \<lambda>b n d w. if n = [] then (w, Some (ErrNew ''Object name cannot be empty''))
                            else (w((b, n) \<mapsto> d), None),
     GetObject = \<lambda>b n w. (w, None),
     StatObject = \<lambda>b n w. (w, if w (b, n) = None then Some ErrNoSuchKey else None),
     ReadObject = \<lambda>b n w. (w, case w (b, n) of None \<Rightarrow> Fail ErrNoSuchKey | Some d \<Rightarrow> Ok d),
     RemoveObject = \<lambda>b n w. (w((b, n) := None), None),
     BucketExists = \<lambda>b w. (w, Inr True),
     MakeBucket = \<lambda>b w. (w, None), ListBuckets = \<lambda>w. (w, Inr [])\<rparr>"

lemma map_client_ok: "client_ok map_client (\<lambda>w. w)"
  by (auto simp: client_ok_def map_client_def split: option.splits if_splits)

interpretation map_store: object_store "storage_Save map_client" "storage_Load map_client"
    "storage_Remove map_client" "\<lambda>w. w"
  by (rule storage_is_store) (rule map_client_ok)

subsection \<open>Properties\<close>

text \<open>
  What was saved is what is loaded: with a client that behaves as documented, a
  load that succeeds after a save returns the saved bytes, for another object it returns what
  was there before, and after a removal no load of the object succeeds.
\<close>

lemma storage_roundtrip:
  assumes "client_ok c view"
  shows "(storage_Save c b n d w = (w1, None) \<and> storage_Load c b n w1 = (w2, Ok d') \<longrightarrow> d' = d) \<and>
    (storage_Save c b n d w = (w1, None) \<and> (b', n') \<noteq> (b, n) \<and> storage_Load c b' n' w1 = (w2, Ok d') \<longrightarrow>
       view w (b', n') = Some d') \<and>
    (storage_Remove c b n w = (w1, None) \<longrightarrow> storage_Load c b n w1 \<noteq> (w2, Ok d'))"
proof -
  note st = storage_is_store [OF assms]
  show ?thesis
    using object_store.load_after_save [OF st, of b n d w w1 w2 d']
      object_store.load_after_other_save [OF st, of b n d w w1 b' n' w2 d']
      object_store.no_load_after_remove [OF st, of b n w w1 w2 d'] by blast
qed

text \<open>
  \<open>NewStorage\<close> tries to connect once: after a first call that failed, every later
  call reports success and returns the nil pointer, whether the server could be reached by then
  or not; after a first call that succeeded, every later call returns the same storage.
\<close>

lemma new_storage_once:
  "(let (g1, s1, e1) = NewStorage minio_New host \<lparr>mv_once = False, mv_instance = None\<rparr>;
        (g2, s2, e2) = NewStorage minio_New' host' g1
    in g2 = g1 \<and> s2 = s1 \<and> e2 = None \<and> minio_Instance g2 = s2 \<and>
       (case minio_New host of
          Inl err \<Rightarrow> s1 = None \<and> e1 = Some (ErrWrap ''failed to initiate MinIO client'' err)
        | Inr client \<Rightarrow> s1 = Some client \<and> e1 = None))"
  by (auto simp: NewStorage_def NewMinIOClient_def minio_Instance_def split: sum.splits)

end
