(* ===== verification/Base64.thy ===== *)
theory Base64
  imports Go_Errors
begin

text \<open>
  The standard encoding of encoding/base64, which carries the baseline inside the custom
  resource: \<open>StdEncoding.DecodeString\<close> skips carriage returns and newlines, wants whole quanta
  with padding, and does not look at the bits a padded quantum leaves over. The encoder is the
  specification of what the tools that build the resource write. The offset in the error's
  text is left out.
\<close>

definition b64_alphabet :: string where
  "b64_alphabet = ''ABCDEFGHIJKLMNOPQRSTUVWXYZabcdefghijklmnopqrstuvwxyz0123456789+/''"

definition b64_char :: "nat \<Rightarrow> char" where "b64_char i = b64_alphabet ! i"

fun index_in :: "char \<Rightarrow> string \<Rightarrow> nat option" where
  "index_in c [] = None"
| "index_in c (d # ds) = (if c = d then Some 0 else map_option Suc (index_in c ds))"

definition b64_val :: "char \<Rightarrow> nat option" where "b64_val c = index_in c b64_alphabet"

definition b64_pad :: char where "b64_pad = CHR ''=''"

definition byte :: "nat \<Rightarrow> char" where "byte n = char_of n"

text \<open>The bytes of one quantum, from the values of its digits.\<close>

definition b64_byte1 :: "nat \<Rightarrow> nat \<Rightarrow> char" where "b64_byte1 a b = byte (a * 4 + b div 16)"
definition b64_byte2 :: "nat \<Rightarrow> nat \<Rightarrow> char" where "b64_byte2 b c = byte (b mod 16 * 16 + c div 4)"
definition b64_byte3 :: "nat \<Rightarrow> nat \<Rightarrow> char" where "b64_byte3 c d = byte (c mod 4 * 64 + d)"

fun b64_quanta :: "string \<Rightarrow> string option" where
  "b64_quanta [] = Some []"
| "b64_quanta (p # q # r # s # rest) =
     (case (b64_val p, b64_val q) of
        (Some a, Some b) \<Rightarrow>
          if r = b64_pad then
            (if s = b64_pad \<and> rest = [] then Some [b64_byte1 a b] else None)
          else
            (case b64_val r of
               None \<Rightarrow> None
             | Some c \<Rightarrow>
                 if s = b64_pad then
                   (if rest = [] then Some [b64_byte1 a b, b64_byte2 b c] else None)
                 else
                   (case (b64_val s, b64_quanta rest) of
                      (Some d, Some ds) \<Rightarrow> Some (b64_byte1 a b # b64_byte2 b c # b64_byte3 c d # ds)
                    | _ \<Rightarrow> None))
      | _ \<Rightarrow> None)"
| "b64_quanta _ = None"

definition base64_DecodeString :: "string \<Rightarrow> string result" where
  "base64_DecodeString s =
     (case b64_quanta (filter (\<lambda>c. c \<noteq> CHR 0x0D \<and> c \<noteq> CHR 0x0A) s) of
        None \<Rightarrow> Fail (ErrNew ''illegal base64 data'')
      | Some d \<Rightarrow> Ok d)"

fun base64_EncodeToString :: "string \<Rightarrow> string" where
  "base64_EncodeToString [] = []"
| "base64_EncodeToString [x] =
     [b64_char (of_char x div 4), b64_char (of_char x mod 4 * 16), b64_pad, b64_pad]"
| "base64_EncodeToString [x, y] =
     [b64_char (of_char x div 4), b64_char (of_char x mod 4 * 16 + of_char y div 16),
      b64_char (of_char y mod 16 * 4), b64_pad]"
| "base64_EncodeToString (x # y # z # rest) =
     b64_char (of_char x div 4) # b64_char (of_char x mod 4 * 16 + of_char y div 16) #
     b64_char (of_char y mod 16 * 4 + of_char z div 64) # b64_char (of_char z mod 64) #
     base64_EncodeToString rest"

subsection \<open>Decoding undoes encoding\<close>

lemma b64_val_all: "list_all (\<lambda>i. b64_val (b64_char i) = Some i \<and> b64_char i \<noteq> b64_pad \<and>
    b64_char i \<noteq> CHR 0x0D \<and> b64_char i \<noteq> CHR 0x0A) [0..<64]"
  by code_simp

lemma b64_val_char [simp]: "i < 64 \<Longrightarrow> b64_val (b64_char i) = Some i"
  and b64_char_pad [simp]: "i < 64 \<Longrightarrow> b64_char i \<noteq> b64_pad"
  and b64_char_plain [simp]: "i < 64 \<Longrightarrow> b64_char i \<noteq> CHR 0x0D \<and> b64_char i \<noteq> CHR 0x0A"
  using b64_val_all by (auto simp: list_all_iff)

lemma byte_of_char [simp]: "byte (of_char x) = x"
  by (simp add: byte_def)

lemma of_char_bound: "(of_char x :: nat) < 256"
  by simp

lemma digit_div_mod:
  fixes a b n :: nat
  assumes "b < n"
  shows "(a * n + b) div n = a" and "(a * n + b) mod n = b"
  using assms by simp_all

lemma byte_parts:
  fixes v :: nat
  assumes "v < 256"
  shows "v div 4 < 64" and "v div 16 < 16" and "v div 64 < 4"
  using assms by (simp_all add: less_mult_imp_div_less)

lemma mod_bounds: "(v :: nat) mod 4 \<le> 3" "v mod 16 \<le> 15"
  using mod_less_divisor [of 4 v] mod_less_divisor [of 16 v] by linarith+

lemma b64_bounds [simp]:
  "(of_char x :: nat) div 4 < 64"
  "(of_char x :: nat) mod 4 * 16 < 64"
  "(of_char x :: nat) mod 4 * 16 + of_char y div 16 < 64"
  "(of_char y :: nat) mod 16 * 4 < 64"
  "(of_char y :: nat) mod 16 * 4 + of_char z div 64 < 64"
  "(of_char z :: nat) mod 64 < 64"
proof -
  note x = byte_parts [OF of_char_bound [of x]] mod_bounds [of "of_char x"]
  note y = byte_parts [OF of_char_bound [of y]] mod_bounds [of "of_char y"]
  note z = byte_parts [OF of_char_bound [of z]]
  show "(of_char x :: nat) div 4 < 64" by (rule x)
  show "(of_char x :: nat) mod 4 * 16 < 64" using x(4) by linarith
  show "(of_char x :: nat) mod 4 * 16 + of_char y div 16 < 64" using x(4) y(2) by linarith
  show "(of_char y :: nat) mod 16 * 4 < 64" using y(5) by linarith
  show "(of_char y :: nat) mod 16 * 4 + of_char z div 64 < 64" using y(5) z(3) by linarith
  show "(of_char z :: nat) mod 64 < 64" by simp
qed

lemma b64_bytes [simp]:
  "b64_byte1 (of_char x div 4) (of_char x mod 4 * 16) = x"
  "b64_byte1 (of_char x div 4) (of_char x mod 4 * 16 + of_char y div 16) = x"
  "b64_byte2 (of_char x mod 4 * 16 + of_char y div 16) (of_char y mod 16 * 4) = y"
  "b64_byte2 (of_char x mod 4 * 16 + of_char y div 16) (of_char y mod 16 * 4 + of_char z div 64) = y"
  "b64_byte3 (of_char y mod 16 * 4 + of_char z div 64) (of_char z mod 64) = z"
proof -
  note y = digit_div_mod [OF byte_parts(2) [OF of_char_bound [of y]], of "of_char x mod 4"]
  note z = digit_div_mod [OF byte_parts(3) [OF of_char_bound [of z]], of "of_char y mod 16"]
  note u = div_mult_mod_eq [of "of_char x" "4 :: nat"] div_mult_mod_eq [of "of_char y" "16 :: nat"]
    div_mult_mod_eq [of "of_char z" "64 :: nat"]
  show "b64_byte1 (of_char x div 4) (of_char x mod 4 * 16) = x"
    using u by (simp add: b64_byte1_def)
  show "b64_byte1 (of_char x div 4) (of_char x mod 4 * 16 + of_char y div 16) = x"
    using u unfolding b64_byte1_def y by simp
  show "b64_byte2 (of_char x mod 4 * 16 + of_char y div 16) (of_char y mod 16 * 4) = y"
    using u unfolding b64_byte2_def y by simp
  show "b64_byte2 (of_char x mod 4 * 16 + of_char y div 16) (of_char y mod 16 * 4 + of_char z div 64) = y"
    using u unfolding b64_byte2_def y z by simp
  show "b64_byte3 (of_char y mod 16 * 4 + of_char z div 64) (of_char z mod 64) = z"
    using u unfolding b64_byte3_def z by simp
qed

lemma b64_quanta_encode: "b64_quanta (base64_EncodeToString d) = Some d"
  by (induction d rule: base64_EncodeToString.induct) simp_all

lemma encode_plain:
  "filter (\<lambda>c. c \<noteq> CHR 0x0D \<and> c \<noteq> CHR 0x0A) (base64_EncodeToString d) = base64_EncodeToString d"
  by (induction d rule: base64_EncodeToString.induct) (simp_all add: b64_pad_def)

lemma decode_encode: "base64_DecodeString (base64_EncodeToString d) = Ok d"
  by (simp add: base64_DecodeString_def encode_plain b64_quanta_encode)

end
