(* ===== verification/Go_Path.thy ===== *)
theory Go_Path
  imports Go_Strings
begin

text \<open>
  \<open>filepath.Clean\<close> and \<open>filepath.Join\<close> on Unix, which the file walk and the object names
  use. The library works on one buffer; this is its documented rule on path components.
\<close>

text \<open>
  The second argument is the cleaned prefix, reversed: an empty component or \<open>.\<close> is dropped,
  \<open>..\<close> removes the component before it, stays at the front of a relative path and vanishes
  at the root.
\<close>

fun clean_comps :: "bool \<Rightarrow> string list \<Rightarrow> string list \<Rightarrow> string list" where
  "clean_comps rooted st [] = rev st"
| "clean_comps rooted st (c # cs) =
     (if c = [] \<or> c = ''.'' then clean_comps rooted st cs
      else if c = ''..'' then
        (case st of
           [] \<Rightarrow> clean_comps rooted (if rooted then [] else [''..'']) cs
         | d # ds \<Rightarrow> if d = ''..'' then clean_comps rooted (''..'' # st) cs
                    else clean_comps rooted ds cs)
      else clean_comps rooted (c # st) cs)"

definition is_rooted :: "string \<Rightarrow> bool" where
  "is_rooted p \<longleftrightarrow> p \<noteq> [] \<and> hd p = CHR ''/''"

definition path_comps :: "string \<Rightarrow> string list" where
  "path_comps p = clean_comps (is_rooted p) [] (split p ''/'')"

definition show_path :: "bool \<Rightarrow> string list \<Rightarrow> string" where
  "show_path rooted cs =
     (if cs = [] then (if rooted then ''/'' else ''.'')
      else (if rooted then ''/'' else []) @ join ''/'' cs)"

definition path_clean :: "string \<Rightarrow> string" where
  "path_clean p = (if p = [] then ''.'' else show_path (is_rooted p) (path_comps p))"

definition path_join :: "string list \<Rightarrow> string" where
  "path_join elems =
     (case dropWhile (\<lambda>e. e = []) elems of [] \<Rightarrow> [] | es \<Rightarrow> path_clean (join ''/'' es))"

subsection \<open>Components\<close>

definition proper_name :: "string \<Rightarrow> bool" where
  "proper_name c \<longleftrightarrow> c \<noteq> [] \<and> c \<noteq> ''.'' \<and> c \<noteq> ''..'' \<and> CHR ''/'' \<notin> set c"

definition normal_comps :: "bool \<Rightarrow> string list \<Rightarrow> bool" where
  "normal_comps rooted cs \<longleftrightarrow>
     (\<exists>k ys. cs = replicate k ''..'' @ ys \<and> list_all proper_name ys \<and> (rooted \<longrightarrow> k = 0))"

lemma clean_comps_append:
  "clean_comps r st (xs @ ys) = clean_comps r (rev (clean_comps r st xs)) ys"
  by (induction r st xs rule: clean_comps.induct) (auto split: list.splits)

lemma clean_comps_proper:
  "list_all proper_name cs \<Longrightarrow> clean_comps r st cs = rev st @ cs"
  by (induction r st cs rule: clean_comps.induct) (auto simp: proper_name_def)

lemma normal_comps_snoc_proper:
  "normal_comps r cs \<Longrightarrow> proper_name c \<Longrightarrow> normal_comps r (cs @ [c])"
  unfolding normal_comps_def by clarsimp (metis append_assoc list_all_append list.pred_inject)

lemma normal_comps_butlast:
  assumes "normal_comps r (cs @ [c])" and "c \<noteq> ''..''"
  shows "normal_comps r cs"
proof -
  from assms obtain k ys where k: "cs @ [c] = replicate k ''..'' @ ys" "list_all proper_name ys"
    "r \<longrightarrow> k = 0" by (auto simp: normal_comps_def)
  have "ys \<noteq> []"
  proof
    assume "ys = []"
    with k(1) have "c \<in> set (replicate k ''..'')" by (metis append_Nil2 in_set_conv_decomp)
    with assms(2) show False by (simp split: if_splits)
  qed
  then obtain zs z where z: "ys = zs @ [z]" by (cases ys rule: rev_cases) auto
  with k(1) have "cs = replicate k ''..'' @ zs" by simp
  with k(2,3) z show ?thesis by (auto simp: normal_comps_def)
qed

lemma normal_comps_dotdot:
  assumes "normal_comps False (cs @ [''..''])"
  shows "normal_comps False (cs @ [''..'', ''..''])"
proof -
  from assms obtain k ys where k: "cs @ [''..''] = replicate k ''..'' @ ys" "list_all proper_name ys"
    by (auto simp: normal_comps_def)
  have "ys = []"
  proof (cases ys rule: rev_cases)
    case (snoc zs z)
    with k show ?thesis by (simp add: proper_name_def)
  qed simp
  with k(1) have "cs @ [''..'', ''..''] = replicate (Suc k) ''..'' @ []"
    by (simp add: replicate_append_same flip: append_assoc)
      (metis append.assoc append_Cons append_Nil replicate_append_same)
  then show ?thesis unfolding normal_comps_def
    by (intro exI [of _ "Suc k"] exI [of _ "[]"]) simp
qed

lemma normal_rooted_no_dotdot: "normal_comps True cs \<Longrightarrow> ''..'' \<notin> set cs"
  by (auto simp: normal_comps_def list_all_iff proper_name_def)

lemma normal_clean_comps:
  "(\<And>c. c \<in> set cs \<Longrightarrow> CHR ''/'' \<notin> set c) \<Longrightarrow> normal_comps r (rev st) \<Longrightarrow>
   normal_comps r (clean_comps r st cs)"
proof (induction r st cs rule: clean_comps.induct)
  case (2 r st c cs)
  consider "c = [] \<or> c = ''.''" | "c = ''..''" | "proper_name c"
    using 2(6) [of c] by (auto simp: proper_name_def)
  then show ?case
  proof cases
    case 1
    with 2 show ?thesis by auto
  next
    case dd: 2
    have one: "normal_comps False [''..'']"
      unfolding normal_comps_def by (intro exI [of _ 1] exI [of _ "[]"]) simp
    show ?thesis
    proof (cases st)
      case Nil
      with dd one 2 show ?thesis by (cases r) auto
    next
      case (Cons d ds)
      show ?thesis
      proof (cases "d = ''..''")
        case True
        with 2(7) Cons have "\<not> r" using normal_rooted_no_dotdot by fastforce
        with True Cons dd 2 show ?thesis using normal_comps_dotdot [of "rev ds"] by auto
      next
        case False
        with Cons dd 2 show ?thesis using normal_comps_butlast [of r "rev ds" d] by auto
      qed
    qed
  next
    case 3
    with 2 normal_comps_snoc_proper [of r "rev st" c] show ?thesis
      by (auto simp: proper_name_def)
  qed
qed simp

lemma clean_comps_normal:
  assumes "normal_comps r cs"
  shows "clean_comps r [] cs = cs"
proof -
  from assms obtain k ys where cs: "cs = replicate k ''..'' @ ys" "list_all proper_name ys"
    "r \<longrightarrow> k = 0" by (auto simp: normal_comps_def)
  have "clean_comps False (replicate j ''..'') (replicate k ''..'') = replicate (j + k) ''..''" for j k
  proof (induction k arbitrary: j)
    case (Suc k)
    then show ?case using Suc.IH [of "Suc j"] Suc.IH [of 1] by (cases j) simp_all
  qed simp
  from this [of 0 k] cs show ?thesis
    by (cases r) (auto simp: clean_comps_append clean_comps_proper)
qed

subsection \<open>Cleaning is idempotent, and joining a name appends a component\<close>

lemma normal_comps_member:
  assumes "normal_comps r cs" and "c \<in> set cs"
  shows "c \<noteq> [] \<and> c \<noteq> ''.'' \<and> CHR ''/'' \<notin> set c"
proof -
  from assms obtain k ys where "cs = replicate k ''..'' @ ys" "list_all proper_name ys"
    by (auto simp: normal_comps_def)
  with assms(2) have "c = ''..'' \<or> proper_name c" by (auto simp: list_all_iff)
  then show ?thesis by (auto simp: proper_name_def)
qed

lemma normal_path_comps: "normal_comps (is_rooted p) (path_comps p)"
  unfolding path_comps_def
proof (rule normal_clean_comps)
  show "CHR ''/'' \<notin> set c" if "c \<in> set (split p ''/'')" for c
    using that by (rule split_char_pieces)
  show "normal_comps (is_rooted p) (rev [])"
    unfolding normal_comps_def by (intro exI [of _ 0] exI [of _ "[]"]) simp
qed

lemma join_eq_Nil_iff: "xs \<noteq> [] \<Longrightarrow> hd xs \<noteq> [] \<Longrightarrow> join sep xs \<noteq> []"
  by (cases "(sep, xs)" rule: join.cases) auto

lemma hd_join: "xs \<noteq> [] \<Longrightarrow> hd xs \<noteq> [] \<Longrightarrow> hd (join sep xs) = hd (hd xs)"
  by (cases "(sep, xs)" rule: join.cases) auto

lemma show_path_nonempty: "normal_comps r cs \<Longrightarrow> show_path r cs \<noteq> []"
  using normal_comps_member [of r cs "hd cs"] by (auto simp: show_path_def join_eq_Nil_iff)

lemma is_rooted_show_path:
  assumes "normal_comps r cs"
  shows "is_rooted (show_path r cs) = r"
proof (cases cs)
  case Nil
  then show ?thesis by (simp add: show_path_def is_rooted_def)
next
  case (Cons c cs')
  with assms have "c \<noteq> []" and "hd c \<noteq> CHR ''/''"
    using normal_comps_member [of r cs c] by (auto dest: hd_in_set)
  with Cons show ?thesis
    using hd_join [of cs "''/''"] join_eq_Nil_iff [of cs "''/''"]
    by (simp add: show_path_def is_rooted_def)
qed

lemma path_comps_show_path:
  assumes n: "normal_comps r cs"
  shows "path_comps (show_path r cs) = cs"
proof (cases "cs = []")
  case True
  have "split ''/'' ''/'' = [[], []]" and "split ''.'' ''/'' = [''.'']"
    by (simp_all add: split_def has_prefix_def)
  with True show ?thesis by (auto simp: show_path_def path_comps_def)
next
  case False
  with n have sp: "split (join ''/'' cs) ''/'' = cs"
    using normal_comps_member [OF n] by (intro split_join) auto
  have "path_comps (show_path r cs) = clean_comps r [] (split (show_path r cs) ''/'')"
    by (simp add: path_comps_def is_rooted_show_path [OF n])
  also have "\<dots> = clean_comps r [] cs"
    using split_char_append [of "[]" "CHR ''/''" "join ''/'' cs"] sp False
    by (auto simp: show_path_def split_def)
  finally show ?thesis using clean_comps_normal [OF n] by simp
qed

lemma path_clean_idem: "path_clean (path_clean p) = path_clean p"
proof (cases "p = []")
  case True
  then show ?thesis by (simp add: path_clean_def is_rooted_def path_comps_def split_def
        show_path_def has_prefix_def)
next
  case False
  then show ?thesis
    using normal_path_comps [of p] show_path_nonempty is_rooted_show_path path_comps_show_path
    by (simp add: path_clean_def)
qed

lemma proper_name_hd: "proper_name n \<Longrightarrow> \<not> is_rooted n"
  by (auto simp: proper_name_def is_rooted_def dest: hd_in_set)

text \<open>Joining a directory and an entry's name appends the name to the cleaned components.\<close>

lemma path_join_name:
  assumes n: "proper_name n"
  shows "path_join [p, n] = show_path (is_rooted p) (path_comps p @ [n])"
proof -
  from n have ne: "n \<noteq> []" and sn: "split n ''/'' = [n]"
    by (auto simp: proper_name_def split_plain)
  have c1: "clean_comps r st [n] = rev st @ [n]" for r st
    using clean_comps_proper [of "[n]" r st] n by (simp del: clean_comps.simps)
  show ?thesis
  proof (cases "p = []")
    case True
    have "path_comps p = []" by (simp add: True path_comps_def split_def)
    moreover have "path_comps n = [n]" using c1 [of _ "[]"] by (simp add: path_comps_def sn del: clean_comps.simps)
    ultimately show ?thesis
      using True ne proper_name_hd [OF n] is_rooted_def [of "[]"]
      by (simp add: path_join_def path_clean_def)
  next
    case False
    have "path_comps (p @ ''/'' @ n) = path_comps p @ [n]"
      using False split_char_append [of p "CHR ''/''" n] sn
      by (simp add: path_comps_def is_rooted_def clean_comps_append c1 del: clean_comps.simps)
    moreover have "is_rooted (p @ ''/'' @ n) = is_rooted p"
      using False by (simp add: is_rooted_def)
    ultimately show ?thesis using False ne by (simp add: path_join_def path_clean_def)
  qed
qed

text \<open>
  \<open>child d n\<close>: the entry \<open>n\<close> of the cleaned directory \<open>d\<close>, as the walk names it.
\<close>

definition child :: "string \<Rightarrow> string \<Rightarrow> string" where
  "child d n = (if d = ''/'' then ''/'' @ n else if d = ''.'' then n else d @ ''/'' @ n)"

lemma show_path_snoc:
  assumes nn: "normal_comps r cs"
  shows "show_path r (cs @ [n]) = child (show_path r cs) n"
proof (cases "cs = []")
  case True
  then show ?thesis by (simp add: show_path_def child_def)
next
  case False
  have "path_comps (show_path r cs) = cs" by (rule path_comps_show_path [OF nn])
  moreover have "path_comps ''/'' = []" and "path_comps ''.'' = []"
    using path_comps_show_path [of True "[]"] path_comps_show_path [of False "[]"]
    by (auto simp: show_path_def normal_comps_def)
  ultimately have "show_path r cs \<noteq> ''/''" and "show_path r cs \<noteq> ''.''" using False by metis+
  with False show ?thesis by (auto simp: show_path_def child_def join_append)
qed

lemma path_join_child: "p \<noteq> [] \<Longrightarrow> proper_name n \<Longrightarrow> path_join [p, n] = child (path_clean p) n"
  using path_join_name [of n p] show_path_snoc [OF normal_path_comps [of p]]
  by (simp add: path_clean_def)

lemma path_clean_child:
  assumes "path_clean d = d" and "proper_name n"
  shows "path_clean (child d n) = child d n"
proof -
  have "d \<noteq> []" using assms(1) by (auto simp: path_clean_def)
  then have "child d n = path_join [d, n]" using assms path_join_child by simp
  moreover have "path_join [d, n] = path_clean (d @ ''/'' @ n)"
    using \<open>d \<noteq> []\<close> assms(2) by (simp add: path_join_def proper_name_def)
  ultimately show ?thesis using path_clean_idem by simp
qed

end
