(* ===== verification/Process.thy ===== *)
theory Process
  imports Go_Errors
begin

text \<open>
  Finding the monitored process: internal/utils/process/pid.go, \<open>GetProcessPath\<close> of
  internal/integritymonitor/integritymonitor.go, and the name of the baseline that belongs to
  the process's image: internal/utils/process/checksumfile.go.
\<close>

text \<open>The configuration values (viper) that the monitor reads.\<close>

record config =
  cfg_process_image :: "string \<Rightarrow> string option"
  cfg_pod_namespace :: string
  cfg_minio_bucket :: string
  cfg_algorithm :: string
  cfg_count_workers :: int

subsection \<open>The process id\<close>

definition ErrProcessNotFound :: go_error where
  "ErrProcessNotFound = ErrNew ''process not found''"

text \<open>\<open>pidof\<close> is the output of the command of that name, \<open>None\<close> if it fails.\<close>

definition GetPID :: "(string \<Rightarrow> string option) \<Rightarrow> string \<Rightarrow> int result" where
  "GetPID pidof procName =
     (case pidof procName of
        None \<Rightarrow> Fail ErrProcessNotFound
      | Some cmdOut \<Rightarrow>
          let ss = split cmdOut '' '' in
          case atoi (trim_space (ss ! 0)) of
            None \<Rightarrow> Fail ErrProcessNotFound
          | Some pid \<Rightarrow> if pid = 0 then Fail ErrProcessNotFound else Ok pid)"

definition GetProcessPath :: "(string \<Rightarrow> string option) \<Rightarrow> string \<Rightarrow> string \<Rightarrow> string result" where
  "GetProcessPath pidof procName path =
     bind_result (wrap_error ''failed build process path'' (GetPID pidof procName))
       (\<lambda>pid. Ok (''/proc/'' @ int_str pid @ ''/root/'' @ path))"

subsection \<open>The baseline's name\<close>

definition CheckSumFile :: "config \<Rightarrow> string \<Rightarrow> string \<Rightarrow> string result" where
  "CheckSumFile cfg procName alg =
     (let image = (case cfg_process_image cfg procName of None \<Rightarrow> [] | Some im \<Rightarrow> im);
          ns = cfg_pod_namespace cfg;
          parts = split image '':'' in
      if length parts < 2 then Fail (ErrNew ''incorrect image name'')
      else Ok (ns @ ''/'' @ parts ! 0 @ ''/'' @ parts ! 1 @ ''.'' @ to_lower alg))"

lemma GetPID_no_panic: "GetPID pidof procName \<noteq> Panic m"
  by (auto simp: GetPID_def Let_def split: option.splits)

lemma GetProcessPath_Ok_iff:
  "GetProcessPath pidof procName path = Ok p \<longleftrightarrow>
   (\<exists>pid. GetPID pidof procName = Ok pid \<and> p = ''/proc/'' @ int_str pid @ ''/root/'' @ path)"
  by (auto simp: GetProcessPath_def bind_result_Ok_iff)

lemma CheckSumFile_no_panic: "CheckSumFile cfg procName alg \<noteq> Panic m"
  by (simp add: CheckSumFile_def Let_def)

subsection \<open>The output of pidof\<close>

text \<open>
  \<open>pidof\<close> prints the process ids of a program, blanks between them and a newline at the end.
\<close>

definition pidof_output :: "nat list \<Rightarrow> string" where
  "pidof_output pids = join '' '' (map nat_str pids) @ [CHR 0x0A]"

lemma nat_str_no_space: "is_digit c \<Longrightarrow> c \<notin> {CHR '' '', CHR 0x0A}"
  by (auto simp: is_digit_def digit_val_def)

lemma space_rune_not_digit: "p \<in> set space_runes \<Longrightarrow> \<not> is_digit (hd p) \<and> \<not> is_digit (last p)"
  by (auto simp: space_runes_def is_digit_def digit_val_def)

lemma trimmed_digits:
  assumes "s \<noteq> []" and "\<And>c. c \<in> set s \<Longrightarrow> is_digit c"
  shows "trimmed s"
  unfolding trimmed_def list_all_iff
proof (intro ballI conjI)
  fix p assume p: "p \<in> set space_runes"
  note n = space_runes_nonempty [OF p] and d = space_rune_not_digit [OF p]
  show "\<not> has_prefix s p"
    using assms(2) [of "hd s"] assms(1) n d by (auto simp: has_prefix_iff)
  show "\<not> has_suffix s p"
  proof
    assume "has_suffix s p"
    then obtain t where "rev s = rev p @ t" by (auto simp: has_suffix_def has_prefix_iff)
    then have "s = rev t @ p" by (metis rev_append rev_rev_ident)
    with n have "last p \<in> set s" by simp
    with assms(2) d show False by blast
  qed
qed

lemma trimmed_nat_str: "trimmed (nat_str n)"
  by (rule trimmed_digits) (auto dest: nat_str_digits)

lemma trim_space_newline:
  assumes "trimmed s" and "s \<noteq> []"
  shows "trim_space (s @ [CHR 0x0A]) = s"
proof -
  have np: "\<not> has_prefix (s @ [CHR 0x0A]) p" if "p \<in> set space_runes" for p
  proof
    assume "has_prefix (s @ [CHR 0x0A]) p"
    then obtain t where t: "s @ [CHR 0x0A] = p @ t" by (auto simp: has_prefix_iff)
    have "\<not> has_prefix s p" using assms(1) that by (auto simp: trimmed_def list_all_iff)
    with t have "t = []" "p = s @ [CHR 0x0A]"
      by (cases t rule: rev_cases; auto simp: has_prefix_iff)+
    with that assms(2) show False by (auto simp: space_runes_def)
  qed
  have "trim_left_space (s @ [CHR 0x0A]) = s @ [CHR 0x0A]"
    using np by (simp add: trim_left_space_def strip_all_none)
  moreover have "strip_all (map rev space_runes) (rev (s @ [CHR 0x0A])) = rev s"
  proof -
    have "find (\<lambda>p. p \<noteq> [] \<and> has_prefix (CHR 0x0A # rev s) p) (map rev space_runes) = Some [CHR 0x0A]"
      by (simp add: space_runes_def has_prefix_def)
    then have "strip_all (map rev space_runes) (CHR 0x0A # rev s) =
        strip_all (map rev space_runes) (rev s)"
      by (subst strip_all.simps) simp
    also have "\<dots> = rev s"
      using assms(1) by (auto simp: trimmed_def list_all_iff has_suffix_def intro!: strip_all_none)
    finally show ?thesis by simp
  qed
  ultimately show ?thesis by (simp add: trim_space_def trim_right_space_def)
qed

lemma split_pids:
  "split (join '' '' (map nat_str (p # ps)) @ [CHR 0x0A]) '' '' ! 0 =
   (if ps = [] then nat_str p @ [CHR 0x0A] else nat_str p)"
proof -
  have nd: "CHR '' '' \<notin> set (nat_str n)" for n
    using nat_str_digits nat_str_no_space by blast
  show ?thesis
  proof (cases ps)
    case Nil
    then show ?thesis using nd by (simp add: split_plain)
  next
    case (Cons q qs)
    then show ?thesis
      using nd split_char_append [of "nat_str p" "CHR '' ''"] by (simp add: split_plain)
  qed
qed

lemma first_pid_path:
  assumes "pidof procName = Some (pidof_output (pid # pids))"
    and "0 < pid" and "pid < 2 ^ 63"
  shows "GetProcessPath pidof procName path =
    Ok (''/proc/'' @ nat_str pid @ ''/root/'' @ path)"
proof -
  have "trim_space (split (pidof_output (pid # pids)) '' '' ! 0) = nat_str pid"
    unfolding pidof_output_def split_pids
    by (simp add: trimmed_nat_str trim_space_trimmed trim_space_newline)
  then have "GetPID pidof procName = Ok (int pid)"
    using assms by (simp add: GetPID_def Let_def atoi_nat_str)
  then show ?thesis by (simp add: GetProcessPath_def int_str_def)
qed

text \<open>
  \<open>GetPID\<close> returns a process id that is not 0 or the error \<open>process not found\<close>,
  whatever \<open>pidof\<close> prints; the path is then the error wrapped with its reason. Neither
  function panics.
\<close>

lemma process_path_errors:
  "(case GetPID pidof procName of
      Ok pid \<Rightarrow> pid \<noteq> 0 \<and>
        GetProcessPath pidof procName path = Ok (''/proc/'' @ int_str pid @ ''/root/'' @ path)
    | Fail e \<Rightarrow> e = ErrProcessNotFound \<and>
        GetProcessPath pidof procName path =
          Fail (ErrWrap ''failed build process path'' ErrProcessNotFound)
    | Panic m \<Rightarrow> False)"
  by (auto simp: GetProcessPath_def GetPID_def Let_def split: option.splits)

end
