(* ===== verification/Object_Name.thy ===== *)
theory Object_Name
  imports Go_Path Process
begin

text \<open>
  The name under which a baseline is stored. The snapshot controller writes it with
  \<open>BuildObjectName\<close> (pkg/minio/minio.go); the monitor reads it with \<open>CheckSumFile\<close>
  (internal/utils/process/checksumfile.go), which builds the string in another way. The
  locale states what makes the two meet, and is interpreted on the two functions.
\<close>

definition BuildObjectName :: "string \<Rightarrow> string \<Rightarrow> string \<Rightarrow> string result" where
  "BuildObjectName namespace img alg =
     (let imageInfo = split img '':'' in
      if length imageInfo < 2 then Panic ''index out of range''
      else Ok (path_join [namespace, imageInfo ! 0, imageInfo ! 1] @ ''.'' @ to_lower alg))"

subsection \<open>Well-formed images\<close>

text \<open>
  An image \<open>name:tag\<close> without a registry port: one colon, every component of the name and the
  tag a proper name.
\<close>

definition image_of :: "string list \<Rightarrow> string \<Rightarrow> string" where
  "image_of comps tag = join ''/'' comps @ '':'' @ tag"

definition image_parts_ok :: "string \<Rightarrow> string list \<Rightarrow> string \<Rightarrow> bool" where
  "image_parts_ok ns comps tag \<longleftrightarrow>
     proper_name ns \<and> proper_name tag \<and> CHR '':'' \<notin> set tag \<and> comps \<noteq> [] \<and>
     list_all (\<lambda>c. proper_name c \<and> CHR '':'' \<notin> set c) comps"

definition plain_name :: "string \<Rightarrow> string list \<Rightarrow> string \<Rightarrow> string \<Rightarrow> string" where
  "plain_name ns comps tag alg =
     join ''/'' (ns # comps @ [tag]) @ ''.'' @ to_lower alg"

lemma set_join: "set (join sep xs) \<subseteq> set sep \<union> \<Union> (set ` set xs)"
  by (induction sep xs rule: join.induct) auto

lemma join_contains: "x \<in> set xs \<Longrightarrow> set x \<subseteq> set (join sep xs)"
  by (induction sep xs rule: join.induct) auto

lemma image_of_no_colon:
  "image_parts_ok ns comps tag \<Longrightarrow> CHR '':'' \<notin> set (join ''/'' comps)"
  using set_join [of "''/''" comps] by (auto simp: image_parts_ok_def list_all_iff)

lemma split_image:
  assumes "image_parts_ok ns comps tag"
  shows "split (image_of comps tag) '':'' = [join ''/'' comps, tag]"
  using split_sep [of "'':''" "join ''/'' comps" tag] image_of_no_colon [OF assms] assms
  by (simp add: image_of_def image_parts_ok_def split_plain)

lemma join_proper_nonempty: "list_all proper_name cs \<Longrightarrow> cs \<noteq> [] \<Longrightarrow> join ''/'' cs \<noteq> []"
  by (rule join_eq_Nil_iff) (auto simp: list_all_iff proper_name_def)

lemma path_join_proper:
  assumes p: "list_all proper_name cs" and ne: "cs \<noteq> []"
  shows "path_clean (join ''/'' cs) = join ''/'' cs"
proof -
  have n: "normal_comps False cs"
    unfolding normal_comps_def using p by (intro exI [of _ 0] exI [of _ cs]) simp
  have j: "show_path False cs = join ''/'' cs" using ne by (simp add: show_path_def)
  have "path_comps (join ''/'' cs) = cs" and "\<not> is_rooted (join ''/'' cs)"
    using path_comps_show_path [OF n] is_rooted_show_path [OF n] j by simp_all
  then show ?thesis using ne j join_proper_nonempty [OF p ne] by (simp add: path_clean_def)
qed

lemma object_path:
  assumes "image_parts_ok ns comps tag"
  shows "path_join [ns, join ''/'' comps, tag] = join ''/'' (ns # comps @ [tag])"
proof -
  from assms have p: "list_all proper_name (ns # comps @ [tag])" and c: "comps \<noteq> []"
    and ns: "ns \<noteq> []" by (auto simp: image_parts_ok_def list_all_iff proper_name_def)
  have "join ''/'' [ns, join ''/'' comps, tag] = join ''/'' (ns # comps @ [tag])"
    using c by (simp add: join_Cons join_append)
  then show ?thesis using path_join_proper [OF p] ns by (simp add: path_join_def)
qed

lemma BuildObjectName_ok:
  "image_parts_ok ns comps tag \<Longrightarrow>
   BuildObjectName ns (image_of comps tag) alg = Ok (plain_name ns comps tag alg)"
  by (simp add: BuildObjectName_def split_image object_path plain_name_def)

lemma CheckSumFile_ok:
  assumes "image_parts_ok (cfg_pod_namespace cfg) comps tag"
    and "cfg_process_image cfg procName = Some (image_of comps tag)"
  shows "CheckSumFile cfg procName alg = Ok (plain_name (cfg_pod_namespace cfg) comps tag alg)"
  using assms split_image [OF assms(1)]
  by (simp add: CheckSumFile_def plain_name_def join_Cons join_append image_parts_ok_def)

text \<open>Different images get different names, if the algorithm's name has no dot or slash.\<close>

lemma first_occurrence_unique:
  "x @ c # a = y @ c # b \<Longrightarrow> c \<notin> set x \<Longrightarrow> c \<notin> set y \<Longrightarrow> x = y \<and> a = b"
proof (induction x arbitrary: y)
  case Nil
  then show ?case by (cases y) auto
next
  case (Cons d x)
  then show ?case by (cases y) auto
qed

lemma last_dot_unique:
  assumes "a @ c # x = b @ c # y" and "c \<notin> set x" and "c \<notin> set y"
  shows "a = b \<and> x = y"
proof -
  have "rev x @ c # rev a = rev y @ c # rev b"
    using arg_cong [OF assms(1), of rev] by simp
  with assms(2,3) show ?thesis
    using first_occurrence_unique [of "rev x" c "rev a" "rev y" "rev b"] by simp
qed

lemma plain_name_inject:
  assumes "image_parts_ok ns comps tag" and "image_parts_ok ns' comps' tag'"
    and "CHR ''.'' \<notin> set (to_lower alg)" and "CHR ''.'' \<notin> set (to_lower alg')"
    and "plain_name ns comps tag alg = plain_name ns' comps' tag' alg'"
  shows "ns = ns' \<and> comps = comps' \<and> tag = tag' \<and> to_lower alg = to_lower alg'"
proof -
  let ?xs = "ns # comps @ [tag]" and ?ys = "ns' # comps' @ [tag']"
  have j: "join ''/'' ?xs = join ''/'' ?ys \<and> to_lower alg = to_lower alg'"
    using assms(3,4,5) last_dot_unique unfolding plain_name_def by (metis append_Cons append_Nil)
  have "split (join ''/'' ?xs) ''/'' = ?xs" and "split (join ''/'' ?ys) ''/'' = ?ys"
    using assms(1,2)
    by (intro split_join; auto simp: image_parts_ok_def list_all_iff proper_name_def)+
  with j have "?xs = ?ys" by metis
  with j show ?thesis by simp
qed

subsection \<open>The contract between the writer and the reader\<close>

text \<open>
  \<open>written\<close> names the object the controller stores a baseline under, \<open>looked_up\<close> the
  object the monitor reads; a key is what an image stands for.
\<close>

locale shared_naming =
  fixes written :: "'k \<Rightarrow> string result"
    and looked_up :: "'k \<Rightarrow> string result"
    and ok :: "'k \<Rightarrow> bool"
    and same :: "'k \<Rightarrow> 'k \<Rightarrow> bool"
  assumes agree: "ok k \<Longrightarrow> \<exists>name. written k = Ok name \<and> looked_up k = Ok name"
    and distinguishes: "ok k \<Longrightarrow> ok k' \<Longrightarrow> written k = written k' \<Longrightarrow> same k k'"
begin

text \<open>What was stored for \<open>k\<close> last is what is looked_up for \<open>k\<close>; storing for another key does not matter.\<close>

lemma read_after_write:
  "ok k \<Longrightarrow> written k = Ok name \<Longrightarrow> looked_up k = Ok name' \<Longrightarrow> (store(name \<mapsto> d)) name' = Some d"
  using agree [of k] by auto

lemma read_after_other_write:
  assumes "ok k" "ok k'" "\<not> same k' k" "written k' = Ok name" "looked_up k = Ok name'"
  shows "(store(name \<mapsto> d)) name' = store name'"
  using agree [of k] agree [of k'] distinguishes [of k' k] assms by auto

end

text \<open>
  The images for which the contract holds, as a test on the string: exactly one colon, and proper
  names before and after it, so that there is neither a registry port nor a component \<open>..\<close>.
\<close>

definition plain_image :: "string \<Rightarrow> bool" where
  "plain_image img \<longleftrightarrow>
     (case split img '':'' of
        [name, tag] \<Rightarrow> list_all proper_name (split name ''/'') \<and> proper_name tag
      | _ \<Rightarrow> False)"

lemma plain_image_parts:
  assumes "plain_image img" and "proper_name ns"
  shows "\<exists>comps tag. img = image_of comps tag \<and> image_parts_ok ns comps tag"
proof -
  from assms(1) obtain name tag where s: "split img '':'' = [name, tag]"
    and p: "list_all proper_name (split name ''/'')" "proper_name tag"
    by (auto simp: plain_image_def split: list.splits)
  have c: "CHR '':'' \<notin> set name" "CHR '':'' \<notin> set tag"
    using split_char_pieces [of _ img "CHR '':''"] s by auto
  have "img = image_of (split name ''/'') tag"
    using join_split [of "'':''" img] s by (simp add: image_of_def join_split)
  moreover have "CHR '':'' \<notin> set x" if "x \<in> set (split name ''/'')" for x
  proof -
    have "set x \<subseteq> set name" using join_contains [OF that, of "''/''"] by (simp add: join_split)
    with c(1) show ?thesis by blast
  qed
  ultimately show ?thesis using p c(2) assms(2)
    by (intro exI [of _ "split name ''/''"] exI [of _ tag]) (simp add: image_parts_ok_def list_all_iff)
qed

text \<open>A key of the two functions: namespace, image, algorithm.\<close>

record image_key =
  ik_namespace :: string
  ik_image :: string
  ik_alg :: string

definition key_ok :: "image_key \<Rightarrow> bool" where
  "key_ok k \<longleftrightarrow> plain_image (ik_image k) \<and> proper_name (ik_namespace k) \<and> CHR ''.'' \<notin> set (to_lower (ik_alg k))"

definition same_key :: "image_key \<Rightarrow> image_key \<Rightarrow> bool" where
  "same_key k k' \<longleftrightarrow> ik_namespace k = ik_namespace k' \<and> ik_image k = ik_image k' \<and>
     to_lower (ik_alg k) = to_lower (ik_alg k')"

definition write_name :: "image_key \<Rightarrow> string result" where
  "write_name k = BuildObjectName (ik_namespace k) (ik_image k) (ik_alg k)"

text \<open>The reader's configuration maps the process to the image and names the pod's namespace.\<close>

definition read_name :: "config \<Rightarrow> string \<Rightarrow> image_key \<Rightarrow> string result" where
  "read_name cfg procName k =
     CheckSumFile (cfg\<lparr>cfg_pod_namespace := ik_namespace k,
                       cfg_process_image := (cfg_process_image cfg)(procName \<mapsto> ik_image k)\<rparr>)
       procName (ik_alg k)"

lemma key_parts:
  assumes "key_ok k"
  shows "\<exists>comps tag. ik_image k = image_of comps tag \<and> image_parts_ok (ik_namespace k) comps tag \<and>
    write_name k = Ok (plain_name (ik_namespace k) comps tag (ik_alg k)) \<and>
    read_name cfg procName k = Ok (plain_name (ik_namespace k) comps tag (ik_alg k))"
proof -
  from assms obtain comps tag where p: "ik_image k = image_of comps tag" "image_parts_ok (ik_namespace k) comps tag"
    using plain_image_parts unfolding key_ok_def by blast
  have "read_name cfg procName k = Ok (plain_name (ik_namespace k) comps tag (ik_alg k))"
    unfolding read_name_def by (subst CheckSumFile_ok [where comps = comps and tag = tag]) (use p in auto)
  with p show ?thesis by (auto simp: write_name_def BuildObjectName_ok)
qed

interpretation naming: shared_naming write_name "read_name cfg procName" key_ok same_key
  for cfg procName
proof unfold_locales
  fix k assume "key_ok k"
  then show "\<exists>name. write_name k = Ok name \<and> read_name cfg procName k = Ok name"
    using key_parts by blast
next
  fix k k' assume ok: "key_ok k" "key_ok k'" and "write_name k = write_name k'"
  then show "same_key k k'"
    using key_parts [OF ok(1)] key_parts [OF ok(2)] plain_name_inject
    unfolding same_key_def key_ok_def by (metis result.inject(1))
qed

lemma same_key_name:
  assumes "key_ok k" and "same_key k' k"
  shows "read_name cfg procName k = write_name k'"
proof -
  have "write_name k' = write_name k"
    using assms(2) by (simp add: write_name_def same_key_def BuildObjectName_def Let_def)
  then show ?thesis using naming.agree [OF assms(1), of cfg procName] by auto
qed

subsection \<open>Properties\<close>

text \<open>
  Property C18. For plain images, those of the form \<open>name:tag\<close> with one colon and proper names on both
  sides of it, controller and monitor mean the same object. Let two such images be given, in namespaces
  that are proper names and with algorithms without a dot in their names. Both functions return a name, and
  storing a baseline under the controller's name for the one changes what the monitor looks up for the
  other exactly if namespace and image are equal and the algorithms differ at most in case. Without these
  conditions it fails: with a registry port the tag is not part of the name
  (\<open>registry_port_hides_tag\<close>), and a component \<open>..\<close> leaves the namespace (\<open>Tenants\<close>).
\<close>

theorem baseline_of_image:
  assumes "plain_image img" and "plain_image img'" and "proper_name ns" and "proper_name ns'"
    and "CHR ''.'' \<notin> set (to_lower alg)" and "CHR ''.'' \<notin> set (to_lower alg')"
    and "cfg_pod_namespace cfg = ns" and "cfg_process_image cfg procName = Some img"
  shows "\<exists>name name'. BuildObjectName ns' img' alg' = Ok name \<and> CheckSumFile cfg procName alg = Ok name' \<and>
    (store(name \<mapsto> d)) name' =
      (if ns' = ns \<and> img' = img \<and> to_lower alg' = to_lower alg then Some d else store name')"
proof -
  let ?k = "\<lparr>ik_namespace = ns, ik_image = img, ik_alg = alg\<rparr>"
    and ?k' = "\<lparr>ik_namespace = ns', ik_image = img', ik_alg = alg'\<rparr>"
  have ok: "key_ok ?k" "key_ok ?k'" using assms(1-6) by (simp_all add: key_ok_def)
  have "(cfg_process_image cfg)(procName \<mapsto> img) = cfg_process_image cfg" using assms(8) by (simp add: fun_upd_idem)
  then have r: "read_name cfg procName ?k = CheckSumFile cfg procName alg"
    using assms(7) by (simp add: read_name_def CheckSumFile_def Let_def)
  obtain name name' where n: "write_name ?k' = Ok name" "read_name cfg procName ?k = Ok name'"
    using naming.agree [OF ok(1), of cfg procName] naming.agree [OF ok(2), of cfg procName] by blast
  have "(store(name \<mapsto> d)) name' = (if same_key ?k' ?k then Some d else store name')"
  proof (cases "same_key ?k' ?k")
    case True
    then show ?thesis using same_key_name [OF ok(1) True, of cfg procName] n by simp
  next
    case False
    then show ?thesis using naming.read_after_other_write [OF ok False n, of store d] by (simp only: if_False)
  qed
  with n r show ?thesis by (auto simp: same_key_def write_name_def)
qed

theorem baseline_of_image_witness:
  "\<exists>name name'. BuildObjectName ''ns'' ''a/b:v1'' ''md5'' = Ok name \<and> (Map.empty(name \<mapsto> ''new'')) name' = None \<and>
     CheckSumFile \<lparr>cfg_process_image = Map.empty(''p'' \<mapsto> ''a/b:v2''), cfg_pod_namespace = ''ns'',
        cfg_minio_bucket = [], cfg_algorithm = [], cfg_count_workers = 1\<rparr> ''p'' ''md5'' = Ok name'"
proof -
  let ?cfg = "\<lparr>cfg_process_image = Map.empty(''p'' \<mapsto> ''a/b:v2''), cfg_pod_namespace = ''ns'',
        cfg_minio_bucket = [], cfg_algorithm = [], cfg_count_workers = 1\<rparr>"
  have "plain_image ''a/b:v2''" "plain_image ''a/b:v1''" "proper_name ''ns''" "CHR ''.'' \<notin> set (to_lower ''md5'')"
    by code_simp+
  from baseline_of_image [OF this(1-3) this(3,4) this(4), of ?cfg "''p''" Map.empty "''new''"] show ?thesis
    by (auto split: if_splits)
qed

text \<open>
  An image with a registry port has two colons, and both functions take the text
  between them for the tag: images that differ only in their real tag share one object, so the
  baseline of one version is used for, and overwritten by, another.
\<close>

lemma registry_port_hides_tag:
  assumes "CHR '':'' \<notin> set host" and "CHR '':'' \<notin> set rest"
  shows "BuildObjectName ns (host @ '':'' @ rest @ '':'' @ tag) alg =
    BuildObjectName ns (host @ '':'' @ rest @ '':'' @ tag') alg \<and>
    CheckSumFile (cfg\<lparr>cfg_process_image := Map.empty(procName \<mapsto> host @ '':'' @ rest @ '':'' @ tag)\<rparr>) procName alg =
    CheckSumFile (cfg\<lparr>cfg_process_image := Map.empty(procName \<mapsto> host @ '':'' @ rest @ '':'' @ tag')\<rparr>) procName alg"
proof -
  have "split (host @ '':'' @ rest @ '':'' @ t) '':'' = host # rest # split t '':''" for t
    using assms split_char_append [of host "CHR '':''"] split_char_append [of rest "CHR '':''"]
    by (simp add: split_plain)
  then show ?thesis by (simp add: BuildObjectName_def CheckSumFile_def Let_def)
qed

text \<open>
  An image without a colon is an error of the monitor, which reports
  \<open>incorrect image name\<close>, and an index out of range in the controller, which panics.
\<close>

lemma image_without_tag:
  assumes "CHR '':'' \<notin> set img"
    and "cfg_process_image cfg procName = Some img \<or> cfg_process_image cfg procName = None"
  shows "BuildObjectName ns img alg = Panic ''index out of range'' \<and>
    CheckSumFile cfg procName alg = Fail (ErrNew ''incorrect image name'')"
  using assms by (auto simp: BuildObjectName_def CheckSumFile_def split_plain)

end
