(* ===== verification/Controller.thy ===== *)
theory Controller
  imports Minio_Storage Base64 Object_Name
begin

text \<open>
  The snapshot controller: snapshot-controller/controllers/snapshot_controller.go with the types
  of snapshot-controller/api/v1/snapshot_types.go. The Kubernetes client is a third-party
  package: its calls are the fields of \<open>kube\<close>, functions on the same world as the MinIO
  client's. The package's variables are the record \<open>ctrl_vars\<close>. A timeout of a call is one of
  the errors it can return.
\<close>

record snapshot =
  sn_Name :: string
  sn_Namespace :: string
  sn_Image :: string
  sn_Base64Hashes :: string
  sn_Algorithm :: string
  sn_IsUploaded :: bool
  sn_ControlHash :: string
  sn_Deleting :: bool \<comment> \<open>\<open>DeletionTimestamp\<close> is set\<close>
  sn_Finalizers :: "string list"

record request =
  rq_Namespace :: string
  rq_Name :: string

record 'w kube =
  kb_Get :: "request \<Rightarrow> 'w \<Rightarrow> 'w \<times> (go_error + snapshot)"
  kb_StatusUpdate :: "snapshot \<Rightarrow> 'w \<Rightarrow> 'w \<times> go_error option"
  kb_Update :: "snapshot \<Rightarrow> 'w \<Rightarrow> 'w \<times> go_error option"
  kb_GetSecret :: "request \<Rightarrow> 'w \<Rightarrow> 'w \<times> (go_error + string \<times> string)" \<comment> \<open>\<open>root-user\<close>, \<open>root-password\<close>\<close>
  kb_IsNotFound :: "go_error \<Rightarrow> bool"

record 'w ctrl_vars =
  cv_once :: bool
  cv_initialized :: bool
  cv_minio :: "'w minio_client minio_vars"

record 'w ctrl_env =
  ce_kube :: "'w kube"
  ce_minio_New :: "string \<times> string \<Rightarrow> string \<Rightarrow> go_error + 'w minio_client"
  ce_minio_host :: string
  ce_md5 :: "string \<Rightarrow> string"

definition finalizerName :: string where
  "finalizerName = ''controller.snapshot/finalizer''"

definition ErrNotInitialized :: go_error where
  "ErrNotInitialized = ErrNew ''minio client not initialized''"

definition md5hash :: "'w ctrl_env \<Rightarrow> string \<Rightarrow> string" where
  "md5hash env s = hex_encode (ce_md5 env s)"

definition RemoveFinalizer :: "snapshot \<Rightarrow> string \<Rightarrow> snapshot" where
  "RemoveFinalizer obj name = obj\<lparr>sn_Finalizers := filter (\<lambda>f. f \<noteq> name) (sn_Finalizers obj)\<rparr>"

text \<open>The storage, and the world after asking for it.\<close>

definition minIOStorage ::
    "'w ctrl_env \<Rightarrow> 'w ctrl_vars \<Rightarrow> 'w \<Rightarrow> 'w ctrl_vars \<times> 'w \<times> 'w minio_client option result" where
  "minIOStorage env g w =
     (let (g, w) =
        (if cv_once g then (g, w)
         else
           case kb_GetSecret (ce_kube env) \<lparr>rq_Namespace = ''minio'', rq_Name = ''minio''\<rparr> w of
             (w, Inl err) \<Rightarrow> (g\<lparr>cv_once := True\<rparr>, w)
           | (w, Inr keys) \<Rightarrow>
               (case NewStorage (ce_minio_New env keys) (ce_minio_host env) (cv_minio g) of
                  (m, ms, Some err) \<Rightarrow> (g\<lparr>cv_once := True, cv_minio := m\<rparr>, w)
                | (m, ms, None) \<Rightarrow> (g\<lparr>cv_once := True, cv_minio := m, cv_initialized := True\<rparr>, w)))
      in (g, w, if \<not> cv_initialized g then Fail ErrNotInitialized else Ok (minio_Instance (cv_minio g))))"

text \<open>A method of the storage called on the nil pointer reads its client field.\<close>

definition with_storage ::
    "'w minio_client option \<Rightarrow> ('w minio_client \<Rightarrow> 'w \<Rightarrow> 'w \<times> go_error option) \<Rightarrow> 'w \<Rightarrow> 'w \<times> unit result" where
  "with_storage ms f w =
     (case ms of
        None \<Rightarrow> (w, Panic ''nil pointer dereference'')
      | Some c \<Rightarrow> (case f c w of (w', Some err) \<Rightarrow> (w', Fail err) | (w', None) \<Rightarrow> (w', Ok ())))"

definition uploadSnapshot ::
    "'w minio_client option \<Rightarrow> snapshot \<Rightarrow> request \<Rightarrow> 'w \<Rightarrow> 'w \<times> unit result" where
  "uploadSnapshot ms obj req w =
     (case BuildObjectName (rq_Namespace req) (sn_Image obj) (sn_Algorithm obj) of
        Panic m \<Rightarrow> (w, Panic m)
      | Fail err \<Rightarrow> (w, Fail err)
      | Ok objectName \<Rightarrow>
          (case base64_DecodeString (sn_Base64Hashes obj) of
             Panic m \<Rightarrow> (w, Panic m)
           | Fail err \<Rightarrow> (w, Fail err)
           | Ok decodedHashes \<Rightarrow>
               with_storage ms (\<lambda>c. storage_Save c DefaultBucketName objectName decodedHashes) w))"

definition removeSnapshot ::
    "'w minio_client option \<Rightarrow> snapshot \<Rightarrow> 'w \<Rightarrow> 'w \<times> unit result" where
  "removeSnapshot ms obj w =
     (case BuildObjectName (sn_Namespace obj) (sn_Image obj) (sn_Algorithm obj) of
        Panic m \<Rightarrow> (w, Panic m)
      | Fail err \<Rightarrow> (w, Fail err)
      | Ok objName \<Rightarrow> with_storage ms (\<lambda>c. storage_Remove c DefaultBucketName objName) w)"

definition deleteSnapshot ::
    "'w ctrl_env \<Rightarrow> 'w minio_client option \<Rightarrow> snapshot \<Rightarrow> 'w \<Rightarrow> 'w \<times> unit result" where
  "deleteSnapshot env ms obj w =
     (case removeSnapshot ms obj w of
        (w', Panic m) \<Rightarrow> (w', Panic m)
      | (w', Fail err) \<Rightarrow> (w', Fail err)
      | (w', Ok u) \<Rightarrow>
          (case kb_Update (ce_kube env) (RemoveFinalizer obj finalizerName) w' of
             (w'', Some err) \<Rightarrow> (w'', Fail err)
           | (w'', None) \<Rightarrow> (w'', Ok ())))"

text \<open>
  \<open>Reconcile\<close> from the point where the storage is there. The result is the error; the
  controller never asks to be called again by itself.
\<close>

definition reconcile_with ::
    "'w ctrl_env \<Rightarrow> 'w minio_client option \<Rightarrow> request \<Rightarrow> 'w \<Rightarrow> 'w \<times> unit result" where
  "reconcile_with env ms req w =
     (case kb_Get (ce_kube env) req w of
        (w, Inl err) \<Rightarrow> (w, if kb_IsNotFound (ce_kube env) err then Ok () else Fail err)
      | (w, Inr obj) \<Rightarrow>
          if sn_Deleting obj then deleteSnapshot env ms obj w
          else
            let controlHash = md5hash env (sn_Base64Hashes obj) in
            if controlHash \<noteq> sn_ControlHash obj \<or> \<not> sn_IsUploaded obj then
              (case uploadSnapshot ms obj req w of
                 (w, Panic m) \<Rightarrow> (w, Panic m)
               | (w, Fail err) \<Rightarrow>
                   (fst (kb_StatusUpdate (ce_kube env) (obj\<lparr>sn_IsUploaded := False\<rparr>) w), Ok ())
               | (w, Ok u) \<Rightarrow>
                   (case kb_StatusUpdate (ce_kube env)
                           (obj\<lparr>sn_ControlHash := controlHash, sn_IsUploaded := True\<rparr>) w of
                      (w, Some err) \<Rightarrow> (w, Fail err)
                    | (w, None) \<Rightarrow> (w, Ok ())))
            else (w, Ok ()))"

definition Reconcile ::
    "'w ctrl_env \<Rightarrow> 'w ctrl_vars \<Rightarrow> request \<Rightarrow> 'w \<Rightarrow> 'w ctrl_vars \<times> 'w \<times> unit result" where
  "Reconcile env g req w =
     (case minIOStorage env g w of
        (g, w, Fail err) \<Rightarrow> (g, w, Fail err)
      | (g, w, Panic m) \<Rightarrow> (g, w, Panic m)
      | (g, w, Ok ms) \<Rightarrow> (g, reconcile_with env ms req w))"

subsection \<open>What the code relies on\<close>

text \<open>
  The world seen as the custom resources (\<open>sview\<close>) and the stored objects (\<open>oview\<close>). From the
  documentation of the two clients: each changes only its own part; a status update or an
  update that reports no error stores the resource, one that reports an error stores nothing;
  a resource that is being deleted disappears with its last finalizer.
\<close>

definition sn_key :: "snapshot \<Rightarrow> request" where
  "sn_key obj = \<lparr>rq_Namespace = sn_Namespace obj, rq_Name = sn_Name obj\<rparr>"

type_synonym 'w sview = "'w \<Rightarrow> request \<Rightarrow> snapshot option"
type_synonym 'w oview = "'w \<Rightarrow> string \<times> string \<Rightarrow> string option"

definition kube_ok :: "'w kube \<Rightarrow> 'w sview \<Rightarrow> 'w oview \<Rightarrow> bool" where
  "kube_ok kb sview oview \<longleftrightarrow>
     (\<forall>req w w' r. kb_Get kb req w = (w', r) \<longrightarrow> sview w' = sview w \<and> oview w' = oview w) \<and>
     (\<forall>req w w' obj. kb_Get kb req w = (w', Inr obj) \<longrightarrow> sview w req = Some obj \<and> sn_key obj = req) \<and>
     (\<forall>obj w w' e. kb_StatusUpdate kb obj w = (w', e) \<longrightarrow> oview w' = oview w \<and>
        sview w' = (if e = None then (sview w)(sn_key obj \<mapsto> obj) else sview w)) \<and>
     (\<forall>obj w w' e. kb_Update kb obj w = (w', e) \<longrightarrow> oview w' = oview w \<and>
        sview w' = (if e = None
          then (sview w)(sn_key obj := if sn_Deleting obj \<and> sn_Finalizers obj = [] then None else Some obj)
          else sview w))"

lemma kube_get: "kube_ok kb sview oview \<Longrightarrow> kb_Get kb req w = (w', r) \<Longrightarrow>
    sview w' = sview w \<and> oview w' = oview w"
  and kube_found: "kube_ok kb sview oview \<Longrightarrow> kb_Get kb req w = (w', Inr obj) \<Longrightarrow>
    sview w req = Some obj \<and> sn_key obj = req"
  and kube_status: "kube_ok kb sview oview \<Longrightarrow> kb_StatusUpdate kb obj w = (w', e) \<Longrightarrow>
    oview w' = oview w \<and> sview w' = (if e = None then (sview w)(sn_key obj \<mapsto> obj) else sview w)"
  and kube_update: "kube_ok kb sview oview \<Longrightarrow> kb_Update kb obj w = (w', e) \<Longrightarrow>
    oview w' = oview w \<and> sview w' = (if e = None
      then (sview w)(sn_key obj := if sn_Deleting obj \<and> sn_Finalizers obj = [] then None else Some obj)
      else sview w)"
  unfolding kube_ok_def by metis+

definition keeps_resources :: "'w minio_client \<Rightarrow> 'w sview \<Rightarrow> bool" where
  "keeps_resources c sview \<longleftrightarrow>
     (\<forall>b n d w w' e. PutObject c b n d w = (w', e) \<longrightarrow> sview w' = sview w) \<and>
     (\<forall>b n w w' e. RemoveObject c b n w = (w', e) \<longrightarrow> sview w' = sview w)"

lemma keeps_put: "keeps_resources c sview \<Longrightarrow> PutObject c b n d w = (w', e) \<Longrightarrow> sview w' = sview w"
  and keeps_rm: "keeps_resources c sview \<Longrightarrow> RemoveObject c b n w = (w', e) \<Longrightarrow> sview w' = sview w"
  unfolding keeps_resources_def by metis+

lemma keeps_save:
  assumes "keeps_resources c sview" and "storage_Save c b n d w = (w', e)"
  shows "sview w' = sview w"
proof -
  obtain v x where p: "PutObject c b n d w = (v, x)" by (rule prod.exhaust)
  then have "w' = v" using assms(2) by (cases x) (simp_all add: storage_Save_def)
  then show ?thesis using keeps_put [OF assms(1) p] by simp
qed

lemma keeps_remove:
  assumes "keeps_resources c sview" and "storage_Remove c b n w = (w', e)"
  shows "sview w' = sview w"
proof -
  obtain v x where p: "RemoveObject c b n w = (v, x)" by (rule prod.exhaust)
  then have "w' = v" using assms(2) by (cases x) (simp_all add: storage_Remove_def)
  then show ?thesis using keeps_rm [OF assms(1) p] by simp
qed

text \<open>A world on two maps, for the witnesses; the MinIO client is that of the storage's theory.\<close>

type_synonym maps = "(request \<Rightarrow> snapshot option) \<times> (string \<times> string \<Rightarrow> string option)"

definition maps_client :: "maps minio_client" where
  "maps_client = \<lparr>
     PutObject = \<lambda>b n d w. (case PutObject map_client b n d (snd w) of (o', e) \<Rightarrow> ((fst w, o'), e)),
     GetObject = \<lambda>b n w. (w, snd (GetObject map_client b n (snd w))),
     StatObject = \<lambda>b n w. (w, snd (StatObject map_client b n (snd w))),
     ReadObject = \<lambda>b n w. (w, snd (ReadObject map_client b n (snd w))),
     RemoveObject = \<lambda>b n w. (case RemoveObject map_client b n (snd w) of (o', e) \<Rightarrow> ((fst w, o'), e)),
     BucketExists = \<lambda>b w. (w, Inr True),
     MakeBucket = \<lambda>b w. (w, None), ListBuckets = \<lambda>w. (w, Inr [])\<rparr>"

definition maps_kube :: "maps kube" where
  "maps_kube = \<lparr>
     kb_Get = \<lambda>req w. (w, case fst w req of
        Some obj \<Rightarrow> if sn_key obj = req then Inr obj else Inl ErrNoSuchKey
      | None \<Rightarrow> Inl ErrNoSuchKey),
     kb_StatusUpdate = \<lambda>obj w. (((fst w)(sn_key obj \<mapsto> obj), snd w), None),
     kb_Update = \<lambda>obj w. (((fst w)(sn_key obj :=
        if sn_Deleting obj \<and> sn_Finalizers obj = [] then None else Some obj), snd w), None),
     kb_GetSecret = \<lambda>req w. (w, Inr (''user'', ''password'')),
     kb_IsNotFound = \<lambda>e. e = ErrNoSuchKey\<rparr>"

lemma maps_client_ok: "client_ok maps_client snd"
  by (auto simp: client_ok_def maps_client_def map_client_def split: option.splits if_splits)

lemma maps_keeps: "keeps_resources maps_client fst"
  by (auto simp: keeps_resources_def maps_client_def map_client_def split: if_splits)

lemma maps_kube_ok: "kube_ok maps_kube fst snd"
  by (auto simp: kube_ok_def maps_kube_def split: option.splits if_splits)

definition maps_env :: "maps ctrl_env" where
  "maps_env = \<lparr>ce_kube = maps_kube, ce_minio_New = \<lambda>keys host. Inr maps_client,
     ce_minio_host = ''minio:9000'', ce_md5 = \<lambda>s. take 2 s\<rparr>"

subsection \<open>Uploading and removing\<close>

text \<open>The object that belongs to a resource, in a request's namespace.\<close>

definition stored_for :: "'w oview \<Rightarrow> 'w \<Rightarrow> string \<Rightarrow> snapshot \<Rightarrow> bool" where
  "stored_for oview w ns obj \<longleftrightarrow>
     (\<exists>name data. BuildObjectName ns (sn_Image obj) (sn_Algorithm obj) = Ok name \<and>
        base64_DecodeString (sn_Base64Hashes obj) = Ok data \<and>
        oview w (DefaultBucketName, name) = Some data)"

lemma with_storage_Some:
  "with_storage (Some c) f w = (w', r) \<Longrightarrow>
   (case snd (f c w) of Some err \<Rightarrow> r = Fail err | None \<Rightarrow> r = Ok ()) \<and> f c w = (w', snd (f c w))"
  by (cases "f c w"; cases "snd (f c w)") (auto simp: with_storage_def)

lemma upload_effect:
  assumes c: "client_ok c oview" "keeps_resources c sview"
    and u: "uploadSnapshot (Some c) obj req w = (w', r)"
  shows "sview w' = sview w \<and> (r = Ok () \<longrightarrow> stored_for oview w' (rq_Namespace req) obj)"
proof (cases "BuildObjectName (rq_Namespace req) (sn_Image obj) (sn_Algorithm obj)")
  case name: (Ok objectName)
  show ?thesis
  proof (cases "base64_DecodeString (sn_Base64Hashes obj)")
    case data: (Ok data)
    let ?f = "\<lambda>c. storage_Save c DefaultBucketName objectName data"
    have "with_storage (Some c) ?f w = (w', r)" using u name data by (simp add: uploadSnapshot_def)
    note s = with_storage_Some [OF this]
    obtain e where e: "?f c w = (w', e)" "case e of Some err \<Rightarrow> r = Fail err | None \<Rightarrow> r = Ok ()"
      using s by blast
    have "oview w' (DefaultBucketName, objectName) = Some data" if "r = Ok ()"
    proof -
      have "?f c w = (w', None)" using e that by (cases e) auto
      from object_store.save_view [OF storage_is_store [OF c(1)] this] show ?thesis by simp
    qed
    with keeps_save [OF c(2) e(1)] name data show ?thesis by (auto simp: stored_for_def)
  qed (use u name in \<open>auto simp: uploadSnapshot_def\<close>)
qed (use u in \<open>auto simp: uploadSnapshot_def\<close>)

lemma remove_effect:
  assumes c: "client_ok c oview" "keeps_resources c sview"
    and u: "removeSnapshot (Some c) obj w = (w', r)"
  shows "sview w' = sview w \<and> (r = Ok () \<longrightarrow>
    (\<exists>name. BuildObjectName (sn_Namespace obj) (sn_Image obj) (sn_Algorithm obj) = Ok name \<and>
       oview w' (DefaultBucketName, name) = None))"
proof (cases "BuildObjectName (sn_Namespace obj) (sn_Image obj) (sn_Algorithm obj)")
  case name: (Ok objName)
  let ?f = "\<lambda>c. storage_Remove c DefaultBucketName objName"
  have "with_storage (Some c) ?f w = (w', r)" using u name by (simp add: removeSnapshot_def)
  note s = with_storage_Some [OF this]
  obtain e where e: "?f c w = (w', e)" "case e of Some err \<Rightarrow> r = Fail err | None \<Rightarrow> r = Ok ()"
    using s by blast
  have "oview w' (DefaultBucketName, objName) = None" if "r = Ok ()"
  proof -
    have "?f c w = (w', None)" using e that by (cases e) auto
    from object_store.remove_view [OF storage_is_store [OF c(1)] this] show ?thesis by simp
  qed
  with keeps_remove [OF c(2) e(1)] name show ?thesis by auto
qed (use u in \<open>auto simp: removeSnapshot_def\<close>)

subsection \<open>Properties\<close>

text \<open>
  The status of a snapshot resource tells the truth after a reconciliation that had
  something to upload: if the stored resource then says that the hashes with this control hash
  are uploaded, the object store holds exactly the decoded hashes under the name of the
  resource's image, and no error was returned.
\<close>

lemma reconcile_status_truthful:
  assumes "client_ok c oview" and "keeps_resources c sview" and "kube_ok (ce_kube env) sview oview"
    and "kb_Get (ce_kube env) req w = (w1, Inr obj)" and "\<not> sn_Deleting obj"
    and "md5hash env (sn_Base64Hashes obj) \<noteq> sn_ControlHash obj \<or> \<not> sn_IsUploaded obj"
    and "reconcile_with env (Some c) req w = (w', r)"
    and "sview w' req = Some obj'" and "sn_IsUploaded obj'"
    and "sn_ControlHash obj' = md5hash env (sn_Base64Hashes obj)"
  shows "stored_for oview w' (rq_Namespace req) obj \<and> r = Ok ()"
proof -
  obtain w2 r2 where up: "uploadSnapshot (Some c) obj req w1 = (w2, r2)" by (rule prod.exhaust)
  note eff = upload_effect [OF assms(1,2) up]
  have found: "sview w1 req = Some obj" "sn_key obj = req"
    using kube_found [OF assms(3,4)] kube_get [OF assms(3,4)] by simp_all
  have rec: "reconcile_with env (Some c) req w =
      (case r2 of
         Panic m \<Rightarrow> (w2, Panic m)
       | Fail err \<Rightarrow> (fst (kb_StatusUpdate (ce_kube env) (obj\<lparr>sn_IsUploaded := False\<rparr>) w2), Ok ())
       | Ok u \<Rightarrow> (case kb_StatusUpdate (ce_kube env)
             (obj\<lparr>sn_ControlHash := md5hash env (sn_Base64Hashes obj), sn_IsUploaded := True\<rparr>) w2 of
           (w, Some err) \<Rightarrow> (w, Fail err) | (w, None) \<Rightarrow> (w, Ok ())))"
    using assms(4-6) up by (cases r2) (simp_all add: reconcile_with_def Let_def)
  have old: False if "sview w' req = sview w2 req"
    using that assms(6,8-10) eff found by auto
  show ?thesis
  proof (cases r2)
    case (Panic m)
    with rec assms(7) old show ?thesis by simp
  next
    case (Fail err)
    obtain v e where st: "kb_StatusUpdate (ce_kube env) (obj\<lparr>sn_IsUploaded := False\<rparr>) w2 = (v, e)"
      by (rule prod.exhaust)
    have "w' = v" using rec assms(7) Fail st by simp
    with kube_status [OF assms(3) st] found old assms(8,9) show ?thesis
      by (cases e) (auto simp: sn_key_def)
  next
    case (Ok u)
    let ?new = "obj\<lparr>sn_ControlHash := md5hash env (sn_Base64Hashes obj), sn_IsUploaded := True\<rparr>"
    obtain v e where st: "kb_StatusUpdate (ce_kube env) ?new w2 = (v, e)" by (rule prod.exhaust)
    have w': "w' = v" "r = (case e of Some err \<Rightarrow> Fail err | None \<Rightarrow> Ok ())"
      using rec assms(7) Ok st by (auto split: option.splits)
    show ?thesis
    proof (cases e)
      case None
      then have "oview v = oview w2" using kube_status [OF assms(3) st] by simp
      with eff Ok w' None show ?thesis by (simp add: stored_for_def)
    next
      case (Some err)
      with kube_status [OF assms(3) st] old w' show ?thesis by simp
    qed
  qed
qed

text \<open>The effect of reconciling a resource that is being deleted.\<close>

lemma deletion_effect:
  assumes "client_ok c oview" and "keeps_resources c sview" and "kube_ok (ce_kube env) sview oview"
    and "kb_Get (ce_kube env) req w = (w1, Inr obj)" and "sn_Deleting obj"
    and "reconcile_with env (Some c) req w = (w', r)"
  shows "if r = Ok () then
      (\<exists>name. BuildObjectName (sn_Namespace obj) (sn_Image obj) (sn_Algorithm obj) = Ok name \<and>
         oview w' (DefaultBucketName, name) = None) \<and>
      sview w' = (sview w)(req := if filter (\<lambda>f. f \<noteq> finalizerName) (sn_Finalizers obj) = [] then None
        else Some (obj\<lparr>sn_Finalizers := filter (\<lambda>f. f \<noteq> finalizerName) (sn_Finalizers obj)\<rparr>))
    else sview w' = sview w"
proof -
  obtain w2 r2 where rm: "removeSnapshot (Some c) obj w1 = (w2, r2)" by (rule prod.exhaust)
  note eff = remove_effect [OF assms(1,2) rm]
  have found: "sview w1 = sview w" "sview w1 req = Some obj" "sn_key obj = req"
    using kube_found [OF assms(3,4)] kube_get [OF assms(3,4)] by simp_all
  have rec: "deleteSnapshot env (Some c) obj w1 = (w', r)"
    using assms(4-6) by (simp add: reconcile_with_def)
  show ?thesis
  proof (cases r2)
    case (Ok u)
    obtain v e where up: "kb_Update (ce_kube env) (RemoveFinalizer obj finalizerName) w2 = (v, e)"
      by (rule prod.exhaust)
    have w': "w' = v" "r = (case e of Some err \<Rightarrow> Fail err | None \<Rightarrow> Ok ())"
      using rec rm Ok up by (auto simp: deleteSnapshot_def split: option.splits)
    have key: "sn_key (RemoveFinalizer obj finalizerName) = req"
      using found by (simp add: RemoveFinalizer_def sn_key_def)
    show ?thesis
    proof (cases e)
      case None
      with kube_update [OF assms(3) up] eff Ok w' key found(1) assms(5) show ?thesis
        by (auto simp: RemoveFinalizer_def)
    next
      case (Some err)
      with kube_update [OF assms(3) up] eff w' found show ?thesis by simp
    qed
  qed (use rec rm eff found in \<open>auto simp: deleteSnapshot_def\<close>)
qed

text \<open>
  Property C19. A resource that is being deleted loses its finalizer only after its object is gone
  from the store: if the reconciliation returns without an error, the object is gone and the
  stored resource has been updated or has disappeared; if not, it is as it was; no other resource
  changes.
\<close>

theorem delete_removes_object_first:
  assumes "client_ok c oview" and "keeps_resources c sview" and "kube_ok (ce_kube env) sview oview"
    and "kb_Get (ce_kube env) req w = (w1, Inr obj)" and "sn_Deleting obj"
    and "reconcile_with env (Some c) req w = (w', r)"
  shows "if r = Ok () then
      (\<exists>name. BuildObjectName (sn_Namespace obj) (sn_Image obj) (sn_Algorithm obj) = Ok name \<and>
         oview w' (DefaultBucketName, name) = None) \<and>
      sview w' = (sview w)(req := if filter (\<lambda>f. f \<noteq> finalizerName) (sn_Finalizers obj) = [] then None
        else Some (obj\<lparr>sn_Finalizers := filter (\<lambda>f. f \<noteq> finalizerName) (sn_Finalizers obj)\<rparr>))
    else sview w' = sview w"
  using assms by (rule deletion_effect)

abbreviation demo_req :: request where
  "demo_req \<equiv> \<lparr>rq_Namespace = ''ns'', rq_Name = ''s''\<rparr>"

text \<open>A resource with the hashes \<open>a\<close>; the control hash of \<open>maps_env\<close> is that of two bytes.\<close>

definition demo_snap :: "string \<Rightarrow> bool \<Rightarrow> string \<Rightarrow> bool \<Rightarrow> snapshot" where
  "demo_snap img uploaded hash deleting = \<lparr>sn_Name = ''s'', sn_Namespace = ''ns'', sn_Image = img,
     sn_Base64Hashes = ''YQ=='', sn_Algorithm = ''SHA256'', sn_IsUploaded = uploaded,
     sn_ControlHash = hash, sn_Deleting = deleting, sn_Finalizers = [finalizerName]\<rparr>"

definition demo_world :: "snapshot \<Rightarrow> maps" where
  "demo_world obj = (Map.empty(demo_req \<mapsto> obj), Map.empty((DefaultBucketName, ''ns/im/1.sha256'') \<mapsto> ''a''))"

lemma demo_get:
  "kb_Get (ce_kube maps_env) demo_req (demo_world (demo_snap img u h d)) =
     (demo_world (demo_snap img u h d), Inr (demo_snap img u h d))"
  by (simp add: maps_env_def maps_kube_def demo_world_def demo_snap_def sn_key_def)

lemma demo_hash: "md5hash maps_env ''YQ=='' = ''5951''"
  by code_simp

lemma demo_upload:
  "fst (fst (reconcile_with maps_env (Some maps_client) demo_req
     (demo_world (demo_snap ''im:1'' False [] False)))) demo_req = Some (demo_snap ''im:1'' True ''5951'' False)"
  by code_simp

theorem delete_removes_object_first_witness:
  "snd (fst (reconcile_with maps_env (Some maps_client) demo_req
     (demo_world (demo_snap ''im:1'' True ''5951'' True)))) (DefaultBucketName, ''ns/im/1.sha256'') = None"
proof -
  have k: "kube_ok (ce_kube maps_env) fst snd" using maps_kube_ok by (simp add: maps_env_def)
  let ?r = "reconcile_with maps_env (Some maps_client) demo_req (demo_world (demo_snap ''im:1'' True ''5951'' True))"
  have r: "?r = (fst ?r, snd ?r)" by simp
  have "snd ?r = Ok ()" and n: "BuildObjectName ''ns'' ''im:1'' ''SHA256'' = Ok ''ns/im/1.sha256''"
    by code_simp+
  with delete_removes_object_first [OF maps_client_ok maps_keeps k demo_get _ r]
  show ?thesis by (simp add: demo_snap_def)
qed

text \<open>
  The storage is set up once: if the secret cannot be read at the first
  reconciliation, that and every later reconciliation of any resource returns the error and
  touches nothing, although the secret may be there by then.
\<close>

lemma missing_secret_is_permanent:
  assumes "kb_GetSecret (ce_kube env) \<lparr>rq_Namespace = ''minio'', rq_Name = ''minio''\<rparr> w = (w1, Inl err)"
    and "\<not> cv_once g" and "\<not> cv_initialized g"
  shows "\<exists>g1. Reconcile env g req w = (g1, w1, Fail ErrNotInitialized) \<and>
    (\<forall>env' req' w'. Reconcile env' g1 req' w' = (g1, w', Fail ErrNotInitialized))"
  using assms by (intro exI [of _ "g\<lparr>cv_once := True\<rparr>"]) (simp add: Reconcile_def minIOStorage_def)

end
