(* ===== verification/Controller_Settles.thy ===== *)
theory Controller_Settles
  imports Controller
begin

text \<open>
  What repeated reconciliations of one resource come to: they settle after one that could upload,
  and a failed upload is given up.
\<close>

text \<open>
  A settled resource stays as it is, and that is judged by its hashes alone: if the
  status says uploaded and the control hash is that of the hashes, a reconciliation changes
  neither the resources nor the objects and returns no error.
\<close>

lemma settled_by_hashes_alone:
  assumes "kube_ok (ce_kube env) sview oview"
    and "snd (kb_Get (ce_kube env) req w) = Inr obj"
    and "\<not> sn_Deleting obj" and "sn_IsUploaded obj"
    and "sn_ControlHash obj = md5hash env (sn_Base64Hashes obj)"
  shows "snd (reconcile_with env ms req w) = Ok () \<and> oview (fst (reconcile_with env ms req w)) = oview w \<and>
    sview (fst (reconcile_with env ms req w)) = sview w"
proof -
  obtain w1 where g: "kb_Get (ce_kube env) req w = (w1, Inr obj)" using assms(2) by (metis prod.collapse)
  with assms kube_get [OF assms(1) g] show ?thesis by (simp add: reconcile_with_def)
qed

lemma upload_succeeds:
  assumes "client_ok c oview" and "keeps_resources c sview"
    and "BuildObjectName (rq_Namespace req) (sn_Image obj) (sn_Algorithm obj) = Ok name"
    and "base64_DecodeString (sn_Base64Hashes obj) = Ok data"
    and "snd (PutObject c DefaultBucketName name data w) = None"
  shows "\<exists>w'. uploadSnapshot (Some c) obj req w = (w', Ok ()) \<and> sview w' = sview w \<and>
    oview w' = (oview w)((DefaultBucketName, name) \<mapsto> data)"
proof -
  obtain w' where p: "PutObject c DefaultBucketName name data w = (w', None)"
    using assms(5) by (metis prod.collapse)
  have u: "uploadSnapshot (Some c) obj req w = (w', Ok ())"
    by (simp add: uploadSnapshot_def assms(3,4) with_storage_def storage_Save_def p)
  have "storage_Save c DefaultBucketName name data w = (w', None)" by (simp add: storage_Save_def p)
  from object_store.save_view [OF storage_is_store [OF assms(1)] this]
  have "oview w' = (oview w)((DefaultBucketName, name) \<mapsto> data)" .
  with u keeps_put [OF assms(2) p] show ?thesis by blast
qed

text \<open>The reconciliation of a resource that has something to upload.\<close>

lemma reconcile_unsettled:
  assumes "kb_Get (ce_kube env) req w = (w1, Inr obj)" and "\<not> sn_Deleting obj"
    and "\<not> (sn_IsUploaded obj \<and> sn_ControlHash obj = md5hash env (sn_Base64Hashes obj))"
    and "uploadSnapshot ms obj req w1 = (w2, r)"
  shows "reconcile_with env ms req w =
    (case r of
       Panic m \<Rightarrow> (w2, Panic m)
     | Fail err \<Rightarrow> (fst (kb_StatusUpdate (ce_kube env) (obj\<lparr>sn_IsUploaded := False\<rparr>) w2), Ok ())
     | Ok u \<Rightarrow> (case kb_StatusUpdate (ce_kube env)
           (obj\<lparr>sn_ControlHash := md5hash env (sn_Base64Hashes obj), sn_IsUploaded := True\<rparr>) w2 of
         (w, Some err) \<Rightarrow> (w, Fail err) | (w, None) \<Rightarrow> (w, Ok ())))"
  using assms by (cases r) (auto simp: reconcile_with_def Let_def)

text \<open>A resource that could be uploaded is, and nothing else changes.\<close>

lemma reconcile_uploads:
  assumes "client_ok c oview" and "keeps_resources c sview" and "kube_ok (ce_kube env) sview oview"
    and get: "snd (kb_Get (ce_kube env) req w) = Inr obj"
    and "\<And>obj w. snd (kb_StatusUpdate (ce_kube env) obj w) = None"
    and "\<And>w. snd (PutObject c DefaultBucketName name data w) = None"
    and "\<not> sn_Deleting obj"
    and "\<not> (sn_IsUploaded obj \<and> sn_ControlHash obj = md5hash env (sn_Base64Hashes obj))"
    and "BuildObjectName (rq_Namespace req) (sn_Image obj) (sn_Algorithm obj) = Ok name"
    and "base64_DecodeString (sn_Base64Hashes obj) = Ok data"
  shows "\<exists>w'. reconcile_with env (Some c) req w = (w', Ok ()) \<and>
    sview w' = (sview w)(req \<mapsto>
      obj\<lparr>sn_ControlHash := md5hash env (sn_Base64Hashes obj), sn_IsUploaded := True\<rparr>) \<and>
    oview w' = (oview w)((DefaultBucketName, name) \<mapsto> data)"
proof -
  let ?settled = "obj\<lparr>sn_ControlHash := md5hash env (sn_Base64Hashes obj), sn_IsUploaded := True\<rparr>"
  obtain w1 where g: "kb_Get (ce_kube env) req w = (w1, Inr obj)"
    using get by (metis prod.collapse)
  note v1 = kube_get [OF assms(3) g] and found = kube_found [OF assms(3) g]
  from upload_succeeds [OF assms(1,2,9,10,6)] obtain w2 where
    u: "uploadSnapshot (Some c) obj req w1 = (w2, Ok ())" "sview w2 = sview w1"
      "oview w2 = (oview w1)((DefaultBucketName, name) \<mapsto> data)" by blast
  obtain w' where st: "kb_StatusUpdate (ce_kube env) ?settled w2 = (w', None)"
    using assms(5) by (metis prod.collapse)
  have "reconcile_with env (Some c) req w = (w', Ok ())"
    using reconcile_unsettled [OF g assms(7,8) u(1)] st by simp
  moreover have "sn_key ?settled = req" using found by (simp add: sn_key_def)
  ultimately show ?thesis using kube_status [OF assms(3) st] u v1 by simp
qed

text \<open>A settled resource is left alone by every number of reconciliations.\<close>

lemma settled_iterates:
  assumes "kube_ok (ce_kube env) sview oview"
    and get: "\<And>w obj. sview w req = Some obj \<Longrightarrow> sn_key obj = req \<Longrightarrow>
      snd (kb_Get (ce_kube env) req w) = Inr obj"
    and "sview w req = Some obj" and "sn_key obj = req" and "\<not> sn_Deleting obj" and "sn_IsUploaded obj"
    and "sn_ControlHash obj = md5hash env (sn_Base64Hashes obj)"
  shows "sview (((\<lambda>u. fst (reconcile_with env ms req u)) ^^ n) w) = sview w \<and>
    oview (((\<lambda>u. fst (reconcile_with env ms req u)) ^^ n) w) = oview w"
proof (induction n)
  case (Suc n)
  let ?u = "((\<lambda>u. fst (reconcile_with env ms req u)) ^^ n) w"
  have "snd (kb_Get (ce_kube env) req ?u) = Inr obj" using Suc assms(3,4) by (intro get) simp_all
  from settled_by_hashes_alone [OF assms(1) this assms(5-7), of ms] Suc show ?case by simp
qed simp

subsection \<open>Convergence\<close>

text \<open>
  Property C20. One reconciliation settles a resource: when the image's name and the hashes are
  valid, the store takes the object and the cluster takes the status, it returns no error,
  changes of the resources only this one's status, which then says uploaded, and of the objects
  only the one under the image's name, which then holds the decoded hashes. No number of further
  reconciliations changes anything. That is judged by the hashes alone: neither does one after
  the image or the algorithm was edited, whose object then is not written.
\<close>

theorem reconcile_converges:
  assumes "client_ok c oview" and "keeps_resources c sview" and "kube_ok (ce_kube env) sview oview"
    and get: "\<And>w obj. sview w req = Some obj \<Longrightarrow> sn_key obj = req \<Longrightarrow>
      snd (kb_Get (ce_kube env) req w) = Inr obj"
    and "\<And>obj w. snd (kb_StatusUpdate (ce_kube env) obj w) = None"
    and "\<And>w. snd (PutObject c DefaultBucketName name data w) = None"
    and "sview w req = Some obj" and key: "sn_key obj = req" and "\<not> sn_Deleting obj"
    and "\<not> (sn_IsUploaded obj \<and> sn_ControlHash obj = md5hash env (sn_Base64Hashes obj))"
    and "BuildObjectName (rq_Namespace req) (sn_Image obj) (sn_Algorithm obj) = Ok name"
    and "base64_DecodeString (sn_Base64Hashes obj) = Ok data"
    and settled: "settled = obj\<lparr>sn_ControlHash := md5hash env (sn_Base64Hashes obj), sn_IsUploaded := True\<rparr>"
  shows "\<exists>w'. reconcile_with env (Some c) req w = (w', Ok ()) \<and>
    sview w' = (sview w)(req \<mapsto> settled) \<and> oview w' = (oview w)((DefaultBucketName, name) \<mapsto> data) \<and>
    (\<forall>n. sview (((\<lambda>u. fst (reconcile_with env (Some c) req u)) ^^ n) w') = sview w' \<and>
         oview (((\<lambda>u. fst (reconcile_with env (Some c) req u)) ^^ n) w') = oview w') \<and>
    (\<forall>u img alg. sview u req = Some (settled\<lparr>sn_Image := img, sn_Algorithm := alg\<rparr>) \<longrightarrow>
       oview (fst (reconcile_with env (Some c) req u)) = oview u)"
proof -
  from reconcile_uploads [OF assms(1-3) get [OF assms(7) key] assms(5,6,9-12)] obtain w' where
    r: "reconcile_with env (Some c) req w = (w', Ok ())" and s': "sview w' = (sview w)(req \<mapsto> settled)"
    and o': "oview w' = (oview w)((DefaultBucketName, name) \<mapsto> data)" unfolding settled by blast
  have k: "sn_key settled = req" using key by (simp add: settled sn_key_def)
  have "oview (fst (reconcile_with env (Some c) req u)) = oview u"
    if "sview u req = Some (settled\<lparr>sn_Image := img, sn_Algorithm := alg\<rparr>)" for u img alg
    using settled_by_hashes_alone [OF assms(3) get [OF that], of "Some c"] assms(9) k
    by (simp add: settled sn_key_def)
  moreover have "sview (((\<lambda>u. fst (reconcile_with env (Some c) req u)) ^^ n) w') = sview w' \<and>
      oview (((\<lambda>u. fst (reconcile_with env (Some c) req u)) ^^ n) w') = oview w'" for n
    by (rule settled_iterates [where obj = settled, OF assms(3) get])
      (use s' k assms(9) in \<open>simp_all add: settled\<close>)
  ultimately show ?thesis using r s' o' by blast
qed

theorem reconcile_converges_witness:
  "\<exists>w'. reconcile_with maps_env (Some maps_client) demo_req (demo_world (demo_snap ''im:1'' False [] False)) =
      (w', Ok ()) \<and> snd w' (DefaultBucketName, ''ns/im/1.sha256'') = Some ''a''"
proof -
  let ?w = "demo_world (demo_snap ''im:1'' False [] False)"
  have k: "kube_ok (ce_kube maps_env) fst snd" using maps_kube_ok by (simp add: maps_env_def)
  have name: "BuildObjectName ''ns'' ''im:1'' ''SHA256'' = Ok ''ns/im/1.sha256''"
    and data: "base64_DecodeString ''YQ=='' = Ok ''a''" by code_simp+
  obtain w' where w': "reconcile_with maps_env (Some maps_client) demo_req ?w = (w', Ok ())"
    "snd w' = (snd ?w)((DefaultBucketName, ''ns/im/1.sha256'') \<mapsto> ''a'')"
    using reconcile_converges [where c = maps_client and oview = snd and sview = fst and env = maps_env
        and req = demo_req and w = ?w and obj = "demo_snap ''im:1'' False [] False"
        and name = "''ns/im/1.sha256''" and data = "''a''", OF maps_client_ok maps_keeps k _ _ _ _ _ _ _ _ _ refl]
      name data
    by (auto simp: demo_snap_def demo_world_def sn_key_def maps_env_def maps_kube_def maps_client_def map_client_def)
  then show ?thesis by (intro exI [of _ w']) simp
qed

subsection \<open>Failed uploads\<close>

lemma upload_fails:
  assumes "keeps_resources c sview"
    and "BuildObjectName (rq_Namespace req) (sn_Image obj) (sn_Algorithm obj) = Ok name"
    and "case base64_DecodeString (sn_Base64Hashes obj) of
        Ok data \<Rightarrow> snd (PutObject c DefaultBucketName name data w) \<noteq> None
      | Fail e \<Rightarrow> True
      | Panic m \<Rightarrow> False"
  shows "\<exists>w' err. uploadSnapshot (Some c) obj req w = (w', Fail err) \<and> sview w' = sview w \<and>
    ((\<nexists>data. base64_DecodeString (sn_Base64Hashes obj) = Ok data) \<longrightarrow> w' = w)"
proof (cases "base64_DecodeString (sn_Base64Hashes obj)")
  case (Ok data)
  obtain w' e where p: "PutObject c DefaultBucketName name data w = (w', e)" by (rule prod.exhaust)
  with Ok assms(3) obtain err where "e = Some err" by auto
  with keeps_put [OF assms(1) p] Ok p assms(2) show ?thesis
    by (simp add: uploadSnapshot_def with_storage_def storage_Save_def)
qed (use assms(2,3) in \<open>simp_all add: uploadSnapshot_def\<close>)

text \<open>
  Property C21. A failed upload is given up. When the hashes are not base64 or the store does not
  take the object, the reconciliation returns no error, so that the controller is not asked to
  try again; with hashes that are not base64 the store is not touched.
  The resource is as it was or says that it is not uploaded; if it said so before, as it does
  before its first upload, the cluster's resources do not change at all, so that no event
  starts another reconciliation either, whatever becomes of the store.
\<close>

theorem failed_upload_given_up:
  assumes "kube_ok (ce_kube env) sview oview" and "keeps_resources c sview"
    and "kb_Get (ce_kube env) req w = (w1, Inr obj)" and "\<not> sn_Deleting obj"
    and "\<not> (sn_IsUploaded obj \<and> sn_ControlHash obj = md5hash env (sn_Base64Hashes obj))"
    and "BuildObjectName (rq_Namespace req) (sn_Image obj) (sn_Algorithm obj) = Ok name"
    and "case base64_DecodeString (sn_Base64Hashes obj) of
        Ok data \<Rightarrow> snd (PutObject c DefaultBucketName name data w1) \<noteq> None
      | Fail e \<Rightarrow> True
      | Panic m \<Rightarrow> False"
    and "reconcile_with env (Some c) req w = (w', r)"
  shows "r = Ok () \<and>
    (\<exists>obj'. sview w' = (sview w)(req \<mapsto> obj') \<and> obj' \<in> {obj, obj\<lparr>sn_IsUploaded := False\<rparr>}) \<and>
    (\<not> sn_IsUploaded obj \<longrightarrow> sview w' = sview w) \<and>
    ((\<nexists>data. base64_DecodeString (sn_Base64Hashes obj) = Ok data) \<longrightarrow> oview w' = oview w)"
proof -
  note v1 = kube_get [OF assms(1,3)] and found = kube_found [OF assms(1,3)]
  from upload_fails [OF assms(2,6,7)] obtain w2 err where
    u: "uploadSnapshot (Some c) obj req w1 = (w2, Fail err)" "sview w2 = sview w1"
      "(\<nexists>data. base64_DecodeString (sn_Base64Hashes obj) = Ok data) \<longrightarrow> w2 = w1" by blast
  obtain v e where st: "kb_StatusUpdate (ce_kube env) (obj\<lparr>sn_IsUploaded := False\<rparr>) w2 = (v, e)"
    by (rule prod.exhaust)
  have "w' = v \<and> r = Ok ()"
    using reconcile_unsettled [OF assms(3-5) u(1)] assms(8) st by simp
  moreover have "sn_key (obj\<lparr>sn_IsUploaded := False\<rparr>) = req" using found by (simp add: sn_key_def)
  moreover have same: "(sview w)(req \<mapsto> obj) = sview w" using found by (simp add: map_upd_triv)
  ultimately have sv: "sview w' = (sview w)(req \<mapsto> (if e = None then obj\<lparr>sn_IsUploaded := False\<rparr> else obj))"
    and r: "r = Ok ()" and ov: "oview w' = oview w2"
    using kube_status [OF assms(1) st] u v1 by (simp_all split: if_splits)
  have "sview w' = sview w" if "\<not> sn_IsUploaded obj"
  proof -
    have "obj\<lparr>sn_IsUploaded := False\<rparr> = obj" using that by simp
    then show ?thesis by (simp only: sv same if_cancel)
  qed
  then have "\<not> sn_IsUploaded obj \<longrightarrow> sview w' = sview w" by blast
  moreover have "(\<nexists>data. base64_DecodeString (sn_Base64Hashes obj) = Ok data) \<longrightarrow> oview w' = oview w"
    using u(3) v1 ov by auto
  ultimately show ?thesis using sv r by (auto split: if_splits)
qed

theorem failed_upload_given_up_witness:
  "let obj = (demo_snap ''im:1'' False [] False)\<lparr>sn_Base64Hashes := ''no base64''\<rparr> in
   reconcile_with maps_env (Some maps_client) demo_req (demo_world obj) = (demo_world obj, Ok ())"
proof -
  let ?obj = "(demo_snap ''im:1'' False [] False)\<lparr>sn_Base64Hashes := ''no base64''\<rparr>"
  let ?r = "reconcile_with maps_env (Some maps_client) demo_req (demo_world ?obj)"
  have k: "kube_ok (ce_kube maps_env) fst snd" using maps_kube_ok by (simp add: maps_env_def)
  have g: "kb_Get (ce_kube maps_env) demo_req (demo_world ?obj) = (demo_world ?obj, Inr ?obj)"
    by (simp add: maps_env_def maps_kube_def demo_world_def demo_snap_def sn_key_def)
  have name: "BuildObjectName (rq_Namespace demo_req) (sn_Image ?obj) (sn_Algorithm ?obj) = Ok ''ns/im/1.sha256''"
    by code_simp
  obtain e where data: "base64_DecodeString ''no base64'' = Fail e"
  proof -
    have "(case base64_DecodeString ''no base64'' of Fail e \<Rightarrow> True | _ \<Rightarrow> False)" by code_simp
    then show ?thesis using that by (cases "base64_DecodeString ''no base64''") auto
  qed
  have r: "?r = (fst ?r, snd ?r)" by simp
  have "snd ?r = Ok () \<and> fst (fst ?r) = fst (demo_world ?obj) \<and> snd (fst ?r) = snd (demo_world ?obj)"
    using failed_upload_given_up [OF k maps_keeps g _ _ name _ r] data by (auto simp: demo_snap_def demo_world_def)
  then show ?thesis by (simp add: prod_eq_iff)
qed

end
