(* ===== verification/Walker.thy ===== *)
theory Walker
  imports Go_Errors Go_Path
begin

text \<open>
  The file walk: internal/walker/filewalker.go over \<open>filepath.WalkDir\<close>. A file tree is what
  \<open>Lstat\<close> and \<open>ReadDir\<close> report while the walk runs; a directory lists its entries in any
  order and the walk sorts them by name. The sends on the channel are the list of paths, in
  the order the callback makes them; what cancellation cuts off is in the theory Worker_Pool.
\<close>

datatype file_node =
    RegularFile
  | OtherFile \<comment> \<open>symbolic link, device, socket: not \<open>d.Type().IsRegular()\<close>\<close>
  | Directory "(string \<times> file_node) list"
  | BadDirectory go_error \<comment> \<open>a directory that \<open>ReadDir\<close> cannot list\<close>

lemma entry_size: "entry \<in> set entries \<Longrightarrow> size (snd entry) < size (Directory entries)"
proof -
  assume "entry \<in> set entries"
  then have "size (snd entry) \<le> size_list (size_prod (\<lambda>_. 0) size) entries"
    by (rule size_list_estimation') (simp add: size_prod_def split: prod.splits)
  then show ?thesis by simp
qed

text \<open>
  One callback after another: the files sent, and the error that ends the walk, which no
  further entry is visited after.
\<close>

fun walk_seq :: "(string list \<times> go_error option) list \<Rightarrow> string list \<times> go_error option" where
  "walk_seq [] = ([], None)"
| "walk_seq ((fs, Some e) # rs) = (fs, Some e)"
| "walk_seq ((fs, None) # rs) = (fs @ fst (walk_seq rs), snd (walk_seq rs))"

text \<open>
  \<open>walkDir path d fn\<close> with the callback of \<open>ChanWalkDir\<close>: an error it is given is returned,
  an entry that is not a regular file is passed over, a regular file is sent.
\<close>

function walk_dir :: "string \<Rightarrow> file_node \<Rightarrow> string list \<times> go_error option" where
  "walk_dir path RegularFile = ([path], None)"
| "walk_dir path OtherFile = ([], None)"
| "walk_dir path (BadDirectory e) = ([], Some e)"
| "walk_dir path (Directory entries) =
     walk_seq (map (\<lambda>entry. walk_dir (path_join [path, fst entry]) (snd entry))
       (sort_key fst entries))"
  by pat_completeness auto
termination
  by (relation "measure (\<lambda>(path, node). size node)") (auto dest!: entry_size)

text \<open>
  \<open>WalkDir root fn\<close>: a root that \<open>Lstat\<close> cannot read is reported to the callback, which
  returns the error.
\<close>

definition walk_root :: "(string \<Rightarrow> go_error + file_node) \<Rightarrow> string \<Rightarrow> string list \<times> go_error option" where
  "walk_root lstat root =
     (case lstat root of Inl e \<Rightarrow> ([], Some e) | Inr node \<Rightarrow> walk_dir root node)"

text \<open>
  \<open>ChanWalkDir ctx dirPaths log\<close>: the files sent for each directory path; an error of one
  path is logged and the next path is walked.
\<close>

definition chan_walk_dir :: "(string \<Rightarrow> go_error + file_node) \<Rightarrow> string list \<Rightarrow> string list list" where
  "chan_walk_dir lstat dirPaths = map (\<lambda>dirPath. fst (walk_root lstat dirPath)) dirPaths"

subsection \<open>What a walk finds\<close>

text \<open>
  The regular files of a tree, each as the list of names from the root. \<open>wf_node\<close>: names in a
  directory are distinct proper names, as a file system guarantees. \<open>readable\<close>: every
  directory can be listed.
\<close>

function files_under :: "file_node \<Rightarrow> string list list" where
  "files_under RegularFile = [[]]"
| "files_under OtherFile = []"
| "files_under (BadDirectory e) = []"
| "files_under (Directory entries) =
     concat (map (\<lambda>entry. map ((#) (fst entry)) (files_under (snd entry))) entries)"
  by pat_completeness auto
termination
  by (relation "measure size") (auto dest!: entry_size)

function wf_node :: "file_node \<Rightarrow> bool" where
  "wf_node RegularFile = True"
| "wf_node OtherFile = True"
| "wf_node (BadDirectory e) = True"
| "wf_node (Directory entries) =
     (distinct (map fst entries) \<and>
      list_all (\<lambda>entry. proper_name (fst entry) \<and> wf_node (snd entry)) entries)"
  by pat_completeness auto
termination
  by (relation "measure size") (auto dest!: entry_size)

function readable :: "file_node \<Rightarrow> bool" where
  "readable RegularFile = True"
| "readable OtherFile = True"
| "readable (BadDirectory e) = False"
| "readable (Directory entries) = list_all (\<lambda>entry. readable (snd entry)) entries"
  by pat_completeness auto
termination
  by (relation "measure size") (auto dest!: entry_size)

text \<open>The path of an entry: the root as given for the root itself, cleaned below it.\<close>

definition path_of :: "string \<Rightarrow> string list \<Rightarrow> string" where
  "path_of root names = (if names = [] then root else foldl child (path_clean root) names)"

lemma path_of_Nil [simp]: "path_of root [] = root"
  by (simp add: path_of_def)

lemma path_of_Cons:
  assumes "root \<noteq> []" and "proper_name n"
  shows "path_of root (n # names) = path_of (path_join [root, n]) names"
proof -
  have j: "path_join [root, n] = child (path_clean root) n"
    using assms by (rule path_join_child)
  then have "path_clean (path_join [root, n]) = path_join [root, n]"
    using path_clean_child [of "path_clean root" n] assms(2) path_clean_idem by simp
  with j show ?thesis by (simp add: path_of_def)
qed

lemma path_join_nonempty: "root \<noteq> [] \<Longrightarrow> proper_name n \<Longrightarrow> path_join [root, n] \<noteq> []"
  by (auto simp: path_join_child child_def proper_name_def)

text \<open>A walk without error visits all the parts, in order.\<close>

lemma walk_seq_ok:
  "list_all (\<lambda>r. snd r = None) rs \<Longrightarrow> walk_seq rs = (concat (map fst rs), None)"
  by (induction rs rule: walk_seq.induct) auto

lemma walk_dir_readable:
  "root \<noteq> [] \<Longrightarrow> wf_node node \<Longrightarrow> readable node \<Longrightarrow> snd (walk_dir root node) = None"
proof (induction root node rule: walk_dir.induct)
  case (4 path entries)
  then have "list_all (\<lambda>r. snd r = None)
      (map (\<lambda>entry. walk_dir (path_join [path, fst entry]) (snd entry)) (sort_key fst entries))"
    by (auto simp: list_all_iff path_join_nonempty)
  then show ?case by (simp add: walk_seq_ok)
qed auto

lemma walk_dir_mset:
  "root \<noteq> [] \<Longrightarrow> wf_node node \<Longrightarrow> readable node \<Longrightarrow>
   mset (fst (walk_dir root node)) = mset (map (path_of root) (files_under node))"
proof (induction root node rule: walk_dir.induct)
  case (4 path entries)
  let ?w = "\<lambda>entry. walk_dir (path_join [path, fst entry]) (snd entry)"
  have ok: "list_all (\<lambda>r. snd r = None) (map ?w (sort_key fst entries))"
    using 4(2,3,4) by (auto simp: list_all_iff path_join_nonempty walk_dir_readable)
  have part: "mset (fst (?w entry)) =
      mset (map (\<lambda>ns. path_of path (fst entry # ns)) (files_under (snd entry)))"
    if "entry \<in> set entries" for entry
  proof -
    from 4(3,4) that have e: "proper_name (fst entry)" "wf_node (snd entry)" "readable (snd entry)"
      by (auto simp: list_all_iff)
    with 4(1)[of entry] that have "mset (fst (?w entry)) =
        mset (map (path_of (path_join [path, fst entry])) (files_under (snd entry)))"
      using path_join_nonempty [OF 4(2) e(1)] by simp
    then show ?thesis using path_of_Cons [OF 4(2) e(1)] by (simp add: comp_def)
  qed
  have "mset (fst (walk_dir path (Directory entries))) =
      (\<Sum>entry\<in>#mset entries. mset (fst (?w entry)))"
    by (simp add: walk_seq_ok [OF ok] mset_concat comp_def flip: sum_mset_sum_list)
  also have "\<dots> = (\<Sum>entry\<in>#mset entries.
      mset (map (\<lambda>ns. path_of path (fst entry # ns)) (files_under (snd entry))))"
    using part by (intro arg_cong [where f = sum_mset] image_mset_cong) auto
  also have "\<dots> = mset (map (path_of path) (files_under (Directory entries)))"
    by (simp add: mset_concat map_concat comp_def flip: sum_mset_sum_list)
  finally show ?case .
qed auto

text \<open>An unreadable directory ends the walk: nothing is sent that is not a regular file of the tree.\<close>

lemma walk_seq_error: "snd (walk_seq rs) = None \<longleftrightarrow> list_all (\<lambda>r. snd r = None) rs"
  by (induction rs rule: walk_seq.induct) auto

lemma walk_dir_error_iff:
  "root \<noteq> [] \<Longrightarrow> wf_node node \<Longrightarrow> snd (walk_dir root node) = None \<longleftrightarrow> readable node"
proof (induction root node rule: walk_dir.induct)
  case (4 path entries)
  then show ?case by (auto simp: walk_seq_error list_all_iff path_join_nonempty)
qed auto

lemma walk_seq_subset: "mset (fst (walk_seq rs)) \<subseteq># mset (concat (map fst rs))"
proof (induction rs rule: walk_seq.induct)
  case (2 fs e rs)
  then show ?case by simp
next
  case (3 fs rs)
  then show ?case by simp
qed simp

lemma walk_dir_subset:
  "root \<noteq> [] \<Longrightarrow> wf_node node \<Longrightarrow>
   mset (fst (walk_dir root node)) \<subseteq># mset (map (path_of root) (files_under node))"
proof (induction root node rule: walk_dir.induct)
  case (4 path entries)
  let ?w = "\<lambda>entry. walk_dir (path_join [path, fst entry]) (snd entry)"
  let ?f = "\<lambda>entry. map (\<lambda>ns. path_of path (fst entry # ns)) (files_under (snd entry))"
  have part: "mset (fst (?w entry)) \<subseteq># mset (?f entry)" if "entry \<in># mset entries" for entry
  proof -
    from 4(3) that have e: "proper_name (fst entry)" "wf_node (snd entry)"
      by (auto simp: list_all_iff)
    with 4(1)[of entry] that have "mset (fst (?w entry)) \<subseteq>#
        mset (map (path_of (path_join [path, fst entry])) (files_under (snd entry)))"
      using path_join_nonempty [OF 4(2) e(1)] by simp
    then show ?thesis using path_of_Cons [OF 4(2) e(1)] by (simp add: comp_def)
  qed
  have "mset (fst (walk_dir path (Directory entries))) \<subseteq>#
      mset (concat (map fst (map ?w (sort_key fst entries))))"
    by (simp only: walk_dir.simps) (rule walk_seq_subset)
  also have "\<dots> = (\<Sum>entry\<in>#mset entries. mset (fst (?w entry)))"
    by (simp add: mset_concat comp_def flip: sum_mset_sum_list)
  also have "\<dots> \<subseteq># (\<Sum>entry\<in>#mset entries. mset (?f entry))"
    using part by (rule sum_mset_mono_mset)
  also have "\<dots> = mset (map (path_of path) (files_under (Directory entries)))"
    by (simp add: mset_concat map_concat comp_def flip: sum_mset_sum_list)
  finally show ?case .
qed auto

subsection \<open>No file is found twice\<close>

lemma files_under_proper:
  "wf_node node \<Longrightarrow> ns \<in> set (files_under node) \<Longrightarrow> list_all proper_name ns"
proof (induction node arbitrary: ns rule: files_under.induct)
  case (4 entries)
  then show ?case by (fastforce simp: list_all_iff)
qed auto

lemma distinct_files_under: "wf_node node \<Longrightarrow> distinct (files_under node)"
proof (induction node rule: files_under.induct)
  case (4 entries)
  then have d: "distinct (map fst entries)"
    and ds: "\<And>entry. entry \<in> set entries \<Longrightarrow> distinct (files_under (snd entry))"
    by (auto simp: list_all_iff)
  from d ds show ?case
  proof (induction entries)
    case (Cons e es)
    have "fst e = fst e'" if "e' \<in> set es" "fst e # ms = fst e' # ns" for e' ms ns
      using that by simp
    moreover have "fst e \<notin> fst ` set es" using Cons.prems(1) by simp
    ultimately have "set (map ((#) (fst e)) (files_under (snd e))) \<inter>
        set (concat (map (\<lambda>x. map ((#) (fst x)) (files_under (snd x))) es)) = {}"
      by auto
    with Cons show ?case by (simp add: distinct_map)
  qed simp
qed auto

lemma foldl_child_show:
  "normal_comps r cs \<Longrightarrow> list_all proper_name ns \<Longrightarrow>
   foldl child (show_path r cs) ns = show_path r (cs @ ns)"
proof (induction ns arbitrary: cs)
  case (Cons n ns)
  then have "normal_comps r (cs @ [n])" by (simp add: normal_comps_snoc_proper)
  with Cons.prems Cons.IH [of "cs @ [n]"] show ?case using show_path_snoc [of r cs n] by simp
qed simp

lemma path_of_show:
  assumes "root \<noteq> []" and "ns \<noteq> []" and "list_all proper_name ns"
  shows "path_of root ns = show_path (is_rooted root) (path_comps root @ ns)"
  using assms foldl_child_show [OF normal_path_comps]
  by (simp add: path_of_def path_clean_def)

lemma normal_comps_append:
  "normal_comps r cs \<Longrightarrow> list_all proper_name ns \<Longrightarrow> normal_comps r (cs @ ns)"
proof -
  assume "normal_comps r cs" and ns: "list_all proper_name ns"
  then obtain k ys where "cs = replicate k ''..'' @ ys" "list_all proper_name ys" "r \<longrightarrow> k = 0"
    by (auto simp: normal_comps_def)
  with ns show ?thesis
    unfolding normal_comps_def by (intro exI [of _ k] exI [of _ "ys @ ns"]) simp
qed

lemma path_of_inject:
  assumes "root \<noteq> []" and "ms \<noteq> []" and "ns \<noteq> []"
    and "list_all proper_name ms" and "list_all proper_name ns"
  shows "path_of root ms = path_of root ns \<longleftrightarrow> ms = ns"
proof
  assume "path_of root ms = path_of root ns"
  then have "path_comps (show_path (is_rooted root) (path_comps root @ ms)) =
      path_comps (show_path (is_rooted root) (path_comps root @ ns))"
    using assms by (simp add: path_of_show)
  then show "ms = ns"
    using assms normal_comps_append [OF normal_path_comps] by (simp add: path_comps_show_path)
qed simp

lemma files_under_Directory_nonempty: "ns \<in> set (files_under (Directory es)) \<Longrightarrow> ns \<noteq> []"
  by auto

lemma distinct_walk_dir:
  assumes "root \<noteq> []" and "wf_node node"
  shows "distinct (fst (walk_dir root node))"
proof -
  have "inj_on (path_of root) (set (files_under node))"
  proof (cases node)
    case (Directory es)
    show ?thesis
      unfolding inj_on_def using assms path_of_inject files_under_proper
        files_under_Directory_nonempty Directory by blast
  qed auto
  then have "distinct (map (path_of root) (files_under node))"
    using distinct_files_under [OF assms(2)] by (simp add: distinct_map)
  then show ?thesis
    by (rule distinct_mset_subset [OF walk_dir_subset [OF assms]])
qed

subsection \<open>Paths relative to a file system's root\<close>

text \<open>
  The components of a monitored directory as configured, and the path below the root by which
  both the snapshot tool and the monitor mean a file: no leading slash, single slashes.
\<close>

definition dir_comps :: "string \<Rightarrow> string list" where
  "dir_comps dir = filter (\<lambda>c. c \<noteq> []) (split dir ''/'')"

definition plain_dir :: "string \<Rightarrow> bool" where
  "plain_dir dir \<longleftrightarrow> list_all proper_name (dir_comps dir)"

definition rel_path :: "string \<Rightarrow> string list \<Rightarrow> string" where
  "rel_path dir names = join ''/'' (dir_comps dir @ names)"

text \<open>A root as the walk prints it: clean, and not \<open>.\<close> or \<open>/\<close>.\<close>

definition clean_root :: "string \<Rightarrow> bool" where
  "clean_root root \<longleftrightarrow> root \<noteq> [] \<and> path_clean root = root \<and> path_comps root \<noteq> []"

lemma clean_comps_filter:
  "list_all proper_name (filter (\<lambda>c. c \<noteq> []) cs) \<Longrightarrow>
   clean_comps r st cs = rev st @ filter (\<lambda>c. c \<noteq> []) cs"
  by (induction r st cs rule: clean_comps.induct) (auto simp: proper_name_def)

lemma path_comps_below:
  assumes "root \<noteq> []" and "plain_dir dir"
  shows "path_comps (root @ ''/'' @ dir) = path_comps root @ dir_comps dir"
proof -
  have "split (root @ ''/'' @ dir) ''/'' = split root ''/'' @ split dir ''/''"
    using split_char_append [of root "CHR ''/''" dir] by simp
  moreover have "is_rooted (root @ ''/'' @ dir) = is_rooted root"
    using assms(1) by (simp add: is_rooted_def)
  ultimately show ?thesis
    using clean_comps_filter [of "split dir ''/''"] assms(2)
    by (simp add: path_comps_def clean_comps_append plain_dir_def dir_comps_def)
qed

lemma path_of_below:
  assumes "clean_root root" and "plain_dir dir" and "names \<noteq> []" and "list_all proper_name names"
  shows "path_of (root @ ''/'' @ dir) names = root @ ''/'' @ rel_path dir names"
proof -
  have r: "root \<noteq> []" "path_clean root = root" "path_comps root \<noteq> []"
    using assms(1) by (auto simp: clean_root_def)
  have "path_of (root @ ''/'' @ dir) names =
      show_path (is_rooted root) (path_comps root @ dir_comps dir @ names)"
    using path_of_show [of "root @ ''/'' @ dir" names] assms r
    by (simp add: path_comps_below [OF r(1) assms(2), simplified] is_rooted_def)
  also have "\<dots> = show_path (is_rooted root) (path_comps root) @ ''/'' @ rel_path dir names"
    using r(3) assms(3) by (simp add: show_path_def rel_path_def join_append)
  also have "show_path (is_rooted root) (path_comps root) = root"
    using r by (simp add: path_clean_def)
  finally show ?thesis .
qed

lemma strip_below:
  assumes "clean_root root" and "plain_dir dir" and "names \<noteq> []" and "list_all proper_name names"
  shows "trim_prefix (path_of (root @ ''/'' @ dir) names) (root @ ''/'') = rel_path dir names"
  using path_of_below [OF assms] trim_prefix_append [of "root @ ''/''" "rel_path dir names"]
  by simp

lemma clean_root_show:
  assumes "list_all proper_name cs" and "cs \<noteq> []"
  shows "clean_root (show_path True cs)"
proof -
  have n: "normal_comps True cs"
    unfolding normal_comps_def using assms(1) by (intro exI [of _ 0] exI [of _ cs]) simp
  have "path_clean (show_path True cs) = show_path True cs"
    using show_path_nonempty [OF n] is_rooted_show_path [OF n] path_comps_show_path [OF n]
    by (simp add: path_clean_def)
  with assms(2) show ?thesis
    using show_path_nonempty [OF n] path_comps_show_path [OF n] by (simp add: clean_root_def)
qed

lemma proper_nat_str: "proper_name (nat_str n)"
proof -
  have "is_digit c" if "c \<in> set (nat_str n)" for c using that by (rule nat_str_digits)
  moreover have "\<not> is_digit (CHR ''.'')" "\<not> is_digit (CHR ''/'')"
    by (simp_all add: is_digit_def digit_val_def)
  moreover have "nat_str n \<noteq> []" by simp
  ultimately show ?thesis
    unfolding proper_name_def by (metis list.set_intros(1))
qed

text \<open>The root of a process's mount namespace.\<close>

definition proc_root :: "nat \<Rightarrow> string" where
  "proc_root pid = ''/proc/'' @ nat_str pid @ ''/root''"

lemma clean_proc_root: "clean_root (proc_root pid)"
proof -
  have "proper_name ''proc''" "proper_name ''root''" by (simp_all add: proper_name_def)
  then have "clean_root (show_path True [''proc'', nat_str pid, ''root''])"
    using proper_nat_str by (intro clean_root_show) auto
  then show ?thesis by (simp add: show_path_def proc_root_def)
qed

subsection \<open>Properties\<close>

text \<open>A small tree for the witnesses.\<close>

abbreviation demo_dir :: file_node where
  "demo_dir \<equiv> Directory [(''b'', RegularFile), (''a'', Directory [(''x'', RegularFile)])]"

text \<open>
  Property C15. If every directory of a tree can be listed, the walk of its root ends without an
  error and sends every regular file below it exactly once, under the path made of the cleaned
  root and the file's names, and nothing else.
\<close>

theorem walk_finds_every_file:
  assumes "lstat root = Inr node" and "root \<noteq> []" and "wf_node node" and "readable node"
  shows "snd (walk_root lstat root) = None \<and> distinct (fst (walk_root lstat root)) \<and>
    mset (fst (walk_root lstat root)) = mset (map (path_of root) (files_under node))"
  using assms by (simp add: walk_root_def walk_dir_readable walk_dir_mset distinct_walk_dir)

theorem walk_finds_every_file_witness:
  "mset (fst (walk_root (\<lambda>_. Inr demo_dir) ''/r//'')) = {#''/r/a/x'', ''/r/b''#}"
proof -
  have "map (path_of ''/r//'') (files_under demo_dir) = [''/r/b'', ''/r/a/x'']" by code_simp
  with walk_finds_every_file [of "\<lambda>_. Inr demo_dir" "''/r//''" demo_dir] show ?thesis
    by (simp add: proper_name_def del: walk_dir.simps)
qed

text \<open>
  A directory that cannot be listed ends the walk of its root with an error, and a
  walk that ends with an error may have left out any file that comes later: what is sent is
  part of the tree, none twice, but nothing says it is all of it. The error of one root does
  not keep the other roots from being walked.
\<close>

lemma walk_error_iff_unreadable:
  assumes "lstat root = Inr node" and "root \<noteq> []" and "wf_node node"
  shows "(snd (walk_root lstat root) = None) = readable node \<and>
    mset (fst (walk_root lstat root)) \<subseteq># mset (map (path_of root) (files_under node)) \<and>
    chan_walk_dir lstat (root # roots) = fst (walk_root lstat root) # chan_walk_dir lstat roots"
  using assms walk_dir_subset [of root node]
  by (simp add: walk_root_def walk_dir_error_iff chan_walk_dir_def)

end
