(* ===== verification/Worker_Pool.thy ===== *)
theory Worker_Pool
  imports Go_Errors Walker
begin

text \<open>
  The hashing pipeline: internal/worker/workers.go together with the sender of
  internal/walker/filewalker.go, as one step relation. The walker sends file names on an
  unbuffered channel, so a send is one step with the receive of a worker; the workers send
  on \<open>hashC\<close>, whose buffer has room for as many hashes as there are workers; the consumer
  receives. The context can be cancelled at any time.

  \<open>hash\<close> is the \<open>HashFile\<close> of the workers' hashers: each has its own hasher, and the theory
  Hasher shows that the result does not depend on what it hashed before.
\<close>

record file_hash =
  fh_Path :: string
  fh_Hash :: string

datatype worker =
    Receiving \<comment> \<open>at \<open>range fileNameC\<close>\<close>
  | Got string \<comment> \<open>a name received, before the test of \<open>ctx.Done\<close>\<close>
  | Sending file_hash \<comment> \<open>at \<open>hashC <- FileHash{...}\<close>\<close>
  | Exited \<comment> \<open>returned, \<open>wg.Done\<close> called\<close>

record pool =
  p_names :: "string list list" \<comment> \<open>what the walker has still to send, by directory path\<close>
  p_names_closed :: bool
  p_workers :: "worker list"
  p_buf :: "file_hash list" \<comment> \<open>the buffer of \<open>hashC\<close>\<close>
  p_hash_closed :: bool
  p_received :: "file_hash list" \<comment> \<open>what the consumer has received, in order\<close>
  p_cancelled :: bool

text \<open>
  \<open>WorkersPool countWorkers (ChanWalkDir ...) (NewWorker ...)\<close>: \<open>make(chan FileHash, n)\<close>
  panics for a negative size.
\<close>

definition WorkersPool :: "int \<Rightarrow> string list list \<Rightarrow> pool result" where
  "WorkersPool countWorkers names =
     (if countWorkers < 0 then Panic ''makechan: size out of range''
      else Ok \<lparr>p_names = names, p_names_closed = False,
               p_workers = replicate (nat countWorkers) Receiving,
               p_buf = [], p_hash_closed = False, p_received = [], p_cancelled = False\<rparr>)"

inductive pool_step :: "(string \<Rightarrow> go_error + string) \<Rightarrow> pool \<Rightarrow> pool \<Rightarrow> bool"
  for hash :: "string \<Rightarrow> go_error + string" where
  send_name: "p_names s = (f # fs) # rs \<Longrightarrow> i < length (p_workers s) \<Longrightarrow>
    p_workers s ! i = Receiving \<Longrightarrow>
    pool_step hash s (s\<lparr>p_names := fs # rs, p_workers := (p_workers s)[i := Got f]\<rparr>)"
| next_root: "p_names s = [] # rs \<Longrightarrow> pool_step hash s (s\<lparr>p_names := rs\<rparr>)"
| drop_root: "p_names s = (f # fs) # rs \<Longrightarrow> p_cancelled s \<Longrightarrow>
    pool_step hash s (s\<lparr>p_names := rs\<rparr>)"
| close_names: "p_names s = [] \<Longrightarrow> \<not> p_names_closed s \<Longrightarrow>
    pool_step hash s (s\<lparr>p_names_closed := True\<rparr>)"
| worker_done: "i < length (p_workers s) \<Longrightarrow> p_workers s ! i = Got f \<Longrightarrow> p_cancelled s \<Longrightarrow>
    pool_step hash s (s\<lparr>p_workers := (p_workers s)[i := Exited]\<rparr>)"
| worker_hash: "i < length (p_workers s) \<Longrightarrow> p_workers s ! i = Got f \<Longrightarrow> \<not> p_cancelled s \<Longrightarrow>
    hash f = Inr h \<Longrightarrow>
    pool_step hash s
      (s\<lparr>p_workers := (p_workers s)[i := Sending \<lparr>fh_Path = f, fh_Hash = h\<rparr>]\<rparr>)"
| worker_skip: "i < length (p_workers s) \<Longrightarrow> p_workers s ! i = Got f \<Longrightarrow> \<not> p_cancelled s \<Longrightarrow>
    hash f = Inl e \<Longrightarrow>
    pool_step hash s (s\<lparr>p_workers := (p_workers s)[i := Receiving]\<rparr>)"
| send_hash: "i < length (p_workers s) \<Longrightarrow> p_workers s ! i = Sending x \<Longrightarrow>
    length (p_buf s) < length (p_workers s) \<Longrightarrow>
    pool_step hash s
      (s\<lparr>p_workers := (p_workers s)[i := Receiving], p_buf := p_buf s @ [x]\<rparr>)"
| worker_exit: "i < length (p_workers s) \<Longrightarrow> p_workers s ! i = Receiving \<Longrightarrow>
    p_names_closed s \<Longrightarrow>
    pool_step hash s (s\<lparr>p_workers := (p_workers s)[i := Exited]\<rparr>)"
| close_hash: "list_all (\<lambda>w. w = Exited) (p_workers s) \<Longrightarrow> \<not> p_hash_closed s \<Longrightarrow>
    pool_step hash s (s\<lparr>p_hash_closed := True\<rparr>)"
| receive: "p_buf s = x # xs \<Longrightarrow>
    pool_step hash s (s\<lparr>p_buf := xs, p_received := p_received s @ [x]\<rparr>)"

text \<open>The pipeline in an environment that can cancel the context.\<close>

inductive pool_env_step :: "(string \<Rightarrow> go_error + string) \<Rightarrow> pool \<Rightarrow> pool \<Rightarrow> bool"
  for hash :: "string \<Rightarrow> go_error + string" where
  env_step: "pool_step hash s t \<Longrightarrow> pool_env_step hash s t"
| env_cancel: "pool_env_step hash s (s\<lparr>p_cancelled := True\<rparr>)"

inductive_cases pool_env_stepE: "pool_env_step hash s t"

text \<open>
  The sequential result the pipeline implements: the files in order, those that cannot be
  hashed left out.
\<close>

definition hash_one :: "(string \<Rightarrow> go_error + string) \<Rightarrow> string \<Rightarrow> file_hash option" where
  "hash_one hash f =
     (case hash f of Inl e \<Rightarrow> None | Inr h \<Rightarrow> Some \<lparr>fh_Path = f, fh_Hash = h\<rparr>)"

definition hash_files :: "(string \<Rightarrow> go_error + string) \<Rightarrow> string list \<Rightarrow> file_hash list" where
  "hash_files hash fs = List.map_filter (hash_one hash) fs"

lemma hash_files_simps [simp]:
  "hash_files hash [] = []"
  "hash_files hash (f # fs) =
     (case hash f of Inl e \<Rightarrow> hash_files hash fs
      | Inr h \<Rightarrow> \<lparr>fh_Path = f, fh_Hash = h\<rparr> # hash_files hash fs)"
  by (auto simp: hash_files_def hash_one_def List.map_filter_def split: sum.splits)

lemma hash_files_append: "hash_files hash (fs @ gs) = hash_files hash fs @ hash_files hash gs"
  by (induction fs) (auto split: sum.splits)

subsection \<open>Accounting\<close>

text \<open>Where a hash can be on its way: with a worker, in the buffer, received.\<close>

fun in_worker :: "(string \<Rightarrow> go_error + string) \<Rightarrow> worker \<Rightarrow> file_hash multiset" where
  "in_worker hash (Got f) = mset (hash_files hash [f])"
| "in_worker hash (Sending x) = {#x#}"
| "in_worker hash w = {#}"

definition in_flight :: "(string \<Rightarrow> go_error + string) \<Rightarrow> pool \<Rightarrow> file_hash multiset" where
  "in_flight hash s =
     mset (p_received s) + mset (p_buf s) + sum_list (map (in_worker hash) (p_workers s)) +
     mset (hash_files hash (concat (p_names s)))"

definition pool_inv ::
    "(string \<Rightarrow> go_error + string) \<Rightarrow> nat \<Rightarrow> string list \<Rightarrow> pool \<Rightarrow> bool" where
  "pool_inv hash n files s \<longleftrightarrow>
     length (p_workers s) = n \<and> length (p_buf s) \<le> n \<and>
     in_flight hash s \<subseteq># mset (hash_files hash files) \<and>
     (\<not> p_cancelled s \<longrightarrow> in_flight hash s = mset (hash_files hash files)) \<and>
     (\<not> p_cancelled s \<longrightarrow> Exited \<in> set (p_workers s) \<longrightarrow> p_names_closed s) \<and>
     (p_names_closed s \<longrightarrow> p_names s = []) \<and>
     (p_hash_closed s \<longrightarrow> list_all (\<lambda>w. w = Exited) (p_workers s))"

lemma in_worker_update:
  "i < length ws \<Longrightarrow> sum_list (map (in_worker hash) (ws[i := w])) + in_worker hash (ws ! i) =
     sum_list (map (in_worker hash) ws) + in_worker hash w"
  by (rule sum_mset_list_update)

lemma update_in_worker:
  assumes "i < length ws" and "in_worker hash (ws ! i) = M + in_worker hash w"
  shows "sum_list (map (in_worker hash) ws) = sum_list (map (in_worker hash) (ws[i := w])) + M"
  using in_worker_update [OF assms(1), of hash w] assms(2) by (simp add: ac_simps)

lemma pool_step_in_flight:
  assumes "pool_step hash s t"
  shows "in_flight hash t \<subseteq># in_flight hash s \<and>
    (\<not> p_cancelled s \<longrightarrow> in_flight hash t = in_flight hash s)"
  using assms
proof cases
  case (send_name f fs rs i)
  have "sum_list (map (in_worker hash) ((p_workers s)[i := Got f])) =
      sum_list (map (in_worker hash) (p_workers s)) + mset (hash_files hash [f])"
    using in_worker_update [OF send_name(3), of hash "Got f"] send_name(4) by simp
  with send_name show ?thesis
    by (auto simp: in_flight_def hash_files_append split: sum.splits)
next
  case (drop_root f fs rs)
  have "mset (hash_files hash (concat (p_names s))) =
      mset (hash_files hash (f # fs)) + mset (hash_files hash (concat rs))"
    using drop_root(2) hash_files_append [of hash "f # fs" "concat rs"] by simp
  with drop_root show ?thesis by (simp add: in_flight_def)
next
  case (worker_done i f)
  then show ?thesis
    using update_in_worker [of i "p_workers s" hash "mset (hash_files hash [f])" Exited]
    by (simp add: in_flight_def)
next
  case (worker_hash i f h)
  then show ?thesis
    using update_in_worker [of i "p_workers s" hash "{#}" "Sending \<lparr>fh_Path = f, fh_Hash = h\<rparr>"]
    by (simp add: in_flight_def)
next
  case (worker_skip i f e)
  then show ?thesis
    using update_in_worker [of i "p_workers s" hash "{#}" Receiving]
    by (simp add: in_flight_def)
next
  case (send_hash i x)
  then show ?thesis
    using update_in_worker [of i "p_workers s" hash "{#x#}" Receiving]
    by (simp add: in_flight_def)
next
  case (worker_exit i)
  then show ?thesis
    using update_in_worker [of i "p_workers s" hash "{#}" Exited]
    by (simp add: in_flight_def)
qed (auto simp: in_flight_def hash_files_append)

lemma pool_step_cancelled: "pool_step hash s t \<Longrightarrow> p_cancelled t = p_cancelled s"
  by (induction rule: pool_step.induct) auto

lemma pool_step_length: "pool_step hash s t \<Longrightarrow> length (p_workers t) = length (p_workers s)"
  by (induction rule: pool_step.induct) auto

lemma length_update_worker [simp]: "length ((p_workers s)[i := w]) = length (p_workers s)"
  by simp

text \<open>Each conjunct of the invariant but the accounting is a fact of one step.\<close>

lemma pool_step_bounds:
  assumes "pool_inv hash n files s" and "pool_step hash s t"
  shows "length (p_workers t) = n \<and> length (p_buf t) \<le> n"
  using assms(2,1) by cases (auto simp: pool_inv_def)

lemma pool_step_closing:
  assumes "pool_inv hash n files s" and "pool_step hash s t"
  shows "(\<not> p_cancelled t \<longrightarrow> Exited \<in> set (p_workers t) \<longrightarrow> p_names_closed t) \<and>
    (p_names_closed t \<longrightarrow> p_names t = []) \<and>
    (p_hash_closed t \<longrightarrow> list_all (\<lambda>w. w = Exited) (p_workers t))"
  using assms(2)
proof cases
  case (send_name f fs rs i)
  with assms(1) have "\<not> p_names_closed s" "Exited \<notin> set (p_workers s) \<or> p_cancelled s"
    "\<not> p_hash_closed s" by (auto simp: pool_inv_def list_all_length)
  with send_name show ?thesis using set_update_subset_insert by fastforce
next
  case (worker_hash i f h)
  with assms(1) show ?thesis
    using set_update_subset_insert by (fastforce simp: pool_inv_def list_all_length)
next
  case (worker_skip i f e)
  with assms(1) show ?thesis
    using set_update_subset_insert by (fastforce simp: pool_inv_def list_all_length)
next
  case (send_hash i x)
  with assms(1) show ?thesis
    using set_update_subset_insert by (fastforce simp: pool_inv_def list_all_length)
next
  case (worker_done i f)
  with assms(1) show ?thesis by (fastforce simp: pool_inv_def list_all_length)
next
  case (worker_exit i)
  with assms(1) show ?thesis by (fastforce simp: pool_inv_def list_all_length)
qed (use assms(1) in \<open>auto simp: pool_inv_def\<close>)

lemma pool_step_inv:
  assumes "pool_inv hash n files s" and "pool_step hash s t"
  shows "pool_inv hash n files t"
proof -
  note b = pool_step_bounds [OF assms] and c = pool_step_closing [OF assms]
  have "in_flight hash t \<subseteq># mset (hash_files hash files) \<and>
    (\<not> p_cancelled t \<longrightarrow> in_flight hash t = mset (hash_files hash files))"
    using pool_step_in_flight [OF assms(2)] assms(1) pool_step_cancelled [OF assms(2)]
    by (auto simp: pool_inv_def intro: subset_mset.order_trans)
  with b c show ?thesis unfolding pool_inv_def by blast
qed

lemma pool_cancel_inv:
  "pool_inv hash n files s \<Longrightarrow> pool_inv hash n files (s\<lparr>p_cancelled := True\<rparr>)"
  by (simp add: pool_inv_def in_flight_def)

lemma pool_env_step_inv:
  assumes "pool_inv hash n files s" and "pool_env_step hash s t"
  shows "pool_inv hash n files t"
  using assms(2) by cases (use assms(1) in \<open>auto intro: pool_step_inv pool_cancel_inv\<close>)

definition pool_init :: "nat \<Rightarrow> string list list \<Rightarrow> pool \<Rightarrow> bool" where
  "pool_init n names s \<longleftrightarrow> WorkersPool (int n) names = Ok s"

lemma sum_list_empty_workers [simp]: "sum_list (replicate n ({#} :: 'a multiset)) = {#}"
  by (induction n) auto

lemma pool_init_inv: "pool_init n names s \<Longrightarrow> pool_inv hash n (concat names) s"
  by (auto simp: pool_init_def WorkersPool_def pool_inv_def in_flight_def)

interpretation pool: step_invariant "pool_init n names" "pool_env_step hash"
    "pool_inv hash n (concat names)" for n names hash
  by unfold_locales (auto intro: pool_init_inv pool_env_step_inv)

subsection \<open>The pipeline terminates\<close>

text \<open>What is left to do: every step of the pipeline itself makes it smaller.\<close>

fun worker_work :: "worker \<Rightarrow> nat" where
  "worker_work Receiving = 1"
| "worker_work (Got f) = 4"
| "worker_work (Sending x) = 3"
| "worker_work Exited = 0"

definition pool_work :: "pool \<Rightarrow> nat" where
  "pool_work s =
     4 * length (concat (p_names s)) + length (p_names s) +
     (if p_names_closed s then 0 else 1) + sum_list (map worker_work (p_workers s)) +
     length (p_buf s) + (if p_hash_closed s then 0 else 1)"

lemma worker_work_update:
  "i < length ws \<Longrightarrow>
   sum_list (map worker_work (ws[i := w])) + worker_work (ws ! i) =
   sum_list (map worker_work ws) + worker_work w"
  by (rule sum_list_update_nat)

lemma pool_step_work: "pool_step hash s t \<Longrightarrow> pool_work t < pool_work s"
proof (induction rule: pool_step.induct)
  case (send_name s f fs rs i)
  then show ?case using worker_work_update [of i "p_workers s" "Got f"] by (simp add: pool_work_def)
next
  case (worker_done i s f)
  then show ?case using worker_work_update [of i "p_workers s" Exited] by (simp add: pool_work_def)
next
  case (worker_hash i s f h)
  then show ?case
    using worker_work_update [of i "p_workers s" "Sending \<lparr>fh_Path = f, fh_Hash = h\<rparr>"]
    by (simp add: pool_work_def)
next
  case (worker_skip i s f e)
  then show ?case using worker_work_update [of i "p_workers s" Receiving] by (simp add: pool_work_def)
next
  case (send_hash i s x)
  then show ?case using worker_work_update [of i "p_workers s" Receiving] by (simp add: pool_work_def)
next
  case (worker_exit i s)
  then show ?case using worker_work_update [of i "p_workers s" Exited] by (simp add: pool_work_def)
qed (auto simp: pool_work_def)

text \<open>
  Finished: the consumer's \<open>range\<close> over \<open>hashC\<close> has ended, and the walker has returned.
\<close>

definition pool_done :: "pool \<Rightarrow> bool" where
  "pool_done s \<longleftrightarrow> p_hash_closed s \<and> p_buf s = [] \<and> p_names_closed s"

lemma worker_can_step:
  assumes "i < length (p_workers s)" and "p_workers s ! i = Got f"
  shows "\<exists>t. pool_step hash s t"
  using assms worker_done worker_hash worker_skip
  by (cases "p_cancelled s"; cases "hash f") blast+

lemma pool_progress:
  assumes inv: "pool_inv hash (Suc n) files s" and run: "\<not> pool_done s"
  shows "\<exists>t. pool_step hash s t"
proof (cases "p_buf s")
  case (Cons x xs)
  then show ?thesis by (blast intro: receive)
next
  case Nil
  have len: "length (p_workers s) = Suc n" using inv by (simp add: pool_inv_def)
  show ?thesis
  proof (cases "\<exists>i < length (p_workers s). \<exists>f. p_workers s ! i = Got f")
    case True
    then show ?thesis by (blast intro: worker_can_step)
  next
    case no_got: False
    show ?thesis
    proof (cases "\<exists>i < length (p_workers s). \<exists>x. p_workers s ! i = Sending x")
      case True
      then obtain i x where "i < length (p_workers s)" "p_workers s ! i = Sending x" by blast
      with Nil len show ?thesis using send_hash [of i s x hash] by auto
    next
      case no_send: False
      have idle: "p_workers s ! i = Receiving \<or> p_workers s ! i = Exited"
        if "i < length (p_workers s)" for i
        using no_got no_send that by (cases "p_workers s ! i") auto
      show ?thesis
      proof (cases "p_names s")
        case (Cons fs rs)
        then show ?thesis
        proof (cases fs)
          case fs: (Cons f fs')
          show ?thesis
          proof (cases "p_cancelled s")
            case True
            with Cons fs show ?thesis by (blast intro: drop_root)
          next
            case False
            with inv Cons have "Exited \<notin> set (p_workers s)" by (auto simp: pool_inv_def)
            with idle [of 0] len have "p_workers s ! 0 = Receiving"
              by (metis nth_mem zero_less_Suc)
            with Cons fs len show ?thesis using send_name [of s f fs' rs 0 hash] by auto
          qed
        qed (auto intro: next_root)
      next
        case no_names: Nil
        show ?thesis
        proof (cases "list_all (\<lambda>w. w = Exited) (p_workers s)")
          case True
          with run Nil no_names show ?thesis
            by (auto simp: pool_done_def intro: close_hash close_names)
        next
          case False
          with idle obtain i where "i < length (p_workers s)" "p_workers s ! i = Receiving"
            by (auto simp: list_all_length)
          with no_names show ?thesis by (cases "p_names_closed s") (auto intro: worker_exit close_names)
        qed
      qed
    qed
  qed
qed

interpretation pool_bounded: bounded_steps "pool_init (Suc n) names" "pool_step hash"
    "pool_inv hash (Suc n) (concat names)" pool_work pool_done for n names hash
  by unfold_locales (auto intro: pool_init_inv pool_step_inv pool_step_work pool_progress)

subsection \<open>The pipeline while its consumer does something else\<close>

text \<open>Steps without a receive: those the pipeline can make on its own.\<close>

definition quiet_step :: "(string \<Rightarrow> go_error + string) \<Rightarrow> pool \<Rightarrow> pool \<Rightarrow> bool" where
  "quiet_step hash s t \<longleftrightarrow> pool_step hash s t \<and> p_received t = p_received s"

lemma quiet_step_pool: "quiet_step hash s t \<Longrightarrow> pool_step hash s t"
  by (simp add: quiet_step_def)

lemma pool_step_received:
  "pool_step hash s t \<Longrightarrow> p_received t = p_received s \<or>
     (\<exists>x xs. p_buf s = x # xs \<and> t = s\<lparr>p_buf := xs, p_received := p_received s @ [x]\<rparr>)"
  by (erule pool_step.cases) auto

text \<open>With an empty buffer the pipeline steps on its own until it closes the hash channel.\<close>

lemma quiet_progress:
  assumes inv: "pool_inv hash n files s" and "p_buf s = []" and "\<not> p_hash_closed s"
  shows "\<exists>t. quiet_step hash s t"
proof -
  have "\<exists>t. pool_step hash s t"
  proof (cases n)
    case 0
    with inv have "p_workers s = []" by (simp add: pool_inv_def)
    then show ?thesis using close_hash [of s hash] assms(3) by auto
  next
    case (Suc k)
    with assms show ?thesis using pool_progress [of hash k files s] by (auto simp: pool_done_def)
  qed
  with assms(2) show ?thesis using pool_step_received by (fastforce simp: quiet_step_def)
qed

text \<open>A cancelled pipeline whose workers are idle closes the hash channel without a hash.\<close>

definition pool_idle :: "pool \<Rightarrow> bool" where
  "pool_idle s \<longleftrightarrow> p_cancelled s \<and> p_buf s = [] \<and> p_received s = [] \<and>
     list_all (\<lambda>w. w = Receiving \<or> w = Exited) (p_workers s)"

definition idle_step :: "(string \<Rightarrow> go_error + string) \<Rightarrow> pool \<Rightarrow> pool \<Rightarrow> bool" where
  "idle_step hash s t \<longleftrightarrow> quiet_step hash s t \<and> pool_idle t"

lemma idle_progress:
  assumes idle: "pool_idle s" and "\<not> p_hash_closed s"
  shows "\<exists>t. idle_step hash s t"
proof (cases "p_names s")
  case (Cons fs rs)
  have "pool_step hash s (s\<lparr>p_names := rs\<rparr>)"
    using Cons idle by (cases fs) (auto simp: pool_idle_def intro: next_root drop_root)
  with idle show ?thesis
    by (intro exI [of _ "s\<lparr>p_names := rs\<rparr>"]) (simp add: idle_step_def quiet_step_def pool_idle_def)
next
  case Nil
  show ?thesis
  proof (cases "list_all (\<lambda>w. w = Exited) (p_workers s)")
    case True
    with assms show ?thesis
      by (intro exI [of _ "s\<lparr>p_hash_closed := True\<rparr>"])
        (simp add: idle_step_def quiet_step_def pool_idle_def close_hash)
  next
    case False
    with idle obtain i where i: "i < length (p_workers s)" "p_workers s ! i = Receiving"
      by (auto simp: pool_idle_def list_all_length)
    show ?thesis
    proof (cases "p_names_closed s")
      case True
      have "list_all (\<lambda>w. w = Receiving \<or> w = Exited) ((p_workers s)[i := Exited])"
        using idle i by (simp add: pool_idle_def list_all_length nth_list_update)
      with i True idle show ?thesis
        by (intro exI [of _ "s\<lparr>p_workers := (p_workers s)[i := Exited]\<rparr>"])
          (simp add: idle_step_def quiet_step_def pool_idle_def worker_exit)
    next
      case False
      with Nil idle show ?thesis
        by (intro exI [of _ "s\<lparr>p_names_closed := True\<rparr>"])
          (simp add: idle_step_def quiet_step_def pool_idle_def close_names)
    qed
  qed
qed

interpretation idle: bounded_steps pool_idle "idle_step hash" pool_idle pool_work p_hash_closed
  for hash
  by unfold_locales
    (auto simp: idle_step_def dest!: quiet_step_pool intro: pool_step_work idle_progress [unfolded idle_step_def])

text \<open>Up to its first receive a run makes quiet steps only.\<close>

lemma run_first_receive:
  "run (pool_step hash) s k t \<Longrightarrow> p_received s = [] \<Longrightarrow>
   (p_received t = [] \<longrightarrow> run (quiet_step hash) s k t) \<and>
   (p_received t \<noteq> [] \<longrightarrow> (\<exists>j u. run (quiet_step hash) s j u \<and> p_buf u \<noteq> [] \<and> p_received u = []))"
proof (induction rule: run.induct)
  case (run_0 s)
  then show ?case by (simp add: run.run_0)
next
  case (run_Suc s k t u)
  show ?case
  proof (cases "p_received t = []")
    case True
    with run_Suc have q: "run (quiet_step hash) s k t" by simp
    from pool_step_received [OF run_Suc.hyps(2)] show ?thesis
    proof
      assume r: "p_received u = p_received t"
      with run_Suc.hyps(2) have "quiet_step hash t u" by (simp add: quiet_step_def)
      with q r True show ?thesis by (auto intro: run.run_Suc)
    next
      assume "\<exists>x xs. p_buf t = x # xs \<and> u = t\<lparr>p_buf := xs, p_received := p_received t @ [x]\<rparr>"
      then have "p_buf t \<noteq> []" "p_received u \<noteq> []" by auto
      with q True show ?thesis by blast
    qed
  next
    case False
    with pool_step_received [OF run_Suc.hyps(2)] have "p_received u \<noteq> []" by auto
    with False run_Suc show ?thesis by blast
  qed
qed

lemma quiet_run_calm:
  "run (quiet_step hash) s k t \<Longrightarrow> p_cancelled t = p_cancelled s"
  by (induction rule: run.induct) (auto dest: quiet_step_pool pool_step_cancelled)

subsection \<open>Properties\<close>

text \<open>
  A pipeline of one worker that takes the files in order: it shows that the sequential result
  is what some run delivers.
\<close>

definition tiny :: "string list list \<Rightarrow> worker \<Rightarrow> bool \<Rightarrow> file_hash list \<Rightarrow> file_hash list \<Rightarrow> pool" where
  "tiny names w closed buf got =
     \<lparr>p_names = names, p_names_closed = closed, p_workers = [w], p_buf = buf,
      p_hash_closed = False, p_received = got, p_cancelled = False\<rparr>"

lemma tiny_init: "pool_init 1 names (tiny names Receiving False [] [])"
  by (simp add: pool_init_def WorkersPool_def tiny_def)

lemma tiny_got: "pool_env_step hash (tiny ((f # fs) # rs) Receiving False buf got)
    (tiny (fs # rs) (Got f) False buf got)"
  by (rule env_step) (use send_name [of "tiny ((f # fs) # rs) Receiving False buf got" f fs rs 0]
    in \<open>simp add: tiny_def\<close>)

lemma tiny_hashed: "hash f = Inr h \<Longrightarrow> pool_env_step hash (tiny names (Got f) c buf got)
    (tiny names (Sending \<lparr>fh_Path = f, fh_Hash = h\<rparr>) c buf got)"
  by (rule env_step) (use worker_hash [of 0 "tiny names (Got f) c buf got" f] in \<open>simp add: tiny_def\<close>)

lemma tiny_skipped: "hash f = Inl e \<Longrightarrow> pool_env_step hash (tiny names (Got f) c buf got)
    (tiny names Receiving c buf got)"
  by (rule env_step) (use worker_skip [of 0 "tiny names (Got f) c buf got" f] in \<open>simp add: tiny_def\<close>)

lemma tiny_sent: "pool_env_step hash (tiny names (Sending x) c [] got)
    (tiny names Receiving c [x] got)"
  by (rule env_step) (use send_hash [of 0 "tiny names (Sending x) c [] got" x] in \<open>simp add: tiny_def\<close>)

lemma tiny_taken: "pool_env_step hash (tiny names w c (x # buf) got)
    (tiny names w c buf (got @ [x]))"
  by (rule env_step) (use receive [of "tiny names w c (x # buf) got" x buf] in \<open>simp add: tiny_def\<close>)

lemma tiny_next: "pool_env_step hash (tiny ([] # rs) w c buf got) (tiny rs w c buf got)"
  by (rule env_step) (use next_root [of "tiny ([] # rs) w c buf got" rs] in \<open>simp add: tiny_def\<close>)

lemma tiny_closed: "pool_env_step hash (tiny [] w False buf got) (tiny [] w True buf got)"
  by (rule env_step) (use close_names [of "tiny [] w False buf got"] in \<open>simp add: tiny_def\<close>)

lemma tiny_exited: "pool_env_step hash (tiny [] Receiving True buf got) (tiny [] Exited True buf got)"
  by (rule env_step) (use worker_exit [of 0 "tiny [] Receiving True buf got"] in \<open>simp add: tiny_def\<close>)

lemma tiny_done: "pool_env_step hash (tiny [] Exited c buf got)
    ((tiny [] Exited c buf got)\<lparr>p_hash_closed := True\<rparr>)"
  by (rule env_step) (use close_hash [of "tiny [] Exited c buf got"] in \<open>simp add: tiny_def\<close>)

lemma tiny_root:
  "reach init (pool_env_step hash) (tiny (fs # rs) Receiving False [] got) \<Longrightarrow>
   reach init (pool_env_step hash) (tiny rs Receiving False [] (got @ hash_files hash fs))"
proof (induction fs arbitrary: got)
  case Nil
  have "reach init (pool_env_step hash) (tiny rs Receiving False [] got)"
    using Nil by (rule reach_step) (rule tiny_next)
  then show ?case by simp
next
  case (Cons f fs)
  from Cons.prems have r: "reach init (pool_env_step hash) (tiny (fs # rs) (Got f) False [] got)"
    by (rule reach_step) (rule tiny_got)
  show ?case
  proof (cases "hash f")
    case (Inl e)
    have "reach init (pool_env_step hash) (tiny (fs # rs) Receiving False [] got)"
      using r by (rule reach_step) (rule tiny_skipped [where e = e], rule Inl)
    from Cons.IH [OF this] Inl show ?thesis by simp
  next
    case (Inr h)
    let ?x = "\<lparr>fh_Path = f, fh_Hash = h\<rparr>"
    have "reach init (pool_env_step hash) (tiny (fs # rs) (Sending ?x) False [] got)"
      using r by (rule reach_step) (rule tiny_hashed, rule Inr)
    then have "reach init (pool_env_step hash) (tiny (fs # rs) Receiving False [?x] got)"
      by (rule reach_step) (rule tiny_sent)
    then have "reach init (pool_env_step hash) (tiny (fs # rs) Receiving False [] (got @ [?x]))"
      by (rule reach_step) (rule tiny_taken)
    from Cons.IH [OF this] Inr show ?thesis by simp
  qed
qed

lemma tiny_roots:
  "reach init (pool_env_step hash) (tiny names Receiving False [] got) \<Longrightarrow>
   reach init (pool_env_step hash) (tiny [] Receiving False [] (got @ hash_files hash (concat names)))"
proof (induction names arbitrary: got)
  case (Cons fs names)
  from Cons.IH [OF tiny_root [OF Cons.prems]] show ?case by (simp add: hash_files_append)
qed simp

lemma tiny_run_done:
  "reach (pool_init 1 names) (pool_env_step hash)
     ((tiny [] Exited True [] (hash_files hash (concat names)))\<lparr>p_hash_closed := True\<rparr>)"
proof -
  let ?R = "reach (pool_init 1 names) (pool_env_step hash)"
  have "?R (tiny names Receiving False [] [])" by (intro reach_init tiny_init)
  from tiny_roots [OF this] have "?R (tiny [] Receiving False [] (hash_files hash (concat names)))"
    by simp
  then have "?R (tiny [] Receiving True [] (hash_files hash (concat names)))"
    by (rule reach_step) (rule tiny_closed)
  then have "?R (tiny [] Exited True [] (hash_files hash (concat names)))"
    by (rule reach_step) (rule tiny_exited)
  then show ?thesis by (rule reach_step) (rule tiny_done)
qed

text \<open>What a run of the pipeline that nobody cancels hands to its consumer.\<close>

definition pool_output ::
    "(string \<Rightarrow> go_error + string) \<Rightarrow> nat \<Rightarrow> string list list \<Rightarrow> file_hash list \<Rightarrow> bool" where
  "pool_output hash n names hashes \<longleftrightarrow>
     (\<exists>s. reach (pool_init n names) (pool_env_step hash) s \<and> p_hash_closed s \<and> p_buf s = [] \<and>
        \<not> p_cancelled s \<and> p_received s = hashes)"

lemma pool_output_sequential: "pool_output hash 1 names (hash_files hash (concat names))"
  unfolding pool_output_def
  by (rule exI [of _ "(tiny [] Exited True [] (hash_files hash (concat names)))\<lparr>p_hash_closed := True\<rparr>"])
    (use tiny_run_done in \<open>simp add: tiny_def\<close>)

lemma pool_inv_delivers:
  assumes inv: "pool_inv hash n files s" and "0 < n"
    and "p_hash_closed s" and "p_buf s = []" and "\<not> p_cancelled s"
  shows "mset (p_received s) = mset (hash_files hash files)"
proof -
  from inv assms(3) have "p_workers s = replicate n Exited"
    by (intro replicate_eqI) (auto simp: pool_inv_def list_all_iff)
  with assms(2) have w: "sum_list (map (in_worker hash) (p_workers s)) = {#}"
    "Exited \<in> set (p_workers s)" by auto
  with inv assms(5) have "p_names s = []" by (auto simp: pool_inv_def)
  with inv assms(4,5) w show ?thesis by (simp add: pool_inv_def in_flight_def)
qed

lemma pool_inv_received:
  "pool_inv hash n files s \<Longrightarrow> mset (p_received s) \<subseteq># mset (hash_files hash files)"
proof -
  assume "pool_inv hash n files s"
  then have "in_flight hash s \<subseteq># mset (hash_files hash files)" by (simp add: pool_inv_def)
  moreover have "mset (p_received s) \<subseteq># in_flight hash s" by (simp add: in_flight_def)
  ultimately show ?thesis by (rule subset_mset.order_trans [rotated])
qed

lemma pool_delivers_mset:
  assumes "reach (pool_init n names) (pool_env_step hash) s" and "0 < n"
    and "p_hash_closed s" and "p_buf s = []" and "\<not> p_cancelled s"
  shows "mset (p_received s) = mset (hash_files hash (concat names))"
  using pool_inv_delivers [OF pool.reach_inv [OF assms(1)] assms(2-)] .

lemma pool_output_mset:
  "pool_output hash (Suc n) names hashes \<Longrightarrow> mset hashes = mset (hash_files hash (concat names))"
  unfolding pool_output_def using pool_delivers_mset by blast

text \<open>
  Property C9. Whatever the number of workers (at least one) and however the walker, the
  workers and the consumer interleave: when the consumer's loop over the hash channel ends
  and the context was not cancelled, it has received the hash of every file the walker found
  that can be hashed, each exactly as often as the file was found, and nothing else.
\<close>

theorem pool_delivers_all:
  assumes "reach (pool_init n names) (pool_env_step hash) s" and "0 < n"
    and "p_hash_closed s" and "p_buf s = []" and "\<not> p_cancelled s"
  shows "mset (p_received s) = mset (hash_files hash (concat names))"
  using assms by (rule pool_delivers_mset)

theorem pool_delivers_all_witness:
  "mset (hash_files Inr [''a'', ''b'']) = mset [\<lparr>fh_Path = ''a'', fh_Hash = ''a''\<rparr>, \<lparr>fh_Path = ''b'', fh_Hash = ''b''\<rparr>]"
  using pool_delivers_all [OF tiny_run_done [of "[[''a'', ''b'']]" Inr]] by (simp add: tiny_def)

text \<open>
  Property C14. With at least one worker the pipeline cannot run forever and cannot get stuck:
  from every reachable state, cancelled or not, at most as many steps follow as \<open>pool_work\<close>
  says, and some run reaches the end, where the hash channel is closed and drained and the
  walker has returned.
\<close>

theorem pool_terminates:
  assumes "reach (pool_init (Suc n) names) (pool_env_step hash) s"
  shows "(\<forall>k t. run (pool_step hash) s k t \<longrightarrow> k \<le> pool_work s) \<and>
    (\<exists>k t. run (pool_step hash) s k t \<and> pool_done t)"
proof -
  have inv: "pool_inv hash (Suc n) (concat names) s" using assms by (rule pool.reach_inv)
  then show ?thesis
    using pool_bounded.run_bounded pool_bounded.reaches_final by (fastforce dest: add_leD1)
qed

theorem pool_terminates_witness:
  "\<exists>k t. run (pool_step Inr) (tiny [[''a'']] Receiving False [] []) k t \<and> pool_done t"
proof -
  have "reach (pool_init (Suc 0) [[''a'']]) (pool_env_step Inr)
      (tiny [[''a'']] Receiving False [] [])"
    using tiny_init by (auto intro: reach_init)
  from pool_terminates [OF this] show ?thesis by blast
qed

text \<open>
  With \<open>count-workers\<close> zero the pool closes the hash channel without hashing
  anything: the consumer ends with no hash at all, whatever files there are, and with a
  negative count the pool cannot be built.
\<close>

lemma pool_without_workers:
  "(reach (pool_init 0 names) (pool_env_step hash) s \<longrightarrow> p_received s = []) \<and>
   (c < 0 \<longrightarrow> WorkersPool c names = Panic ''makechan: size out of range'')"
proof -
  have "p_received s = [] \<and> p_buf s = [] \<and> p_workers s = []"
    if "reach (pool_init 0 names) (pool_env_step hash) s" for s
    using that
  proof (induction rule: reach.induct)
    case (reach_init s)
    then show ?case by (auto simp: pool_init_def WorkersPool_def)
  next
    case (reach_step s t)
    from reach_step(2) show ?case
    proof cases
      case env_step
      then show ?thesis using reach_step.IH by cases auto
    next
      case env_cancel
      then show ?thesis using reach_step.IH by simp
    qed
  qed
  then show ?thesis by (simp add: WorkersPool_def)
qed

end
