(* ===== verification/Trees.thy ===== *)
theory Trees
  imports Worker_Pool
begin

text \<open>
  What the walker and the pipeline together say about a file system: the paths below its root
  with the hashes of the files. This is the abstraction that the snapshot tool and the monitor
  share; nothing here models a line of the program.
\<close>

text \<open>The files of one configured directory: those that can be hashed, by relative path.\<close>

definition dir_node :: "(string \<Rightarrow> go_error + file_node) \<Rightarrow> string \<Rightarrow> string \<Rightarrow> file_node" where
  "dir_node lstat root dir =
     (case lstat (root @ ''/'' @ dir) of Inl e \<Rightarrow> BadDirectory e | Inr node \<Rightarrow> node)"

definition dir_entries ::
    "(string \<Rightarrow> go_error + string) \<Rightarrow> (string \<Rightarrow> go_error + file_node) \<Rightarrow> string \<Rightarrow> string \<Rightarrow>
     (string \<times> string) list" where
  "dir_entries hash lstat root dir =
     List.map_filter (\<lambda>names.
         case hash (path_of (root @ ''/'' @ dir) names) of
           Inl e \<Rightarrow> None
         | Inr h \<Rightarrow> Some (rel_path dir names, h))
       (files_under (dir_node lstat root dir))"

definition tree_entries ::
    "(string \<Rightarrow> go_error + string) \<Rightarrow> (string \<Rightarrow> go_error + file_node) \<Rightarrow> string \<Rightarrow> string list \<Rightarrow>
     (string \<times> string) list" where
  "tree_entries hash lstat root dirs = concat (map (dir_entries hash lstat root) dirs)"

text \<open>
  The trees the development speaks about: each configured directory is a directory that exists,
  whose entries have distinct proper names and which can be listed all the way down.
\<close>

definition good_dir :: "(string \<Rightarrow> go_error + file_node) \<Rightarrow> string \<Rightarrow> string \<Rightarrow> bool" where
  "good_dir lstat root dir \<longleftrightarrow>
     plain_dir dir \<and>
     (case dir_node lstat root dir of
        Directory es \<Rightarrow> wf_node (Directory es) \<and> readable (Directory es)
      | _ \<Rightarrow> False)"

text \<open>No configured directory lies in another one.\<close>

definition separate :: "string list \<Rightarrow> bool" where
  "separate dirs \<longleftrightarrow>
     distinct (map dir_comps dirs) \<and>
     list_all (\<lambda>a. list_all (\<lambda>b. dir_comps a = dir_comps b \<or> \<not> prefix (dir_comps a) (dir_comps b)) dirs) dirs"

lemma good_dirE:
  assumes "good_dir lstat root dir"
  obtains es where "lstat (root @ ''/'' @ dir) = Inr (Directory es)"
    and "dir_node lstat root dir = Directory es"
    and "wf_node (Directory es)" and "readable (Directory es)" and "plain_dir dir"
  using assms
  by (cases "lstat (root @ ''/'' @ dir)")
    (auto simp: good_dir_def dir_node_def split: file_node.splits)

lemma good_dir_names:
  assumes "good_dir lstat root dir" and "names \<in> set (files_under (dir_node lstat root dir))"
  shows "names \<noteq> [] \<and> list_all proper_name names"
proof -
  from assms(1) obtain es where n: "dir_node lstat root dir = Directory es" "wf_node (Directory es)"
    by (rule good_dirE)
  from n(1) assms(2) have m: "names \<in> set (files_under (Directory es))" by simp
  then have "list_all proper_name names" by (rule files_under_proper [OF n(2)])
  with files_under_Directory_nonempty [OF m] show ?thesis by simp
qed

subsection \<open>The walk finds the entries\<close>

lemma map_filter_cong:
  "(\<And>x. x \<in> set xs \<Longrightarrow> f x = g x) \<Longrightarrow> List.map_filter f xs = List.map_filter g xs"
  by (induction xs) (auto simp: List.map_filter_simps split: option.splits)

lemma mset_map_filter_cong:
  assumes "mset xs = mset ys"
  shows "mset (List.map_filter f xs) = mset (List.map_filter f ys)"
  using assms by (simp add: mset_filter_map_option)

lemma map_filter_map: "List.map_filter f (map g xs) = List.map_filter (f \<circ> g) xs"
  by (induction xs) (auto simp: List.map_filter_simps split: option.splits)

lemma map_map_filter: "map g (List.map_filter f xs) = List.map_filter (\<lambda>x. map_option g (f x)) xs"
  by (induction xs) (auto simp: List.map_filter_simps split: option.splits)

text \<open>Whatever is done to the paths found, it is done to the paths of the tree's files.\<close>

lemma walk_dir_map:
  assumes "root \<noteq> []" and "good_dir lstat root dir"
  shows "mset (map (\<lambda>v. (g (fh_Path v), fh_Hash v))
      (hash_files hash (fst (walk_root lstat (root @ ''/'' @ dir))))) =
    mset (List.map_filter (\<lambda>names.
        case hash (path_of (root @ ''/'' @ dir) names) of
          Inl e \<Rightarrow> None
        | Inr h \<Rightarrow> Some (g (path_of (root @ ''/'' @ dir) names), h))
      (files_under (dir_node lstat root dir)))"
proof -
  let ?r = "root @ ''/'' @ dir" and ?node = "dir_node lstat root dir"
  let ?entry = "\<lambda>v. (g (fh_Path v), fh_Hash v)"
  from assms(2) obtain es where l: "lstat ?r = Inr (Directory es)" "?node = Directory es"
    "wf_node (Directory es)" "readable (Directory es)"
    by (rule good_dirE)
  have "mset (fst (walk_root lstat ?r)) = mset (map (path_of ?r) (files_under ?node))"
    using walk_dir_mset [of ?r "Directory es"] l by (simp add: walk_root_def)
  then have "mset (map ?entry (hash_files hash (fst (walk_root lstat ?r)))) =
      mset (map ?entry (hash_files hash (map (path_of ?r) (files_under ?node))))"
    unfolding hash_files_def mset_map by (intro arg_cong [where f = "image_mset ?entry"]
      mset_map_filter_cong) (simp only: mset_map)
  also have "map ?entry (hash_files hash (map (path_of ?r) (files_under ?node))) =
      List.map_filter (\<lambda>names. case hash (path_of ?r names) of
          Inl e \<Rightarrow> None | Inr h \<Rightarrow> Some (g (path_of ?r names), h)) (files_under ?node)"
    unfolding hash_files_def map_map_filter map_filter_map
    by (rule map_filter_cong) (simp add: hash_one_def split: sum.splits)
  finally show ?thesis .
qed

lemma walk_dir_entries:
  assumes "clean_root root" and "good_dir lstat root dir"
  shows "mset (map (\<lambda>v. (trim_prefix (fh_Path v) (root @ ''/''), fh_Hash v))
      (hash_files hash (fst (walk_root lstat (root @ ''/'' @ dir))))) =
    mset (dir_entries hash lstat root dir)"
proof -
  have r: "root \<noteq> []" and p: "plain_dir dir" using assms by (auto simp: clean_root_def good_dir_def)
  have "List.map_filter (\<lambda>names. case hash (path_of (root @ ''/'' @ dir) names) of
          Inl e \<Rightarrow> None
        | Inr h \<Rightarrow> Some (trim_prefix (path_of (root @ ''/'' @ dir) names) (root @ ''/''), h))
      (files_under (dir_node lstat root dir)) = dir_entries hash lstat root dir"
    unfolding dir_entries_def
  proof (rule map_filter_cong)
    fix names assume "names \<in> set (files_under (dir_node lstat root dir))"
    then have "names \<noteq> []" "list_all proper_name names" using good_dir_names [OF assms(2)] by auto
    from strip_below [OF assms(1) p this]
    show "(case hash (path_of (root @ ''/'' @ dir) names) of
          Inl e \<Rightarrow> None
        | Inr h \<Rightarrow> Some (trim_prefix (path_of (root @ ''/'' @ dir) names) (root @ ''/''), h)) =
        (case hash (path_of (root @ ''/'' @ dir) names) of Inl e \<Rightarrow> None | Inr h \<Rightarrow> Some (rel_path dir names, h))"
      by (simp split: sum.splits)
  qed
  with walk_dir_map [OF r assms(2), of "\<lambda>p. trim_prefix p (root @ ''/'')" hash] show ?thesis by simp
qed

lemma walk_tree_entries:
  assumes "clean_root root" and "list_all (good_dir lstat root) dirs"
  shows "mset (map (\<lambda>v. (trim_prefix (fh_Path v) (root @ ''/''), fh_Hash v))
      (hash_files hash (concat (chan_walk_dir lstat (map (\<lambda>dir. root @ ''/'' @ dir) dirs))))) =
    mset (tree_entries hash lstat root dirs)"
  using assms(2)
proof (induction dirs)
  case (Cons dir dirs)
  then show ?case
    using walk_dir_entries [OF assms(1), of lstat dir hash]
    by (simp add: chan_walk_dir_def tree_entries_def hash_files_append)
qed (simp add: chan_walk_dir_def tree_entries_def)

subsection \<open>No path twice\<close>

lemma rel_path_inject:
  assumes "names \<noteq> []" and "list_all proper_name names" and "plain_dir dir"
    and "names' \<noteq> []" and "list_all proper_name names'" and "plain_dir dir'"
  shows "rel_path dir names = rel_path dir' names' \<longleftrightarrow> dir_comps dir @ names = dir_comps dir' @ names'"
proof
  have sp: "split (rel_path d ns) ''/'' = dir_comps d @ ns"
    if "ns \<noteq> []" "list_all proper_name ns" "plain_dir d" for d ns
    unfolding rel_path_def
  proof (rule split_join)
    show "hd ''/'' \<notin> set x" if "x \<in> set (dir_comps d @ ns)" for x
      using that \<open>list_all proper_name ns\<close> \<open>plain_dir d\<close>
      by (auto simp: list_all_iff plain_dir_def proper_name_def)
  qed (use that in auto)
  assume "rel_path dir names = rel_path dir' names'"
  then have "split (rel_path dir names) ''/'' = split (rel_path dir' names') ''/''" by simp
  then show "dir_comps dir @ names = dir_comps dir' @ names'"
    unfolding sp [OF assms(1-3)] sp [OF assms(4-6)] .
qed (simp add: rel_path_def)

lemma dir_entries_path:
  assumes "good_dir lstat root dir" and "(p, h) \<in> set (dir_entries hash lstat root dir)"
  shows "\<exists>names. p = rel_path dir names \<and> names \<noteq> [] \<and> list_all proper_name names"
proof -
  from assms(2) obtain names where "names \<in> set (files_under (dir_node lstat root dir))"
    "p = rel_path dir names"
    by (auto simp: dir_entries_def List.map_filter_def split: sum.splits)
  with good_dir_names [OF assms(1)] show ?thesis by blast
qed

lemma map_filter_fst:
  "map fst (List.map_filter (\<lambda>n. case f n of Inl e \<Rightarrow> None | Inr h \<Rightarrow> Some (g n, h)) ns) =
   map g (filter (\<lambda>n. \<exists>h. f n = Inr h) ns)"
  by (induction ns) (auto simp: List.map_filter_simps split: sum.splits)

lemma distinct_dir_entries:
  assumes "good_dir lstat root dir"
  shows "distinct (map fst (dir_entries hash lstat root dir))"
proof -
  let ?ns = "files_under (dir_node lstat root dir)"
  from assms obtain es where l: "dir_node lstat root dir = Directory es" "wf_node (Directory es)"
    "plain_dir dir" by (rule good_dirE)
  have "inj_on (rel_path dir) (set ?ns)"
  proof (rule inj_onI)
    fix a b assume "a \<in> set ?ns" and "b \<in> set ?ns" and "rel_path dir a = rel_path dir b"
    with good_dir_names [OF assms] rel_path_inject [OF _ _ l(3) _ _ l(3)] show "a = b" by simp
  qed
  moreover have "distinct ?ns" unfolding l(1) by (rule distinct_files_under [OF l(2)])
  moreover have "map fst (dir_entries hash lstat root dir) =
      map (rel_path dir) (filter (\<lambda>n. \<exists>h. hash (path_of (root @ ''/'' @ dir) n) = Inr h) ?ns)"
    unfolding dir_entries_def by (rule map_filter_fst)
  ultimately show ?thesis by (auto simp: distinct_map intro: inj_on_subset)
qed

lemma dir_entries_disjoint:
  assumes "good_dir lstat root a" and "good_dir lstat root b"
    and "\<not> prefix (dir_comps a) (dir_comps b)" and "\<not> prefix (dir_comps b) (dir_comps a)"
  shows "fst ` set (dir_entries hash lstat root a) \<inter> fst ` set (dir_entries hash lstat root b) = {}"
proof -
  have pl: "plain_dir a" "plain_dir b" using assms(1,2) by (auto simp: good_dir_def)
  have "p \<noteq> q" if "(p, h) \<in> set (dir_entries hash lstat root a)"
    "(q, k) \<in> set (dir_entries hash lstat root b)" for p h q k
  proof
    assume "p = q"
    from dir_entries_path [OF assms(1) that(1)] dir_entries_path [OF assms(2) that(2)]
    obtain m n where mn: "p = rel_path a m" "m \<noteq> []" "list_all proper_name m"
      "q = rel_path b n" "n \<noteq> []" "list_all proper_name n" by blast
    with \<open>p = q\<close> have "dir_comps a @ m = dir_comps b @ n"
      using rel_path_inject [OF mn(2,3) pl(1) mn(5,6) pl(2)] by simp
    with assms(3,4) show False
      by (metis prefixI prefix_same_cases)
  qed
  then show ?thesis by fastforce
qed

lemma distinct_tree_entries:
  assumes "list_all (good_dir lstat root) dirs" and "separate dirs"
  shows "distinct (map fst (tree_entries hash lstat root dirs))"
  using assms
proof (induction dirs)
  case (Cons dir dirs)
  have "separate dirs" using Cons.prems(2) by (auto simp: separate_def list_all_iff)
  with Cons have d: "distinct (map fst (tree_entries hash lstat root dirs))" by simp
  have "fst ` set (dir_entries hash lstat root dir) \<inter> fst ` set (dir_entries hash lstat root b) = {}"
    if "b \<in> set dirs" for b
  proof (rule dir_entries_disjoint)
    have "dir_comps dir \<noteq> dir_comps b" using Cons.prems(2) that by (auto simp: separate_def)
    then show "\<not> prefix (dir_comps dir) (dir_comps b)" "\<not> prefix (dir_comps b) (dir_comps dir)"
      using Cons.prems(2) that by (auto simp: separate_def list_all_iff)
  qed (use Cons.prems(1) that in \<open>auto simp: list_all_iff\<close>)
  then have "fst ` set (dir_entries hash lstat root dir) \<inter>
      fst ` set (tree_entries hash lstat root dirs) = {}"
    unfolding tree_entries_def set_concat set_map by blast
  with d show ?case
    using distinct_dir_entries [of lstat root dir hash] Cons.prems(1)
    by (simp add: tree_entries_def)
qed (simp add: tree_entries_def)

end
