(* ===== verification/Checksums.thy ===== *)
theory Checksums
  imports Go_Errors
begin

text \<open>
  The reader of checksum records: internal/data/checksums_reader.go and the record of
  internal/data/hash_storage.go. The reader runs Go's \<open>bufio.Scanner\<close> with
  \<open>bufio.ScanLines\<close> over the data, which is in memory (\<open>bytes.NewReader\<close>); the scanner, its
  64 KiB limit on a line included, is modelled from its documentation.
\<close>

record hash_data_output =
  hdo_ID :: int
  hdo_Hash :: string
  hdo_FullFileName :: string
  hdo_Algorithm :: string
  hdo_NamePod :: string
  hdo_ReleaseId :: int

definition parseRecord :: "string \<Rightarrow> hash_data_output result" where
  "parseRecord rec =
     (if length rec = 0 then Fail (ErrNew ''an empty hash record'')
      else let parts = split rec ''  '' in
        if length parts < 2 then Fail (ErrNew (''incorrect hash record '' @ rec))
        else Ok \<lparr>hdo_ID = 0, hdo_Hash = trim_space (parts ! 0),
                 hdo_FullFileName = trim_space (parts ! 1), hdo_Algorithm = [],
                 hdo_NamePod = [], hdo_ReleaseId = 0\<rparr>)"

subsection \<open>The line scanner\<close>

definition newline :: char where "newline = CHR 0x0A"

definition drop_cr :: "string \<Rightarrow> string" where
  "drop_cr s = (if s \<noteq> [] \<and> last s = CHR 0x0D then butlast s else s)"

text \<open>\<open>bufio.MaxScanTokenSize\<close>: the buffer never grows beyond it.\<close>

definition max_token :: nat where "max_token = 65536"

text \<open>
  One call of \<open>Scan\<close> on the data that is left: the line and the rest, or \<open>None\<close> where
  \<open>Scan\<close> returns false, which is at the end of the data and also when the buffer is full
  before a newline is seen (\<open>bufio.ErrTooLong\<close>, kept in the scanner).
\<close>

definition scan :: "string \<Rightarrow> (string \<times> string) option" where
  "scan data =
     (if data = [] then None
      else let line = takeWhile (\<lambda>c. c \<noteq> newline) data in
        if length line < length data
        then (if length line < max_token
              then Some (drop_cr line, drop (Suc (length line)) data) else None)
        else (if length data < max_token then Some (drop_cr data, []) else None))"

lemma scan_shrinks: "scan data = Some (line, rest) \<Longrightarrow> length rest < length data"
  by (auto simp: scan_def Let_def split: if_splits)

text \<open>The loop of \<open>Get\<close>; the first argument is \<open>checkSums\<close>.\<close>

function get_loop :: "hash_data_output list \<Rightarrow> string \<Rightarrow> hash_data_output list result" where
  "get_loop checkSums data =
     (case scan data of
        None \<Rightarrow> Ok checkSums
      | Some (line, rest) \<Rightarrow>
          bind_result (parseRecord line) (\<lambda>sum. get_loop (checkSums @ [sum]) rest))"
  by pat_completeness auto
termination
  by (relation "measure (\<lambda>(cs, data). length data)") (auto dest: scan_shrinks)

declare get_loop.simps [simp del]

definition checksums_Get :: "string \<Rightarrow> hash_data_output list result" where
  "checksums_Get data = get_loop [] data"

subsection \<open>Lines\<close>

lemma scan_line [go_string]:
  assumes "newline \<notin> set l" and "length l < max_token"
  shows "scan (l @ newline # rest) = Some (drop_cr l, rest)"
proof -
  have "takeWhile (\<lambda>c. c \<noteq> newline) (l @ newline # rest) = l"
    using assms(1) by (metis (mono_tags, lifting) append_Nil2 takeWhile.simps(2) takeWhile_append2)
  with assms(2) show ?thesis by (simp add: scan_def Let_def)
qed

lemma scan_Nil [simp]: "scan [] = None"
  by (simp add: scan_def)

lemma get_loop_Nil [simp]: "get_loop cs [] = Ok cs"
  by (subst get_loop.simps) simp

lemma get_loop_line:
  assumes "newline \<notin> set l" and "length l < max_token"
  shows "get_loop cs (l @ newline # rest) =
    bind_result (parseRecord (drop_cr l)) (\<lambda>r. get_loop (cs @ [r]) rest)"
  using assms by (subst get_loop.simps) (simp add: scan_line)

text \<open>The reader never panics: every index it uses is in range.\<close>

lemma parseRecord_no_panic: "parseRecord rec \<noteq> Panic m"
  by (simp add: parseRecord_def Let_def)

lemma get_loop_no_panic: "get_loop cs data \<noteq> Panic m"
proof (induction cs data rule: get_loop.induct)
  case (1 cs data)
  then show ?case
    by (subst get_loop.simps)
      (auto simp: bind_result_Panic_iff parseRecord_no_panic split: option.splits)
qed

subsection \<open>Records that survive the format\<close>

text \<open>
  What a hash and a path must be for the record built from them to be read back: the hash
  has no blank, neither starts or ends with white space, the path has no two blanks in a
  row, no newline, and does not start with a blank, and the line fits the scanner's buffer.
\<close>

definition has_double_blank :: "string \<Rightarrow> bool" where
  "has_double_blank s \<longleftrightarrow> length (split s ''  '') \<noteq> 1"

definition record_safe :: "string \<Rightarrow> string \<Rightarrow> bool" where
  "record_safe h p \<longleftrightarrow>
     CHR '' '' \<notin> set h \<and> newline \<notin> set h \<and> trimmed h \<and>
     \<not> has_double_blank p \<and> newline \<notin> set p \<and> trimmed p \<and> p \<noteq> [] \<and>
     length h + length p + 2 < max_token"

lemma split_double_blank:
  "\<not> has_double_blank p \<Longrightarrow> split p ''  '' = [p]"
proof -
  assume "\<not> has_double_blank p"
  then obtain x where "split p ''  '' = [x]"
    by (auto simp: has_double_blank_def length_Suc_conv)
  then show ?thesis using join_split [of "''  ''" p] by simp
qed

lemma parseRecord_safe:
  assumes "record_safe h p"
  shows "parseRecord (h @ ''  '' @ p) =
    Ok \<lparr>hdo_ID = 0, hdo_Hash = h, hdo_FullFileName = p, hdo_Algorithm = [],
        hdo_NamePod = [], hdo_ReleaseId = 0\<rparr>"
proof -
  have "split (h @ ''  '' @ p) ''  '' = [h, p]"
    using assms split_sep [of "''  ''" h p] split_double_blank [of p]
    by (simp add: record_safe_def)
  with assms show ?thesis
    by (simp add: parseRecord_def record_safe_def trim_space_trimmed)
qed

lemma drop_cr_safe: "record_safe h p \<Longrightarrow> drop_cr (h @ ''  '' @ p) = h @ ''  '' @ p"
proof -
  assume s: "record_safe h p"
  then have "\<not> has_suffix p [CHR 0x0D]" and "p \<noteq> []"
    by (auto simp: record_safe_def trimmed_def list_all_iff space_runes_def)
  then have "last p \<noteq> CHR 0x0D"
    by (auto simp: has_suffix_def has_prefix_def take_Suc hd_rev)
  with s show ?thesis by (simp add: drop_cr_def record_safe_def)
qed

end
