(* ===== verification/Snapshot.thy ===== *)
theory Snapshot
  imports Worker_Pool Checksums
begin

text \<open>
  The snapshot tool: internal/integritymonitor/snapshot.go, which writes the baseline that the
  monitor compares with. The pipeline of the theory Worker_Pool delivers the hashes of a
  directory in some order; the schedule that decides it is an argument.
\<close>

text \<open>
  What the tool meets outside: \<open>os.Create\<close>, \<open>os.Stat\<close>, \<open>Lstat\<close>, the bytes that the disk has
  room for, and the hashes that a run of the pipeline hands to its consumer for the file names
  its walker sends.
\<close>

record snapshot_env =
  se_create :: "string \<Rightarrow> go_error option"
  se_stat :: "string \<Rightarrow> go_error option"
  se_lstat :: "string \<Rightarrow> go_error + file_node"
  se_room :: nat
  se_pool :: "string \<Rightarrow> string list list \<Rightarrow> file_hash list"

record snapshot_config =
  sc_root_fs :: string
  sc_dir :: "string list"
  sc_out :: string
  sc_algorithm :: string

definition ErrNotExist :: go_error where
  "ErrNotExist = ErrNew ''no such file or directory''"

definition ErrNoSpace :: go_error where
  "ErrNoSpace = ErrNew ''no space left on device''"

text \<open>\<open>os.IsNotExist\<close> looks below the operation and path of a path error.\<close>

fun is_not_exist :: "go_error \<Rightarrow> bool" where
  "is_not_exist (ErrWrap m e) = (e = ErrNotExist)"
| "is_not_exist e = (e = ErrNotExist)"

text \<open>\<open>file.WriteString\<close> on the file's content: what fits is written, the error says if not all did.\<close>

definition WriteString :: "nat \<Rightarrow> string \<Rightarrow> string \<Rightarrow> string \<times> go_error option" where
  "WriteString room file s =
     (if length file + length s \<le> room then (file @ s, None)
      else (file @ take (room - length file) s, Some ErrNoSpace))"

definition hash_line :: "file_hash \<Rightarrow> string" where
  "hash_line v = fh_Hash v @ ''  '' @ fh_Path v @ [newline]"

fun writeAsPlainText :: "nat \<Rightarrow> string \<Rightarrow> file_hash list \<Rightarrow> string \<times> go_error option" where
  "writeAsPlainText room file [] = (file, None)"
| "writeAsPlainText room file (v # vs) =
     (case WriteString room file (hash_line v) of
        (file', None) \<Rightarrow> writeAsPlainText room file' vs
      | (file', Some err) \<Rightarrow> (file', Some err))"

definition HashDir :: "snapshot_env \<Rightarrow> string \<Rightarrow> string \<Rightarrow> string \<Rightarrow> file_hash list" where
  "HashDir env rootPath pathToMonitor alg =
     foldl (\<lambda>hashes v. hashes @ [v\<lparr>fh_Path := trim_prefix (fh_Path v) rootPath\<rparr>]) []
       (se_pool env alg (chan_walk_dir (se_lstat env) [rootPath @ pathToMonitor]))"

text \<open>The loop over the directories.\<close>

fun hash_dirs ::
    "snapshot_env \<Rightarrow> string \<Rightarrow> string \<Rightarrow> string list \<Rightarrow> file_hash list \<Rightarrow> go_error + file_hash list" where
  "hash_dirs env rootPath alg [] hashes = Inr hashes"
| "hash_dirs env rootPath alg (v # dirs) hashes =
     (case se_stat env (rootPath @ v) of
        Some err \<Rightarrow>
          if is_not_exist err then Inl err
          else hash_dirs env rootPath alg dirs (hashes @ HashDir env rootPath v alg)
      | None \<Rightarrow> hash_dirs env rootPath alg dirs (hashes @ HashDir env rootPath v alg))"

text \<open>
  The files of the host are a map. The deferred function closes the output file and removes it
  if the variable \<open>err\<close>, which both returns have set, is not nil.
\<close>

definition CalculateAndWriteHashes ::
    "snapshot_env \<Rightarrow> snapshot_config \<Rightarrow> (string \<Rightarrow> string option) \<Rightarrow>
     (string \<Rightarrow> string option) \<times> go_error option" where
  "CalculateAndWriteHashes env cfg files =
     (let rootPath = sc_root_fs cfg @ ''/''; out = sc_out cfg in
      case se_create env out of
        Some err \<Rightarrow> (files, Some err)
      | None \<Rightarrow>
          (case hash_dirs env rootPath (sc_algorithm cfg) (sc_dir cfg) [] of
             Inl err \<Rightarrow> (files(out := None), Some err)
           | Inr hashes \<Rightarrow>
               (case writeAsPlainText (se_room env) [] hashes of
                  (content, None) \<Rightarrow> (files(out \<mapsto> content), None)
                | (content, Some err) \<Rightarrow> (files(out := None), Some err))))"

subsection \<open>What is written\<close>

definition render :: "file_hash list \<Rightarrow> string" where
  "render vs = concat (map hash_line vs)"

definition strip_root :: "string \<Rightarrow> file_hash \<Rightarrow> file_hash" where
  "strip_root rootPath v = v\<lparr>fh_Path := trim_prefix (fh_Path v) rootPath\<rparr>"

lemma writeAsPlainText_fits:
  "length c + length (render vs) \<le> room \<Longrightarrow>
   writeAsPlainText room c vs = (c @ render vs, None)"
  by (induction vs arbitrary: c) (auto simp: render_def WriteString_def)

lemma writeAsPlainText_full:
  "room < length c + length (render vs) \<Longrightarrow>
   snd (writeAsPlainText room c vs) = (if vs = [] then None else Some ErrNoSpace)"
proof (induction vs arbitrary: c)
  case (Cons v vs)
  then show ?case
    by (cases "vs = []") (auto simp: render_def WriteString_def)
qed simp

lemma HashDir_map:
  "HashDir env rootPath v alg =
     map (strip_root rootPath) (se_pool env alg (chan_walk_dir (se_lstat env) [rootPath @ v]))"
proof -
  have "foldl (\<lambda>hashes v. hashes @ [v\<lparr>fh_Path := trim_prefix (fh_Path v) rootPath\<rparr>]) hs vs =
      hs @ map (strip_root rootPath) vs" for hs vs
    by (induction vs arbitrary: hs) (auto simp: strip_root_def)
  then show ?thesis by (simp add: HashDir_def)
qed

lemma hash_dirs_Inr:
  "hash_dirs env rootPath alg dirs hs = Inr hashes \<Longrightarrow>
   hashes = hs @ concat (map (\<lambda>v. HashDir env rootPath v alg) dirs)"
proof (induction dirs arbitrary: hs)
  case (Cons v dirs)
  from Cons.prems have "hash_dirs env rootPath alg dirs (hs @ HashDir env rootPath v alg) = Inr hashes"
    by (simp split: option.splits if_splits)
  from Cons.IH [OF this] show ?case by simp
qed simp

lemma hash_dirs_Inl_iff:
  "(\<exists>err. hash_dirs env rootPath alg dirs hs = Inl err) \<longleftrightarrow>
   (\<exists>v \<in> set dirs. \<exists>err. se_stat env (rootPath @ v) = Some err \<and> is_not_exist err)"
  by (induction dirs arbitrary: hs) (auto split: option.splits)

subsection \<open>What is read back\<close>

definition record_of :: "file_hash \<Rightarrow> hash_data_output" where
  "record_of v = \<lparr>hdo_ID = 0, hdo_Hash = fh_Hash v, hdo_FullFileName = fh_Path v,
     hdo_Algorithm = [], hdo_NamePod = [], hdo_ReleaseId = 0\<rparr>"

definition line_safe :: "file_hash \<Rightarrow> bool" where
  "line_safe v \<longleftrightarrow> record_safe (fh_Hash v) (fh_Path v)"

lemma hash_line_shape:
  "hash_line v @ rest = (fh_Hash v @ ''  '' @ fh_Path v) @ newline # rest"
  by (simp add: hash_line_def)

lemma get_loop_safe_line:
  assumes "line_safe v"
  shows "get_loop cs (hash_line v @ rest) = get_loop (cs @ [record_of v]) rest"
proof -
  let ?l = "fh_Hash v @ ''  '' @ fh_Path v"
  have s: "record_safe (fh_Hash v) (fh_Path v)" using assms by (simp add: line_safe_def)
  then have "newline \<notin> set ?l" and "length ?l < max_token"
    by (auto simp: record_safe_def newline_def)
  then show ?thesis
    unfolding hash_line_shape
    by (simp add: get_loop_line drop_cr_safe [OF s, simplified] parseRecord_safe [OF s, simplified]
        record_of_def del: append_assoc)
qed

lemma get_loop_render:
  "list_all line_safe vs \<Longrightarrow> get_loop cs (render vs @ rest) = get_loop (cs @ map record_of vs) rest"
proof (induction vs arbitrary: cs)
  case (Cons v vs)
  then show ?case using get_loop_safe_line [of v cs "render vs @ rest"] by (simp add: render_def)
qed (simp add: render_def)

lemma Get_render: "list_all line_safe vs \<Longrightarrow> checksums_Get (render vs) = Ok (map record_of vs)"
  using get_loop_render [of vs "[]" "[]"] by (simp add: checksums_Get_def)

subsection \<open>Properties\<close>

text \<open>
  Property C10. The text form is read back as it was written: if every hash and path survives
  the format (\<open>line_safe\<close>) and the disk has room, then reading what \<open>writeAsPlainText\<close> wrote
  gives one record per hash, in the same order.
\<close>

theorem snapshot_read_back:
  assumes "list_all line_safe vs" and "length (render vs) \<le> room"
  shows "snd (writeAsPlainText room [] vs) = None \<and>
    checksums_Get (fst (writeAsPlainText room [] vs)) = Ok (map record_of vs)"
  using assms writeAsPlainText_fits [of "[]" vs room] by (simp add: Get_render)

abbreviation two_hashes :: "file_hash list" where
  "two_hashes \<equiv> [\<lparr>fh_Path = ''app/a b'', fh_Hash = ''0c''\<rparr>, \<lparr>fh_Path = ''bin/x'', fh_Hash = ''ff''\<rparr>]"

lemma two_hashes_safe: "list_all line_safe two_hashes"
proof -
  have "trimmed ''0c''" "trimmed ''ff''" "trimmed ''app/a b''" "trimmed ''bin/x''"
    "\<not> has_double_blank ''app/a b''" "\<not> has_double_blank ''bin/x''"
    by code_simp+
  then show ?thesis by (simp add: line_safe_def record_safe_def newline_def max_token_def)
qed

theorem snapshot_read_back_witness:
  "checksums_Get (fst (writeAsPlainText 100 [] two_hashes)) = Ok (map record_of two_hashes)"
proof -
  have "length (render two_hashes) \<le> 100" by (simp add: render_def hash_line_def)
  with snapshot_read_back [of two_hashes 100] two_hashes_safe show ?thesis by simp
qed

text \<open>
  Property C16. The outcome of the snapshot tool in every case: if the output file cannot be
  created, nothing changes; if a directory is missing, or the disk is too small for the text,
  an error is returned and no output file is left; otherwise the output file holds exactly one
  line per hash, directory after directory, with the root's prefix removed. No other file is
  touched.
\<close>

theorem snapshot_outcome:
  "(let rootPath = sc_root_fs cfg @ ''/'';
        hashes = concat (map (\<lambda>v. map (strip_root rootPath)
          (se_pool env (sc_algorithm cfg) (chan_walk_dir (se_lstat env) [rootPath @ v]))) (sc_dir cfg));
        missing = list_ex (\<lambda>v. case se_stat env (rootPath @ v) of
          Some err \<Rightarrow> is_not_exist err | None \<Rightarrow> False) (sc_dir cfg);
        (files', err) = CalculateAndWriteHashes env cfg files
    in if se_create env (sc_out cfg) \<noteq> None
       then files' = files \<and> err = se_create env (sc_out cfg)
       else if missing \<or> se_room env < length (render hashes)
       then files' = files(sc_out cfg := None) \<and> err \<noteq> None
       else files' = files(sc_out cfg \<mapsto> render hashes) \<and> err = None)"
proof -
  let ?root = "sc_root_fs cfg @ ''/''"
  let ?hd = "hash_dirs env ?root (sc_algorithm cfg) (sc_dir cfg) []"
  let ?hashes = "concat (map (\<lambda>v. map (strip_root ?root)
      (se_pool env (sc_algorithm cfg) (chan_walk_dir (se_lstat env) [?root @ v]))) (sc_dir cfg))"
  let ?missing = "list_ex (\<lambda>v. case se_stat env (?root @ v) of
      Some err \<Rightarrow> is_not_exist err | None \<Rightarrow> False) (sc_dir cfg)"
  have miss: "?missing \<longleftrightarrow> (\<exists>err. ?hd = Inl err)"
    unfolding hash_dirs_Inl_iff by (auto simp: list_ex_iff split: option.splits)
  have found: "hashes = ?hashes" if "?hd = Inr hashes" for hashes
    using hash_dirs_Inr [OF that] by (simp add: HashDir_map)
  show ?thesis
  proof (cases "se_create env (sc_out cfg)")
    case (Some err)
    then show ?thesis by (simp add: CalculateAndWriteHashes_def Let_def)
  next
    case create: None
    show ?thesis
    proof (cases ?hd)
      case (Inl err)
      with create miss show ?thesis by (simp add: CalculateAndWriteHashes_def Let_def)
    next
      case (Inr hashes)
      note h = found [OF Inr]
      have nm: "\<not> ?missing" using Inr miss by simp
      show ?thesis
      proof (cases "se_room env < length (render ?hashes)")
        case True
        then have "?hashes \<noteq> []" by (metis gr_implies_not0 concat.simps(1) list.map(1) list.size(3) render_def)
        with writeAsPlainText_full [of "se_room env" "[]" ?hashes] True
        obtain content where "writeAsPlainText (se_room env) [] ?hashes = (content, Some ErrNoSpace)"
          by (cases "writeAsPlainText (se_room env) [] ?hashes") auto
        with create Inr True h show ?thesis by (simp add: CalculateAndWriteHashes_def Let_def)
      next
        case False
        with writeAsPlainText_fits [of "[]" ?hashes "se_room env"] create Inr nm h show ?thesis
          by (simp add: CalculateAndWriteHashes_def Let_def)
      qed
    qed
  qed
qed

text \<open>
  Property C38. A line that does not fit the scanner's buffer ends the reading without an error:
  the records before it are returned as if they were the whole baseline, whatever follows.
\<close>

theorem overlong_line_ends_baseline:
  assumes "list_all line_safe vs" and "newline \<notin> set l" and "max_token \<le> length l"
  shows "checksums_Get (render vs @ l @ newline # rest) = Ok (map record_of vs)"
proof -
  have "takeWhile (\<lambda>c. c \<noteq> newline) (l @ newline # rest) = l"
    using assms(2) by (metis (mono_tags, lifting) append_Nil2 takeWhile.simps(2) takeWhile_append2)
  with assms(3) have "scan (l @ newline # rest) = None"
    by (auto simp: scan_def Let_def max_token_def)
  then have "get_loop cs (l @ newline # rest) = Ok cs" for cs
    by (subst get_loop.simps) simp
  with get_loop_render [OF assms(1)] show ?thesis by (simp add: checksums_Get_def)
qed

theorem overlong_line_ends_baseline_witness:
  "checksums_Get (render two_hashes @ replicate 65536 (CHR ''a'') @ newline # ''ff  bin/y'') =
   Ok (map record_of two_hashes)"
  by (rule overlong_line_ends_baseline [OF two_hashes_safe]) (simp_all add: newline_def max_token_def)

text \<open>
  A file name with two blanks in a row does not survive: the name read back ends
  before the blanks.
\<close>

lemma double_blank_cuts_name:
  assumes "record_safe h p" and "CHR '' '' \<notin> set p" and "newline \<notin> set q"
    and "length h + length p + length q + 4 < max_token" and "q \<noteq> []" and "last q \<noteq> CHR 0x0D"
  shows "checksums_Get (render [\<lparr>fh_Path = p @ ''  '' @ q, fh_Hash = h\<rparr>]) =
    Ok [record_of \<lparr>fh_Path = p, fh_Hash = h\<rparr>]"
proof -
  let ?l = "h @ ''  '' @ p @ ''  '' @ q"
  have n: "newline \<notin> set ?l" "length ?l < max_token"
    using assms by (auto simp: record_safe_def newline_def)
  have cr: "drop_cr ?l = ?l" using assms(5,6) by (simp add: drop_cr_def)
  have "split ?l ''  '' = h # p # split q ''  ''"
    using split_sep [of "''  ''" h "p @ ''  '' @ q"] split_sep [of "''  ''" p q] assms(1,2)
    by (simp add: record_safe_def)
  moreover have "length (h # p # split q ''  '') \<ge> 2" by simp
  ultimately have "parseRecord ?l = Ok (record_of \<lparr>fh_Path = p, fh_Hash = h\<rparr>)"
    using assms(1) by (simp add: parseRecord_def record_safe_def trim_space_trimmed record_of_def)
  with get_loop_line [OF n, of "[]" "[]"] cr show ?thesis
    by (simp add: checksums_Get_def render_def hash_line_def)
qed

end
