(* ===== verification/Compare.thy ===== *)
theory Compare
  imports Worker_Pool Checksums Process "HOL-Library.AList"
begin

text \<open>
  The comparison of the running files with the baseline: \<open>compareHashes\<close> of
  internal/integritymonitor/integritymonitor.go, as a function of the hashes it receives from
  the channel. Its result is what the goroutine sends: \<open>Ok n\<close> on \<open>doneC\<close>, \<open>Fail e\<close> on \<open>errC\<close>.
  The interleaving with its caller and the cancelled context are in the theory Check_Protocol.

  The Go map is an association list with distinct keys. The loop that reports a deleted file
  takes the first key of a map iteration, whose order Go leaves open: \<open>pick\<close> chooses it.
\<close>

definition expected_map :: "hash_data_output list \<Rightarrow> (string \<times> string) list" where
  "expected_map expectedHashes =
     foldl (\<lambda>m h. AList.update (hdo_FullFileName h) (hdo_Hash h) m) [] expectedHashes"

fun compare_loop ::
    "string \<Rightarrow> (string \<times> string) list \<Rightarrow> file_hash list \<Rightarrow>
     integrity_error + (string \<times> string) list" where
  "compare_loop procDirs m [] = Inr m"
| "compare_loop procDirs m (v # vs) =
     (let strippedPaths = trim_prefix (fh_Path v) procDirs in
      case map_of m strippedPaths of
        Some h \<Rightarrow>
          if h \<noteq> fh_Hash v
          then Inl \<lparr>ie_Type = ErrTypeFileMismatch, ie_Path = strippedPaths, ie_Hash = fh_Hash v\<rparr>
          else compare_loop procDirs (AList.delete strippedPaths m) vs
      | None \<Rightarrow> Inl \<lparr>ie_Type = ErrTypeNewFile, ie_Path = strippedPaths, ie_Hash = fh_Hash v\<rparr>)"

definition deleted_file :: "nat \<Rightarrow> (string \<times> string) list \<Rightarrow> integrity_error option" where
  "deleted_file pick m =
     (if m = [] then None
      else let (p, h) = m ! (pick mod length m) in
        Some \<lparr>ie_Type = ErrTypeFileDeleted, ie_Path = p, ie_Hash = h\<rparr>)"

definition compare_expected ::
    "string \<Rightarrow> hash_data_output list \<Rightarrow> file_hash list \<Rightarrow> nat \<Rightarrow> nat result" where
  "compare_expected procDirs expectedHashes hashes pick =
     (case compare_loop procDirs (expected_map expectedHashes) hashes of
        Inl e \<Rightarrow> Fail (ErrIntegrity e)
      | Inr m \<Rightarrow>
          (case deleted_file pick m of
             Some e \<Rightarrow> Fail (ErrIntegrity e)
           | None \<Rightarrow> Ok (length expectedHashes)))"

text \<open>
  What the goroutine does before its loop: the process's root as prefix, and the records of the
  baseline. \<open>load bucket object\<close> is \<open>Storage.Load\<close> of the MinIO storage.
\<close>

definition compare_prepare ::
    "(string \<Rightarrow> string option) \<Rightarrow> (string \<Rightarrow> string \<Rightarrow> string result) \<Rightarrow> config \<Rightarrow>
     string \<Rightarrow> string \<Rightarrow> (string \<times> hash_data_output list) result" where
  "compare_prepare pidof load cfg procName algName =
     bind_result (wrap_error ''failed get process path'' (GetProcessPath pidof procName [])) (\<lambda>procDirs.
     bind_result (wrap_error ''failed getting check sum file name''
       (CheckSumFile cfg procName algName)) (\<lambda>csFile.
     bind_result (wrap_error ''cannot read hash data''
       (load (cfg_minio_bucket cfg) csFile)) (\<lambda>hashData.
     bind_result (wrap_error ''failed get hash data'' (checksums_Get hashData)) (\<lambda>expectedHashes.
     Ok (procDirs, expectedHashes)))))"

definition compareHashes ::
    "(string \<Rightarrow> string option) \<Rightarrow> (string \<Rightarrow> string \<Rightarrow> string result) \<Rightarrow> config \<Rightarrow>
     string \<Rightarrow> string \<Rightarrow> file_hash list \<Rightarrow> nat \<Rightarrow> nat result" where
  "compareHashes pidof load cfg procName algName hashes pick =
     bind_result (compare_prepare pidof load cfg procName algName) (\<lambda>(procDirs, expectedHashes).
     compare_expected procDirs expectedHashes hashes pick)"

subsection \<open>The baseline as a map\<close>

definition record_entry :: "hash_data_output \<Rightarrow> string \<times> string" where
  "record_entry h = (hdo_FullFileName h, hdo_Hash h)"

definition file_entry :: "string \<Rightarrow> file_hash \<Rightarrow> string \<times> string" where
  "file_entry procDirs v = (trim_prefix (fh_Path v) procDirs, fh_Hash v)"

text \<open>Of several records of one file the last one counts.\<close>

definition baseline :: "hash_data_output list \<Rightarrow> string \<Rightarrow> string option" where
  "baseline expectedHashes = map_of (rev (map record_entry expectedHashes))"

lemma expected_map_foldl:
  "map_of (foldl (\<lambda>m h. AList.update (hdo_FullFileName h) (hdo_Hash h) m) m hs) =
     map_of m ++ map_of (rev (map record_entry hs))"
proof (induction hs arbitrary: m)
  case (Cons h hs)
  have "map_of (AList.update (hdo_FullFileName h) (hdo_Hash h) m) =
      map_of m ++ [hdo_FullFileName h \<mapsto> hdo_Hash h]"
    by (rule ext) (simp add: update_conv map_add_def)
  moreover have "map_of (rev (map record_entry (h # hs))) =
      [hdo_FullFileName h \<mapsto> hdo_Hash h] ++ map_of (rev (map record_entry hs))"
    by (simp add: record_entry_def)
  ultimately show ?case by (simp only: foldl_Cons Cons.IH map_add_assoc)
qed simp

lemma map_of_expected_map: "map_of (expected_map hs) = baseline hs"
  by (simp add: expected_map_def baseline_def expected_map_foldl)

lemma distinct_expected_map: "distinct (map fst (expected_map hs))"
proof -
  have "distinct (map fst m) \<Longrightarrow>
    distinct (map fst (foldl (\<lambda>m h. AList.update (hdo_FullFileName h) (hdo_Hash h) m) m hs))" for m
    by (induction hs arbitrary: m) (auto intro: distinct_update)
  then show ?thesis by (simp add: expected_map_def)
qed

subsection \<open>The loop\<close>

lemma compare_loop_match:
  "map_of m (trim_prefix (fh_Path v) procDirs) = Some (fh_Hash v) \<Longrightarrow>
   compare_loop procDirs m (v # vs) =
     compare_loop procDirs (AList.delete (trim_prefix (fh_Path v) procDirs) m) vs"
  by simp

lemma compare_loop_no_match:
  "map_of m (trim_prefix (fh_Path v) procDirs) \<noteq> Some (fh_Hash v) \<Longrightarrow>
   compare_loop procDirs m (v # vs) =
     Inl \<lparr>ie_Type = (if map_of m (trim_prefix (fh_Path v) procDirs) = None
                      then ErrTypeNewFile else ErrTypeFileMismatch),
          ie_Path = trim_prefix (fh_Path v) procDirs, ie_Hash = fh_Hash v\<rparr>"
  by (auto split: option.splits)

declare compare_loop.simps(2) [simp del]

text \<open>The keys that are left after the files of a list have been matched.\<close>

definition unmatched :: "string \<Rightarrow> file_hash list \<Rightarrow> (string \<times> string) list \<Rightarrow> (string \<times> string) list" where
  "unmatched procDirs vs m = filter (\<lambda>e. fst e \<notin> fst ` file_entry procDirs ` set vs) m"

lemma unmatched_Cons:
  "unmatched procDirs (v # vs) m =
     unmatched procDirs vs (AList.delete (trim_prefix (fh_Path v) procDirs) m)"
  by (auto simp: unmatched_def AList.delete_eq file_entry_def intro: filter_cong)

lemma compare_loop_Inr_iff:
  "compare_loop procDirs m vs = Inr m' \<longleftrightarrow>
     distinct (map (fst \<circ> file_entry procDirs) vs) \<and>
     (\<forall>v \<in> set vs. map_of m (fst (file_entry procDirs v)) = Some (fh_Hash v)) \<and>
     m' = unmatched procDirs vs m"
proof (induction vs arbitrary: m)
  case Nil
  then show ?case by (auto simp: unmatched_def)
next
  case (Cons v vs)
  let ?p = "trim_prefix (fh_Path v) procDirs"
  let ?hit = "\<lambda>m u. map_of m (fst (file_entry procDirs u)) = Some (fh_Hash u)"
  show ?case
  proof (cases "map_of m ?p = Some (fh_Hash v)")
    case False
    then show ?thesis by (simp add: compare_loop_no_match file_entry_def)
  next
    case True
    have hit: "?hit (AList.delete ?p m) u \<longleftrightarrow> fst (file_entry procDirs u) \<noteq> ?p \<and> ?hit m u" for u
      by (simp add: delete_conv')
    have "fst (file_entry procDirs v) = ?p" by (simp add: file_entry_def)
    then have "distinct (map (fst \<circ> file_entry procDirs) (v # vs)) \<longleftrightarrow>
        distinct (map (fst \<circ> file_entry procDirs) vs) \<and>
        (\<forall>u \<in> set vs. fst (file_entry procDirs u) \<noteq> ?p)"
      by (auto simp: image_iff)
    moreover have "(\<forall>u \<in> set (v # vs). ?hit m u) \<longleftrightarrow> (\<forall>u \<in> set vs. ?hit m u)"
      using True by (simp add: file_entry_def)
    ultimately show ?thesis
      unfolding compare_loop_match [OF True] Cons.IH hit unmatched_Cons by blast
  qed
qed

text \<open>
  An error is about a file received: the first one, in the order of arrival, whose path
  is not in the baseline any more or whose hash differs.
\<close>

lemma compare_loop_Inl:
  "compare_loop procDirs m vs = Inl e \<Longrightarrow>
   \<exists>us v ws. vs = us @ v # ws \<and> ie_Path e = fst (file_entry procDirs v) \<and> ie_Hash e = fh_Hash v \<and>
     (if ie_Path e \<in> fst ` file_entry procDirs ` set us \<or> map_of m (ie_Path e) = None
      then ie_Type e = ErrTypeNewFile
      else ie_Type e = ErrTypeFileMismatch \<and> map_of m (ie_Path e) \<noteq> Some (fh_Hash v))"
proof (induction vs arbitrary: m)
  case (Cons v vs)
  let ?p = "trim_prefix (fh_Path v) procDirs"
  show ?case
  proof (cases "map_of m ?p = Some (fh_Hash v)")
    case False
    with Cons.prems have e: "e = \<lparr>ie_Type = (if map_of m ?p = None then ErrTypeNewFile
        else ErrTypeFileMismatch), ie_Path = ?p, ie_Hash = fh_Hash v\<rparr>"
      by (simp add: compare_loop_no_match)
    show ?thesis
      by (rule exI [of _ "[]"], rule exI [of _ v], rule exI [of _ vs])
        (use False in \<open>simp add: e file_entry_def\<close>)
  next
    case True
    with Cons.prems Cons.IH [of "AList.delete ?p m"] obtain us u ws where
      u: "vs = us @ u # ws" "ie_Path e = fst (file_entry procDirs u)" "ie_Hash e = fh_Hash u"
        "if ie_Path e \<in> fst ` file_entry procDirs ` set us \<or>
            map_of (AList.delete ?p m) (ie_Path e) = None
         then ie_Type e = ErrTypeNewFile
         else ie_Type e = ErrTypeFileMismatch \<and>
            map_of (AList.delete ?p m) (ie_Path e) \<noteq> Some (fh_Hash u)"
      by (auto simp: compare_loop_match)
    have v: "fst (file_entry procDirs v) = ?p" by (simp add: file_entry_def)
    have m: "map_of (AList.delete ?p m) (ie_Path e) =
        (if ie_Path e = ?p then None else map_of m (ie_Path e))"
      by (simp add: delete_conv')
    have t: "if ie_Path e \<in> fst ` file_entry procDirs ` set (v # us) \<or> map_of m (ie_Path e) = None
        then ie_Type e = ErrTypeNewFile
        else ie_Type e = ErrTypeFileMismatch \<and> map_of m (ie_Path e) \<noteq> Some (fh_Hash u)"
      using u(4) unfolding m by (auto simp: v split: if_splits)
    show ?thesis
      by (rule exI [of _ "v # us"], rule exI [of _ u], rule exI [of _ ws])
        (use u(1-3) t in simp)
  qed
qed simp

subsection \<open>The verdict\<close>

lemma file_entry_eq: "file_entry procDirs v = (fst (file_entry procDirs v), fh_Hash v)"
  by (simp add: file_entry_def)

lemma distinct_map_of:
  "distinct (map fst es) \<Longrightarrow> map_of es k = Some x \<longleftrightarrow> (k, x) \<in> set es"
  by (simp add: map_of_eq_Some_iff)

text \<open>
  The files match a map exactly: no path twice, every file has its entry, every entry its
  file.
\<close>

lemma matches_exactly_iff:
  assumes "distinct (map fst m)"
  shows "distinct (map fst es) \<and> (\<forall>e \<in> set es. map_of m (fst e) = Some (snd e)) \<and>
      (\<forall>e \<in> set m. fst e \<in> fst ` set es) \<longleftrightarrow>
    distinct (map fst es) \<and> map_of es = map_of m"
proof (rule conj_cong [OF refl])
  assume d: "distinct (map fst es)"
  show "(\<forall>e \<in> set es. map_of m (fst e) = Some (snd e)) \<and> (\<forall>e \<in> set m. fst e \<in> fst ` set es) \<longleftrightarrow>
      map_of es = map_of m"
  proof
    assume l: "(\<forall>e \<in> set es. map_of m (fst e) = Some (snd e)) \<and> (\<forall>e \<in> set m. fst e \<in> fst ` set es)"
    show "map_of es = map_of m"
    proof (rule map_le_antisym)
      show "map_of es \<subseteq>\<^sub>m map_of m"
        using l d by (force simp: map_le_def map_of_eq_Some_iff)
      show "map_of m \<subseteq>\<^sub>m map_of es"
      proof (unfold map_le_def, rule ballI)
        fix k assume "k \<in> dom (map_of m)"
        then have "k \<in> fst ` set es" using l by (auto simp: dom_map_of_conv_image_fst)
        then obtain x where "(k, x) \<in> set es" by auto
        with l d show "map_of m k = map_of es k" by (auto simp: map_of_eq_Some_iff)
      qed
    qed
  next
    assume r: "map_of es = map_of m"
    then have "fst ` set es = fst ` set m" by (metis dom_map_of_conv_image_fst)
    with r d show "(\<forall>e \<in> set es. map_of m (fst e) = Some (snd e)) \<and>
        (\<forall>e \<in> set m. fst e \<in> fst ` set es)"
      by (auto simp flip: r)
  qed
qed

lemma unmatched_Nil_iff:
  "unmatched procDirs vs m = [] \<longleftrightarrow> (\<forall>e \<in> set m. fst e \<in> fst ` set (map (file_entry procDirs) vs))"
  by (auto simp: unmatched_def filter_empty_conv)

lemma compare_expected_Ok_iff:
  "compare_expected procDirs expectedHashes hashes pick = Ok n \<longleftrightarrow>
     n = length expectedHashes \<and>
     distinct (map fst (map (file_entry procDirs) hashes)) \<and>
     map_of (map (file_entry procDirs) hashes) = baseline expectedHashes"
proof -
  have "compare_expected procDirs expectedHashes hashes pick = Ok n \<longleftrightarrow>
      n = length expectedHashes \<and>
      compare_loop procDirs (expected_map expectedHashes) hashes = Inr []"
    by (auto simp: compare_expected_def deleted_file_def case_prod_unfold Let_def
        split: sum.splits if_splits)
  also have "\<dots> \<longleftrightarrow> n = length expectedHashes \<and>
      (distinct (map fst (map (file_entry procDirs) hashes)) \<and>
       (\<forall>e \<in> set (map (file_entry procDirs) hashes).
          map_of (expected_map expectedHashes) (fst e) = Some (snd e)) \<and>
       (\<forall>e \<in> set (expected_map expectedHashes). fst e \<in> fst ` set (map (file_entry procDirs) hashes)))"
    unfolding compare_loop_Inr_iff using unmatched_Nil_iff [of procDirs hashes]
    by (auto simp: file_entry_def comp_def eq_commute [of "[]"])
  also have "\<dots> \<longleftrightarrow> n = length expectedHashes \<and>
      distinct (map fst (map (file_entry procDirs) hashes)) \<and>
      map_of (map (file_entry procDirs) hashes) = baseline expectedHashes"
    unfolding matches_exactly_iff [OF distinct_expected_map] by (simp add: map_of_expected_map)
  finally show ?thesis .
qed

text \<open>The verdict does not depend on the order in which the hashes arrive.\<close>

lemma compare_expected_order:
  assumes "mset hashes = mset hashes'"
  shows "compare_expected procDirs expectedHashes hashes pick = Ok n \<longleftrightarrow>
    compare_expected procDirs expectedHashes hashes' pick' = Ok n"
proof -
  let ?e = "map (file_entry procDirs)"
  have m: "mset (?e hashes) = mset (?e hashes')" using assms by simp
  then have d: "distinct (map fst (?e hashes)) \<longleftrightarrow> distinct (map fst (?e hashes'))"
    by (metis mset_map mset_eq_imp_distinct_iff)
  have "set (?e hashes) = set (?e hashes')" using m by (rule mset_eq_setD)
  then have "map_of (?e hashes) = map_of (?e hashes')" if "distinct (map fst (?e hashes))"
    using that d map_of_inject_set by blast
  with d show ?thesis unfolding compare_expected_Ok_iff by metis
qed

text \<open>
  Property C5. The comparison succeeds exactly if no path was delivered twice and the paths
  (relative to the process's root) with their hashes are exactly the baseline, of several
  records of a path the last one; the number reported is that of the records.
\<close>

theorem compare_accepts_iff:
  "compare_expected procDirs expectedHashes hashes pick = Ok n \<longleftrightarrow>
     n = length expectedHashes \<and>
     distinct (map fst (map (file_entry procDirs) hashes)) \<and>
     map_of (map (file_entry procDirs) hashes) = baseline expectedHashes"
  by (rule compare_expected_Ok_iff)

text \<open>
  What an error says is true of the files and the baseline. A mismatch names a file received
  whose recorded hash is another; a new file one that was received and is not recorded, or
  was received before; a deleted file one that is recorded and was not received, with the
  recorded hash.
\<close>

definition error_justified ::
    "(string \<Rightarrow> string option) \<Rightarrow> (string \<times> string) list \<Rightarrow> integrity_error \<Rightarrow> bool" where
  "error_justified recorded found e \<longleftrightarrow>
     (ie_Type e = ErrTypeFileMismatch \<and> (ie_Path e, ie_Hash e) \<in> set found \<and>
        recorded (ie_Path e) \<noteq> None \<and> recorded (ie_Path e) \<noteq> Some (ie_Hash e)) \<or>
     (ie_Type e = ErrTypeNewFile \<and> (ie_Path e, ie_Hash e) \<in> set found \<and>
        (recorded (ie_Path e) = None \<or> \<not> distinct (map fst found))) \<or>
     (ie_Type e = ErrTypeFileDeleted \<and> ie_Path e \<notin> fst ` set found \<and>
        recorded (ie_Path e) = Some (ie_Hash e))"

lemma compare_loop_justified:
  assumes "compare_loop procDirs m vs = Inl e"
  shows "error_justified (map_of m) (map (file_entry procDirs) vs) e"
proof -
  from compare_loop_Inl [OF assms] obtain us v ws where
    vs: "vs = us @ v # ws" and e: "ie_Path e = fst (file_entry procDirs v)" "ie_Hash e = fh_Hash v"
      "if ie_Path e \<in> fst ` file_entry procDirs ` set us \<or> map_of m (ie_Path e) = None
       then ie_Type e = ErrTypeNewFile
       else ie_Type e = ErrTypeFileMismatch \<and> map_of m (ie_Path e) \<noteq> Some (fh_Hash v)"
    by blast
  have "(ie_Path e, ie_Hash e) = file_entry procDirs v"
    unfolding e(1,2) by (rule file_entry_eq [symmetric])
  then have "(ie_Path e, ie_Hash e) \<in> set (map (file_entry procDirs) vs)" by (simp add: vs)
  moreover have "\<not> distinct (map fst (map (file_entry procDirs) vs))"
    if "ie_Path e \<in> fst ` file_entry procDirs ` set us"
    using that by (auto simp: vs e(1))
  ultimately show ?thesis using e(2,3) by (auto simp: error_justified_def split: if_splits)
qed

lemma deleted_file_justified:
  assumes "compare_loop procDirs m vs = Inr m'" and "deleted_file pick m' = Some e"
    and "distinct (map fst m)"
  shows "error_justified (map_of m) (map (file_entry procDirs) vs) e"
proof -
  have m': "m' = unmatched procDirs vs m" using assms(1) by (simp add: compare_loop_Inr_iff)
  from assms(2) have ne: "m' \<noteq> []" and t: "ie_Type e = ErrTypeFileDeleted"
    and p: "(ie_Path e, ie_Hash e) = m' ! (pick mod length m')"
    by (auto simp: deleted_file_def case_prod_unfold Let_def split: if_splits)
  from ne have "(ie_Path e, ie_Hash e) \<in> set m'" unfolding p by simp
  with assms(3) t show ?thesis
    by (auto simp: error_justified_def m' unmatched_def image_image)
qed

lemma compare_expected_truth:
  "(case compare_expected procDirs expectedHashes hashes pick of
      Ok n \<Rightarrow> True
    | Fail err \<Rightarrow> (\<exists>e. err = ErrIntegrity e \<and>
        error_justified (baseline expectedHashes) (map (file_entry procDirs) hashes) e)
    | Panic m \<Rightarrow> False)"
proof (cases "compare_loop procDirs (expected_map expectedHashes) hashes")
  case (Inl e)
  from compare_loop_justified [OF Inl] Inl show ?thesis
    by (simp add: compare_expected_def map_of_expected_map)
next
  case (Inr m')
  show ?thesis
  proof (cases "deleted_file pick m'")
    case (Some e)
    from deleted_file_justified [OF Inr Some distinct_expected_map] Inr Some show ?thesis
      by (simp add: compare_expected_def map_of_expected_map)
  qed (simp add: compare_expected_def Inr)
qed

lemma compare_expected_Fail:
  assumes "compare_expected procDirs expectedHashes hashes pick = Fail err"
  shows "\<exists>e. err = ErrIntegrity e \<and>
    error_justified (baseline expectedHashes) (map (file_entry procDirs) hashes) e"
  using compare_expected_truth [where procDirs = procDirs and expectedHashes = expectedHashes
      and hashes = hashes and pick = pick] assms by simp

text \<open>A file found twice is never accepted, even where every file has its recorded hash.\<close>

lemma found_twice_rejected:
  assumes "mset hashes = mset (hash_files hash files)" and "2 \<le> count (mset files) f"
    and "hash f = Inr h"
  shows "compare_expected procDirs expectedHashes hashes pick \<noteq> Ok c"
proof
  assume "compare_expected procDirs expectedHashes hashes pick = Ok c"
  then have d: "distinct hashes"
    unfolding compare_expected_Ok_iff by (simp add: distinct_map)
  have "count (mset files) f \<le> count (mset (hash_files hash files)) \<lparr>fh_Path = f, fh_Hash = h\<rparr>"
    using assms(3) by (induction files) (auto split: sum.splits)
  with assms(1,2) have "2 \<le> count (mset hashes) \<lparr>fh_Path = f, fh_Hash = h\<rparr>" by simp
  with d show False by (simp add: distinct_count_atmost_1 split: if_splits)
qed

end
