(* ===== verification/Baseline.thy ===== *)
theory Baseline
  imports Trees Snapshot Compare Object_Name
begin

text \<open>
  The baseline across the two programs: what the snapshot tool writes for a file system, read
  back by the monitor and compared with the file system of the running process. Both sides are
  related to the files' relative paths and hashes (\<open>tree_entries\<close>).
\<close>

definition plain_entry :: "file_hash \<Rightarrow> string \<times> string" where
  "plain_entry v = (fh_Path v, fh_Hash v)"

text \<open>The hashes that \<open>CalculateAndWriteHashes\<close> writes.\<close>

definition snapshot_hashes :: "snapshot_env \<Rightarrow> snapshot_config \<Rightarrow> file_hash list" where
  "snapshot_hashes env cfg =
     concat (map (\<lambda>v. HashDir env (sc_root_fs cfg @ ''/'') v (sc_algorithm cfg)) (sc_dir cfg))"

lemma snapshot_writes:
  assumes "CalculateAndWriteHashes env cfg files = (files', None)"
  shows "files' (sc_out cfg) = Some (render (snapshot_hashes env cfg))"
proof -
  let ?root = "sc_root_fs cfg @ ''/''"
  from assms obtain hashes content where
    h: "hash_dirs env ?root (sc_algorithm cfg) (sc_dir cfg) [] = Inr hashes"
    and w: "writeAsPlainText (se_room env) [] hashes = (content, None)"
    and f: "files' = files(sc_out cfg \<mapsto> content)"
    by (auto simp: CalculateAndWriteHashes_def Let_def split: option.splits sum.splits prod.splits)
  have "content = render hashes"
    using w writeAsPlainText_fits [of "[]" hashes "se_room env"]
      writeAsPlainText_full [of "se_room env" "[]" hashes]
    by (cases "length (render hashes) \<le> se_room env"; cases "hashes = []") (auto simp: render_def)
  with f hash_dirs_Inr [OF h] show ?thesis by (simp add: snapshot_hashes_def)
qed

text \<open>A run of the pipeline for every list of directories.\<close>

definition pool_runs ::
    "(string \<Rightarrow> go_error + string) \<Rightarrow> (string list list \<Rightarrow> file_hash list) \<Rightarrow> bool" where
  "pool_runs hash deliver \<longleftrightarrow> (\<forall>names. \<exists>n. pool_output hash (Suc n) names (deliver names))"

lemma HashDir_entries:
  assumes "clean_root (sc_root_fs cfg)" and "good_dir (se_lstat env) (sc_root_fs cfg) v"
    and "pool_runs hash (se_pool env alg)"
  shows "mset (map plain_entry (HashDir env (sc_root_fs cfg @ ''/'') v alg)) =
    mset (dir_entries hash (se_lstat env) (sc_root_fs cfg) v)"
proof -
  let ?root = "sc_root_fs cfg" and ?names = "chan_walk_dir (se_lstat env) [(sc_root_fs cfg @ ''/'') @ v]"
  from assms(3) obtain n where "pool_output hash (Suc n) ?names (se_pool env alg ?names)"
    unfolding pool_runs_def by blast
  then have m: "mset (se_pool env alg ?names) =
      mset (hash_files hash (fst (walk_root (se_lstat env) (?root @ ''/'' @ v))))"
    using pool_output_mset by (fastforce simp: chan_walk_dir_def)
  have "mset (map plain_entry (HashDir env (?root @ ''/'') v alg)) =
      image_mset (\<lambda>v. (trim_prefix (fh_Path v) (?root @ ''/''), fh_Hash v)) (mset (se_pool env alg ?names))"
    by (simp add: HashDir_map strip_root_def plain_entry_def comp_def multiset.map_comp)
  with m walk_dir_entries [OF assms(1,2), of hash] show ?thesis by (simp only: mset_map)
qed

lemma snapshot_entries:
  assumes "clean_root (sc_root_fs cfg)"
    and "list_all (good_dir (se_lstat env) (sc_root_fs cfg)) (sc_dir cfg)"
    and "pool_runs hash (se_pool env (sc_algorithm cfg))"
  shows "mset (map plain_entry (snapshot_hashes env cfg)) =
    mset (tree_entries hash (se_lstat env) (sc_root_fs cfg) (sc_dir cfg))"
proof -
  have "mset (map plain_entry (concat (map (\<lambda>v. HashDir env (sc_root_fs cfg @ ''/'') v (sc_algorithm cfg)) ds))) =
      mset (tree_entries hash (se_lstat env) (sc_root_fs cfg) ds)"
    if "list_all (good_dir (se_lstat env) (sc_root_fs cfg)) ds" for ds
    using that
  proof (induction ds)
    case (Cons d ds)
    then show ?case
      using HashDir_entries [OF assms(1) _ assms(3), of d] by (simp add: tree_entries_def)
  qed (simp add: tree_entries_def)
  from this [OF assms(2)] show ?thesis by (simp add: snapshot_hashes_def)
qed

text \<open>The baseline of distinct paths is the map of its entries.\<close>

lemma record_entry_of: "record_entry (record_of v) = plain_entry v"
  by (simp add: record_entry_def record_of_def plain_entry_def)

lemma baseline_of_hashes:
  assumes "distinct (map fst (map plain_entry vs))"
  shows "baseline (map record_of vs) = map_of (map plain_entry vs)"
proof -
  have "map record_entry (map record_of vs) = map plain_entry vs"
    by (simp add: record_entry_of)
  moreover have "map_of (rev (map plain_entry vs)) = map_of (map plain_entry vs)"
    using assms map_of_inject_set [of "rev (map plain_entry vs)" "map plain_entry vs"]
    by (simp add: rev_map [symmetric])
  ultimately show ?thesis by (simp only: baseline_def)
qed

lemma mset_entries_map_of:
  assumes "mset es = mset es'" and "distinct (map fst es')"
  shows "distinct (map fst es) \<and> map_of es = map_of es'"
proof -
  have "mset (map fst es) = mset (map fst es')" using assms(1) by simp
  with assms(2) have d: "distinct (map fst es)" by (metis mset_eq_imp_distinct_iff)
  with assms show ?thesis using map_of_inject_set [of es es'] mset_eq_setD by blast
qed

text \<open>
  The comparison of hashes \<open>hs\<close> with the baseline of hashes \<open>vs\<close>, when the entries of each are
  those of a tree in some order: it succeeds exactly if the trees have the same entries.
\<close>

lemma compare_trees:
  assumes "mset (map (file_entry procDirs) hs) = mset found" and "distinct (map fst found)"
    and "mset (map plain_entry vs) = mset recorded" and "distinct (map fst recorded)"
  shows "compare_expected procDirs (map record_of vs) hs pick = Ok n \<longleftrightarrow>
    n = length recorded \<and> set found = set recorded"
proof -
  note f = mset_entries_map_of [OF assms(1,2)] and r = mset_entries_map_of [OF assms(3,4)]
  have "length vs = length recorded" using arg_cong [OF assms(3), of size] by simp
  moreover have "baseline (map record_of vs) = map_of recorded"
    using baseline_of_hashes [of vs] r by simp
  ultimately show ?thesis
    using f map_of_inject_set [OF assms(2,4)] by (simp add: compare_expected_Ok_iff)
qed

subsection \<open>The monitor's side\<close>

text \<open>The paths that \<open>CheckIntegrity\<close> walks for the configured directories.\<close>

lemma proc_root_paths:
  "''/proc/'' @ nat_str pid @ ''/root/'' @ dir = proc_root pid @ ''/'' @ dir"
  by (simp add: proc_root_def)

lemma GetProcessPath_pidof:
  assumes "pidof procName = Some (pidof_output (pid # pids))" and "0 < pid" and "pid < 2 ^ 63"
  shows "GetProcessPath pidof procName dir = Ok (proc_root pid @ ''/'' @ dir)"
  using first_pid_path [of pidof procName pid pids dir] assms by (simp add: proc_root_def)

lemma compare_prepare_loaded:
  assumes "pidof procName = Some (pidof_output (pid # pids))" and "0 < pid" and "pid < 2 ^ 63"
    and "CheckSumFile cfg procName alg = Ok csFile"
    and "load (cfg_minio_bucket cfg) csFile = Ok (render vs)" and "list_all line_safe vs"
  shows "compare_prepare pidof load cfg procName alg = Ok (proc_root pid @ ''/'', map record_of vs)"
  using assms GetProcessPath_pidof [of pidof procName pid pids "[]"]
  by (simp add: compare_prepare_def Get_render)

text \<open>
  From the snapshot to the verdict, over any run of either pipeline.
\<close>

lemma prepare_of_snapshot:
  assumes snap: "CalculateAndWriteHashes env scfg files = (files', None)"
    and src: "clean_root (sc_root_fs scfg)"
      "list_all (good_dir (se_lstat env) (sc_root_fs scfg)) (sc_dir scfg)"
      "pool_runs hash_s (se_pool env (sc_algorithm scfg))"
    and safe: "list_all (\<lambda>e. record_safe (snd e) (fst e))
      (tree_entries hash_s (se_lstat env) (sc_root_fs scfg) (sc_dir scfg))"
    and pid: "pidof procName = Some (pidof_output (pid # pids))" "0 < pid" "pid < 2 ^ 63"
    and load: "CheckSumFile cfg procName alg = Ok csFile"
      "load (cfg_minio_bucket cfg) csFile = Ok (the (files' (sc_out scfg)))"
  shows "compare_prepare pidof load cfg procName alg =
    Ok (proc_root pid @ ''/'', map record_of (snapshot_hashes env scfg))"
proof -
  have "set (map plain_entry (snapshot_hashes env scfg)) =
      set (tree_entries hash_s (se_lstat env) (sc_root_fs scfg) (sc_dir scfg))"
    using snapshot_entries [OF src] by (rule mset_eq_setD)
  then have "list_all line_safe (snapshot_hashes env scfg)"
    using safe by (force simp: list_all_iff line_safe_def plain_entry_def)
  then show ?thesis
    using load snapshot_writes [OF snap] pid by (intro compare_prepare_loaded [of pidof procName pid pids]) auto
qed

lemma verdict_of_trees:
  assumes src: "clean_root (sc_root_fs scfg)"
      "list_all (good_dir (se_lstat env) (sc_root_fs scfg)) (sc_dir scfg)" "separate (sc_dir scfg)"
      "pool_runs hash_s (se_pool env (sc_algorithm scfg))"
    and run: "mset received = mset (hash_files hash_m (concat
      (chan_walk_dir lstat_m (map (\<lambda>dir. proc_root pid @ ''/'' @ dir) dirs))))"
    and tgt: "list_all (good_dir lstat_m (proc_root pid)) dirs" "separate dirs"
  shows "compare_expected (proc_root pid @ ''/'') (map record_of (snapshot_hashes env scfg)) received pick = Ok c \<longleftrightarrow>
    c = length (tree_entries hash_s (se_lstat env) (sc_root_fs scfg) (sc_dir scfg)) \<and>
    set (tree_entries hash_m lstat_m (proc_root pid) dirs) =
      set (tree_entries hash_s (se_lstat env) (sc_root_fs scfg) (sc_dir scfg))"
proof -
  have "mset (map (file_entry (proc_root pid @ ''/'')) received) =
      mset (tree_entries hash_m lstat_m (proc_root pid) dirs)"
    using run walk_tree_entries [OF clean_proc_root tgt(1), of hash_m]
    unfolding file_entry_def mset_map by simp
  from compare_trees [OF this distinct_tree_entries [OF tgt] snapshot_entries [OF src(1,2,4)]
      distinct_tree_entries [OF src(2,3)]]
  show ?thesis .
qed

subsection \<open>A root with a trailing slash\<close>

lemma dir_comps_slash: "dir_comps (''/'' @ dir) = dir_comps dir"
  using split_char_append [of "[]" "CHR ''/''" dir] by (simp add: dir_comps_def split_def)

lemma rel_path_slash: "rel_path (''/'' @ dir) names = rel_path dir names"
  by (simp only: rel_path_def dir_comps_slash)

lemma rel_path_no_slash:
  assumes "plain_dir dir" and "names \<noteq> []" and "list_all proper_name names"
  shows "\<not> has_prefix (rel_path dir names) ''/''"
proof -
  let ?cs = "dir_comps dir @ names"
  have "list_all proper_name ?cs" and "?cs \<noteq> []" using assms by (simp_all add: plain_dir_def)
  then have p: "proper_name (hd ?cs)" by (metis hd_in_set list_all_iff)
  then have "hd ?cs \<noteq> []" "hd (hd ?cs) \<noteq> CHR ''/''" by (auto simp: proper_name_def dest: hd_in_set)
  then have "rel_path dir names \<noteq> []" "hd (rel_path dir names) \<noteq> CHR ''/''"
    using assms(2) hd_join [of ?cs "''/''"] join_eq_Nil_iff [of ?cs "''/''"] by (simp_all add: rel_path_def)
  then show ?thesis by (cases "rel_path dir names") (auto simp: has_prefix_def)
qed

lemma no_strip_double_slash:
  assumes "clean_root root" and "plain_dir dir" and "names \<noteq> []" and "list_all proper_name names"
  shows "trim_prefix (path_of (root @ ''/'' @ ''/'' @ dir) names) (root @ ''/'' @ ''/'') =
    root @ ''/'' @ rel_path dir names"
proof -
  have pd: "plain_dir (''/'' @ dir)" using assms(2) by (simp only: plain_dir_def dir_comps_slash)
  have "path_of (root @ ''/'' @ ''/'' @ dir) names = root @ ''/'' @ rel_path dir names"
    using path_of_below [OF assms(1) pd assms(3,4)] by (simp only: rel_path_slash)
  moreover have "\<not> has_prefix (root @ ''/'' @ rel_path dir names) (root @ ''/'' @ ''/'')"
    using rel_path_no_slash [OF assms(2-4)] by (auto simp: has_prefix_iff)
  ultimately show ?thesis by (simp add: trim_prefix_other)
qed

text \<open>
  If the root is configured with a trailing slash, its prefix is not removed: the
  paths that the tool records are those below the root with the root before them, which are not
  the paths the monitor looks up.
\<close>

lemma trailing_slash_root_not_removed:
  assumes "clean_root root" and "good_dir (se_lstat env) root (''/'' @ dir)"
    and "pool_runs hash (se_pool env alg)"
  shows "mset (map plain_entry (HashDir env ((root @ ''/'') @ ''/'') dir alg)) =
    mset (map (\<lambda>(p, h). (root @ ''/'' @ p, h)) (dir_entries hash (se_lstat env) root (''/'' @ dir)))"
proof -
  let ?r = "root @ ''/'' @ ''/'' @ dir" and ?node = "dir_node (se_lstat env) root (''/'' @ dir)"
  let ?names = "chan_walk_dir (se_lstat env) [?r]"
  let ?g = "\<lambda>p. trim_prefix p (root @ ''/'' @ ''/'')"
  have ne: "root \<noteq> []" and pd: "plain_dir dir"
    using assms(1,2) by (auto simp: clean_root_def good_dir_def plain_dir_def dir_comps_slash [simplified])
  from assms(3) obtain n where "pool_output hash (Suc n) ?names (se_pool env alg ?names)"
    unfolding pool_runs_def by blast
  then have m: "mset (se_pool env alg ?names) = mset (hash_files hash (fst (walk_root (se_lstat env) ?r)))"
    using pool_output_mset by (fastforce simp: chan_walk_dir_def)
  have "mset (map plain_entry (HashDir env ((root @ ''/'') @ ''/'') dir alg)) =
      image_mset (\<lambda>v. (?g (fh_Path v), fh_Hash v)) (mset (se_pool env alg ?names))"
    by (simp add: HashDir_map strip_root_def plain_entry_def comp_def multiset.map_comp)
  also have "\<dots> = mset (List.map_filter (\<lambda>names. case hash (path_of ?r names) of
      Inl e \<Rightarrow> None | Inr h \<Rightarrow> Some (?g (path_of ?r names), h)) (files_under ?node))"
    unfolding m using walk_dir_map [OF ne assms(2), of ?g hash] by (simp only: mset_map)
  also have "List.map_filter (\<lambda>names. case hash (path_of ?r names) of
      Inl e \<Rightarrow> None | Inr h \<Rightarrow> Some (?g (path_of ?r names), h)) (files_under ?node) =
    map (\<lambda>(p, h). (root @ ''/'' @ p, h)) (dir_entries hash (se_lstat env) root (''/'' @ dir))"
    unfolding dir_entries_def map_map_filter
  proof (rule map_filter_cong)
    fix names assume "names \<in> set (files_under ?node)"
    then have "names \<noteq> []" "list_all proper_name names" using good_dir_names [OF assms(2)] by auto
    note no_strip_double_slash [OF assms(1) pd this]
    then show "(case hash (path_of ?r names) of Inl e \<Rightarrow> None | Inr h \<Rightarrow> Some (?g (path_of ?r names), h)) =
        map_option (\<lambda>(p, h). (root @ ''/'' @ p, h)) (case hash (path_of (root @ ''/'' @ ''/'' @ dir) names) of
          Inl e \<Rightarrow> None | Inr h \<Rightarrow> Some (rel_path (''/'' @ dir) names, h))"
      unfolding rel_path_slash by (simp split: sum.splits)
  qed
  finally show ?thesis .
qed

end
