(* ===== verification/Check_Protocol.thy ===== *)
theory Check_Protocol
  imports Compare
begin

text \<open>
  One integrity check: \<open>CheckIntegrity\<close> of internal/integritymonitor/integritymonitor.go, the
  goroutine of \<open>compareHashes\<close>, and the pipeline of the theory Worker_Pool, as one step relation.
  \<open>CheckIntegrity\<close> and the goroutine share the unbuffered channels \<open>doneC\<close> and \<open>errC\<close>, whose
  send is one step with the receive; the goroutine is the consumer of the pipeline's hash
  channel; all share the context, which is \<open>p_cancelled\<close> of the pipeline.
\<close>

datatype main_pc =
    MSelect \<comment> \<open>at the \<open>select\<close>\<close>
  | MHandling go_error \<comment> \<open>in \<open>integrityCheckFailed\<close>\<close>
  | MReturned "go_error option" \<comment> \<open>returned, the deferred calls done\<close>

datatype cmp_pc =
    CStart
  | CLoop "(string \<times> string) list" \<comment> \<open>at \<open>range hashC\<close>, with the map\<close>
  | CGot "(string \<times> string) list" file_hash \<comment> \<open>a hash received, before the test of \<open>ctx.Done\<close>\<close>
  | CSendErr go_error \<comment> \<open>at \<open>errC <- err\<close>\<close>
  | CSendDone nat \<comment> \<open>at \<open>doneC <- len(expectedHashes)\<close>\<close>
  | CExited \<comment> \<open>returned, \<open>doneC\<close> closed\<close>
  | CPanicked \<comment> \<open>the process has crashed\<close>

record check =
  k_main :: main_pc
  k_cmp :: cmp_pc
  k_pool :: pool
  k_err_closed :: bool
  k_failed :: "go_error list" \<comment> \<open>the calls of \<open>integrityCheckFailed\<close>\<close>

abbreviation k_ctx_done :: "check \<Rightarrow> bool" where
  "k_ctx_done s \<equiv> p_cancelled (k_pool s)"

abbreviation cancel_ctx :: "check \<Rightarrow> check" where
  "cancel_ctx s \<equiv> s\<lparr>k_pool := (k_pool s)\<lparr>p_cancelled := True\<rparr>\<rparr>"

text \<open>The loop of \<open>CheckIntegrity\<close> over the monitored directories.\<close>

fun check_paths :: "(string \<Rightarrow> string option) \<Rightarrow> string \<Rightarrow> string list \<Rightarrow> string list result" where
  "check_paths pidof processName [] = Ok []"
| "check_paths pidof processName (p # ps) =
     bind_result (GetProcessPath pidof processName p) (\<lambda>path.
     bind_result (check_paths pidof processName ps) (\<lambda>paths. Ok (path # paths)))"

text \<open>
  The state when \<open>CheckIntegrity\<close> reaches its \<open>select\<close>, with the walker, the workers and the
  comparing goroutine started; or it has returned because a path cannot be built, before any
  goroutine was started; or the channel of a negative size has panicked.
\<close>

definition selecting :: "pool \<Rightarrow> check" where
  "selecting p = \<lparr>k_main = MSelect, k_cmp = CStart, k_pool = p, k_err_closed = False, k_failed = []\<rparr>"

definition no_pool :: "bool \<Rightarrow> pool" where
  "no_pool cancelled = \<lparr>p_names = [], p_names_closed = True, p_workers = [], p_buf = [],
     p_hash_closed = True, p_received = [], p_cancelled = cancelled\<rparr>"

definition check_start ::
    "(string \<Rightarrow> go_error + file_node) \<Rightarrow> (string \<Rightarrow> string option) \<Rightarrow> string \<Rightarrow> string list \<Rightarrow> int \<Rightarrow> check" where
  "check_start lstat pidof processName monitoringDirectories countWorkers =
     (case bind_result (check_paths pidof processName monitoringDirectories) (\<lambda>paths.
             WorkersPool countWorkers (chan_walk_dir lstat paths)) of
        Ok p \<Rightarrow> selecting p
      | Fail err \<Rightarrow> \<lparr>k_main = MReturned (Some err), k_cmp = CExited, k_pool = no_pool True,
                     k_err_closed = True, k_failed = []\<rparr>
      | Panic m \<Rightarrow> \<lparr>k_main = MSelect, k_cmp = CPanicked, k_pool = no_pool False,
                    k_err_closed = False, k_failed = []\<rparr>)"

text \<open>Returning runs the deferred calls: \<open>close(errC)\<close>, then \<open>cancel()\<close>.\<close>

definition main_return :: "go_error option \<Rightarrow> check \<Rightarrow> check" where
  "main_return r s = (cancel_ctx s)\<lparr>k_main := MReturned r, k_err_closed := True\<rparr>"

text \<open>\<open>range hashC\<close> ends: the channel is closed and its buffer is empty.\<close>

definition hashes_over :: "pool \<Rightarrow> bool" where
  "hashes_over p \<longleftrightarrow> p_hash_closed p \<and> p_buf p = []"

inductive check_step ::
    "(string \<Rightarrow> go_error + string) \<Rightarrow> (string \<times> hash_data_output list) result \<Rightarrow> nat \<Rightarrow>
     check \<Rightarrow> check \<Rightarrow> bool"
  for hash :: "string \<Rightarrow> go_error + string"
    and prep :: "(string \<times> hash_data_output list) result" and pick :: nat where
  main_ctx: "k_main s = MSelect \<Longrightarrow> k_ctx_done s \<Longrightarrow>
    check_step hash prep pick s (main_return (Some ErrCanceled) s)"
| main_done: "k_main s = MSelect \<Longrightarrow> k_cmp s = CSendDone n \<Longrightarrow>
    check_step hash prep pick s (main_return None (s\<lparr>k_cmp := CExited\<rparr>))"
| main_done_closed: "k_main s = MSelect \<Longrightarrow> k_cmp s = CExited \<Longrightarrow>
    check_step hash prep pick s (main_return None s)"
| main_err: "k_main s = MSelect \<Longrightarrow> k_cmp s = CSendErr e \<Longrightarrow>
    check_step hash prep pick s
      (s\<lparr>k_main := MHandling e, k_cmp := CExited, k_failed := k_failed s @ [e]\<rparr>)"
| main_handled: "k_main s = MHandling e \<Longrightarrow>
    check_step hash prep pick s (main_return (Some e) s)"
| cmp_fail: "k_cmp s = CStart \<Longrightarrow> prep = Fail e \<Longrightarrow>
    check_step hash prep pick s (s\<lparr>k_cmp := CSendErr e\<rparr>)"
| cmp_crash: "k_cmp s = CStart \<Longrightarrow> prep = Panic m \<Longrightarrow>
    check_step hash prep pick s (s\<lparr>k_cmp := CPanicked\<rparr>)"
| cmp_prepared: "k_cmp s = CStart \<Longrightarrow> prep = Ok (procDirs, expectedHashes) \<Longrightarrow>
    check_step hash prep pick s (s\<lparr>k_cmp := CLoop (expected_map expectedHashes)\<rparr>)"
| cmp_receive: "k_cmp s = CLoop m \<Longrightarrow> p_buf (k_pool s) = v # vs \<Longrightarrow>
    check_step hash prep pick s (s\<lparr>k_cmp := CGot m v,
      k_pool := (k_pool s)\<lparr>p_buf := vs, p_received := p_received (k_pool s) @ [v]\<rparr>\<rparr>)"
| cmp_ctx: "k_cmp s = CGot m v \<Longrightarrow> k_ctx_done s \<Longrightarrow>
    check_step hash prep pick s (s\<lparr>k_cmp := CExited\<rparr>)"
| cmp_match: "k_cmp s = CGot m v \<Longrightarrow> \<not> k_ctx_done s \<Longrightarrow> prep = Ok (procDirs, expectedHashes) \<Longrightarrow>
    compare_loop procDirs m [v] = Inr m' \<Longrightarrow>
    check_step hash prep pick s (s\<lparr>k_cmp := CLoop m'\<rparr>)"
| cmp_differs: "k_cmp s = CGot m v \<Longrightarrow> \<not> k_ctx_done s \<Longrightarrow> prep = Ok (procDirs, expectedHashes) \<Longrightarrow>
    compare_loop procDirs m [v] = Inl e \<Longrightarrow>
    check_step hash prep pick s (s\<lparr>k_cmp := CSendErr (ErrIntegrity e)\<rparr>)"
| cmp_deleted: "k_cmp s = CLoop m \<Longrightarrow> hashes_over (k_pool s) \<Longrightarrow> deleted_file pick m = Some e \<Longrightarrow>
    check_step hash prep pick s (s\<lparr>k_cmp := CSendErr (ErrIntegrity e)\<rparr>)"
| cmp_all: "k_cmp s = CLoop m \<Longrightarrow> hashes_over (k_pool s) \<Longrightarrow> deleted_file pick m = None \<Longrightarrow>
    prep = Ok (procDirs, expectedHashes) \<Longrightarrow>
    check_step hash prep pick s (s\<lparr>k_cmp := CSendDone (length expectedHashes)\<rparr>)"
| cmp_closed: "k_cmp s = CSendErr e \<Longrightarrow> k_err_closed s \<Longrightarrow>
    check_step hash prep pick s (s\<lparr>k_cmp := CPanicked\<rparr>)" \<comment> \<open>send on a closed channel\<close>
| pipeline: "quiet_step hash (k_pool s) p \<Longrightarrow>
    check_step hash prep pick s (s\<lparr>k_pool := p\<rparr>)"

text \<open>The check in an environment that can cancel the context it was given.\<close>

inductive check_env_step ::
    "(string \<Rightarrow> go_error + string) \<Rightarrow> (string \<times> hash_data_output list) result \<Rightarrow> nat \<Rightarrow>
     check \<Rightarrow> check \<Rightarrow> bool"
  for hash :: "string \<Rightarrow> go_error + string"
    and prep :: "(string \<times> hash_data_output list) result" and pick :: nat where
  check_own: "check_step hash prep pick s t \<Longrightarrow> check_env_step hash prep pick s t"
| check_cancel: "check_env_step hash prep pick s (cancel_ctx s)"

inductive_cases check_env_stepE: "check_env_step hash prep pick s t"

subsection \<open>Without cancellation: the sequential verdict\<close>

definition verdict ::
    "(string \<times> hash_data_output list) result \<Rightarrow> file_hash list \<Rightarrow> nat \<Rightarrow> nat result" where
  "verdict prep hashes pick =
     bind_result prep (\<lambda>(procDirs, expectedHashes). compare_expected procDirs expectedHashes hashes pick)"

text \<open>The verdict on the hashes of some files, in some order of arrival.\<close>

definition verdict_on ::
    "(string \<Rightarrow> go_error + string) \<Rightarrow> string list \<Rightarrow> (string \<times> hash_data_output list) result \<Rightarrow>
     nat \<Rightarrow> nat result \<Rightarrow> bool" where
  "verdict_on hash files prep pick v \<longleftrightarrow>
     (\<exists>hashes. mset hashes = mset (hash_files hash files) \<and> verdict prep hashes pick = v)"

text \<open>What the goroutine knows, in terms of the hashes it has received.\<close>

fun cmp_promise ::
    "(string \<Rightarrow> go_error + string) \<Rightarrow> string list \<Rightarrow> (string \<times> hash_data_output list) result \<Rightarrow> nat \<Rightarrow>
     file_hash list \<Rightarrow> cmp_pc \<Rightarrow> bool" where
  "cmp_promise hash files prep pick received CStart = (received = [])"
| "cmp_promise hash files prep pick received (CLoop m) =
     (\<exists>procDirs expectedHashes. prep = Ok (procDirs, expectedHashes) \<and>
        compare_loop procDirs (expected_map expectedHashes) received = Inr m)"
| "cmp_promise hash files prep pick received (CGot m v) =
     (\<exists>procDirs expectedHashes before. prep = Ok (procDirs, expectedHashes) \<and> received = before @ [v] \<and>
        compare_loop procDirs (expected_map expectedHashes) before = Inr m)"
| "cmp_promise hash files prep pick received (CSendErr e) = verdict_on hash files prep pick (Fail e)"
| "cmp_promise hash files prep pick received (CSendDone n) = verdict_on hash files prep pick (Ok n)"
| "cmp_promise hash files prep pick received CExited = False"
| "cmp_promise hash files prep pick received CPanicked = (\<exists>m. prep = Panic m)"

fun result_of :: "nat result \<Rightarrow> go_error option \<times> go_error list" where
  "result_of (Ok n) = (None, [])"
| "result_of (Fail e) = (Some e, [e])"
| "result_of (Panic m) = (None, [])"

definition calm_inv ::
    "(string \<Rightarrow> go_error + string) \<Rightarrow> string list \<Rightarrow> (string \<times> hash_data_output list) result \<Rightarrow> nat \<Rightarrow>
     check \<Rightarrow> bool" where
  "calm_inv hash files prep pick s \<longleftrightarrow>
     (case k_main s of
        MSelect \<Rightarrow> \<not> k_ctx_done s \<and> \<not> k_err_closed s \<and> k_failed s = [] \<and>
          cmp_promise hash files prep pick (p_received (k_pool s)) (k_cmp s)
      | MHandling e \<Rightarrow> k_cmp s = CExited \<and> k_failed s = [e] \<and> verdict_on hash files prep pick (Fail e)
      | MReturned r \<Rightarrow> k_cmp s = CExited \<and>
          (\<exists>v. verdict_on hash files prep pick v \<and> (\<forall>m. v \<noteq> Panic m) \<and> (r, k_failed s) = result_of v))"

lemma compare_loop_Cons:
  "compare_loop procDirs m (v # vs) =
     (case compare_loop procDirs m [v] of Inl e \<Rightarrow> Inl e | Inr m' \<Rightarrow> compare_loop procDirs m' vs)"
  by (cases "map_of m (trim_prefix (fh_Path v) procDirs) = Some (fh_Hash v)")
    (simp_all add: compare_loop_match compare_loop_no_match)

lemma compare_loop_append:
  "compare_loop procDirs m (us @ vs) =
     (case compare_loop procDirs m us of Inl e \<Rightarrow> Inl e | Inr m' \<Rightarrow> compare_loop procDirs m' vs)"
proof (induction us arbitrary: m)
  case (Cons u us)
  then show ?case
    by (simp add: compare_loop_Cons [of procDirs m u "us @ vs"] compare_loop_Cons [of procDirs m u us]
        split: sum.splits)
qed simp

text \<open>To the pipeline, every step of the check is one of its own, a receive, or a cancellation.\<close>

lemma check_step_pool:
  assumes "check_step hash prep pick s t"
  shows "k_pool t = k_pool s \<or> k_pool t = (k_pool s)\<lparr>p_cancelled := True\<rparr> \<or>
    pool_step hash (k_pool s) (k_pool t)"
  using assms
proof cases
  case (cmp_receive m v vs)
  then show ?thesis using receive [of "k_pool s" v vs hash] by simp
next
  case (pipeline p)
  then show ?thesis by (simp add: quiet_step_def)
qed (simp_all add: main_return_def)

lemma check_env_step_pool:
  "check_env_step hash prep pick s t \<Longrightarrow> pool_inv hash n files (k_pool s) \<Longrightarrow>
   pool_inv hash n files (k_pool t)"
  by (erule check_env_stepE)
    (auto dest!: check_step_pool intro: pool_step_inv pool_cancel_inv)

lemma verdict_onI:
  "mset hashes = mset (hash_files hash files) \<Longrightarrow> verdict prep hashes pick = v \<Longrightarrow>
   verdict_on hash files prep pick v"
  by (auto simp: verdict_on_def)

text \<open>An error found in the hashes so far is the verdict, whatever is still to come.\<close>

lemma verdict_early:
  assumes "pool_inv hash n files p" and "prep = Ok (procDirs, expectedHashes)"
    and "compare_loop procDirs (expected_map expectedHashes) (p_received p) = Inl e"
  shows "verdict_on hash files prep pick (Fail (ErrIntegrity e))"
proof -
  from pool_inv_received [OF assms(1)] obtain rest where
    "mset (hash_files hash files) = mset (p_received p) + mset rest"
    by (metis ex_mset mset_subset_eq_exists_conv)
  then have "mset (p_received p @ rest) = mset (hash_files hash files)" by simp
  then show ?thesis
    by (rule verdict_onI) (simp add: verdict_def assms(2,3) compare_expected_def compare_loop_append)
qed

lemma verdict_late:
  assumes "pool_inv hash (Suc n) files p" and "hashes_over p" and "\<not> p_cancelled p"
    and "prep = Ok (procDirs, expectedHashes)"
    and "compare_loop procDirs (expected_map expectedHashes) (p_received p) = Inr m"
    and "v = (case deleted_file pick m of Some e \<Rightarrow> Fail (ErrIntegrity e) | None \<Rightarrow> Ok (length expectedHashes))"
  shows "verdict_on hash files prep pick v"
  by (rule verdict_onI [of "p_received p"], rule pool_inv_delivers [OF assms(1)])
    (use assms(2-) in \<open>simp_all add: verdict_def compare_expected_def hashes_over_def\<close>)

lemma verdict_on_prep:
  "prep = Fail e \<Longrightarrow> verdict_on hash files prep pick (Fail e)"
  by (rule verdict_onI [OF refl]) (simp add: verdict_def)

lemma calm_inv_step:
  assumes inv: "calm_inv hash files prep pick s" and pool: "pool_inv hash (Suc n) files (k_pool s)"
    and "check_step hash prep pick s t"
  shows "calm_inv hash files prep pick t"
  using assms(3)
proof cases
  case (cmp_fail e)
  with inv show ?thesis by (auto simp: calm_inv_def verdict_on_prep split: main_pc.splits)
next
  case (cmp_match m v procDirs expectedHashes m')
  with inv show ?thesis by (auto simp: calm_inv_def compare_loop_append split: main_pc.splits)
next
  case (cmp_differs m v procDirs expectedHashes e)
  with inv have "k_main s = MSelect \<Longrightarrow>
      compare_loop procDirs (expected_map expectedHashes) (p_received (k_pool s)) = Inl e"
    by (auto simp: calm_inv_def compare_loop_append)
  with inv cmp_differs verdict_early [OF pool, of prep procDirs expectedHashes e pick] show ?thesis
    by (auto simp: calm_inv_def split: main_pc.splits)
next
  case (cmp_deleted m e)
  with inv show ?thesis
    by (auto simp: calm_inv_def split: main_pc.splits intro!: verdict_late [OF pool])
next
  case (cmp_all m procDirs expectedHashes)
  with inv show ?thesis
    by (auto simp: calm_inv_def split: main_pc.splits intro!: verdict_late [OF pool])
next
  case (pipeline p)
  then have "p_received p = p_received (k_pool s)" "p_cancelled p = p_cancelled (k_pool s)"
    by (auto simp: quiet_step_def dest: pool_step_cancelled)
  with inv pipeline show ?thesis by (auto simp: calm_inv_def split: main_pc.splits)
qed (use inv in \<open>auto simp: calm_inv_def main_return_def split: main_pc.splits\<close>)

text \<open>The states in which a check begins whose paths can be built.\<close>

definition check_init :: "nat \<Rightarrow> string list list \<Rightarrow> check \<Rightarrow> bool" where
  "check_init n names s \<longleftrightarrow> (\<exists>p. pool_init n names p \<and> s = selecting p)"

lemma check_start_init:
  assumes "check_paths pidof processName dirs = Ok paths" and "0 \<le> countWorkers"
  shows "check_init (nat countWorkers) (chan_walk_dir lstat paths)
    (check_start lstat pidof processName dirs countWorkers)"
  using assms by (simp add: check_init_def check_start_def pool_init_def WorkersPool_def)

lemma check_init_pool: "check_init n names s \<Longrightarrow> pool_inv hash n (concat names) (k_pool s)"
  by (auto simp: check_init_def selecting_def intro: pool_init_inv)

lemma calm_init: "check_init n names s \<Longrightarrow> calm_inv hash (concat names) prep pick s"
  by (auto simp: check_init_def selecting_def calm_inv_def pool_init_def WorkersPool_def)

interpretation calm: step_invariant "check_init (Suc n) names" "check_step hash prep pick"
    "\<lambda>s. pool_inv hash (Suc n) (concat names) (k_pool s) \<and> calm_inv hash (concat names) prep pick s"
    for hash prep pick n names
  by unfold_locales (auto intro: check_init_pool calm_init calm_inv_step
      check_env_step_pool [OF check_own])

subsection \<open>The check returns\<close>

fun main_work :: "main_pc \<Rightarrow> nat" where
  "main_work MSelect = 2"
| "main_work (MHandling e) = 1"
| "main_work (MReturned r) = 0"

fun cmp_work :: "cmp_pc \<Rightarrow> nat" where
  "cmp_work CStart = 4"
| "cmp_work (CLoop m) = 2"
| "cmp_work (CGot m v) = 3"
| "cmp_work (CSendErr e) = 1"
| "cmp_work (CSendDone n) = 1"
| "cmp_work CExited = 0"
| "cmp_work CPanicked = 0"

definition check_work :: "check \<Rightarrow> nat" where
  "check_work s = main_work (k_main s) + cmp_work (k_cmp s) + 2 * pool_work (k_pool s)"

definition check_over :: "check \<Rightarrow> bool" where
  "check_over s \<longleftrightarrow> (\<exists>r. k_main s = MReturned r) \<or> k_cmp s = CPanicked"

lemma pool_work_cancel: "pool_work (p\<lparr>p_cancelled := True\<rparr>) = pool_work p"
  by (simp add: pool_work_def)

lemma check_step_work:
  assumes "check_step hash prep pick s t"
  shows "check_work t < check_work s"
  using assms
proof cases
  case (cmp_receive m v vs)
  then show ?thesis using pool_step_work [OF receive [of "k_pool s" v vs hash]] by (simp add: check_work_def)
next
  case (pipeline p)
  then show ?thesis using pool_step_work [OF quiet_step_pool] by (fastforce simp: check_work_def)
qed (simp_all add: check_work_def main_return_def pool_work_cancel)

text \<open>Once past \<open>CStart\<close> the goroutine has prepared its map.\<close>

definition prepared_inv :: "(string \<times> hash_data_output list) result \<Rightarrow> check \<Rightarrow> bool" where
  "prepared_inv prep s \<longleftrightarrow>
     (case k_cmp s of CLoop m \<Rightarrow> (\<exists>p. prep = Ok p) | CGot m v \<Rightarrow> (\<exists>p. prep = Ok p) | _ \<Rightarrow> True)"

lemma prepared_inv_step: "prepared_inv prep s \<Longrightarrow> check_step hash prep pick s t \<Longrightarrow> prepared_inv prep t"
  by (erule check_step.cases) (auto simp: prepared_inv_def main_return_def)

lemma cmp_progress:
  assumes "prepared_inv prep s" and "pool_inv hash n files (k_pool s)"
    and "k_cmp s \<noteq> CExited" and "k_cmp s \<noteq> CPanicked" and "k_main s = MSelect"
  shows "\<exists>t. check_step hash prep pick s t"
proof (cases "k_cmp s")
  case CStart
  then show ?thesis by (cases prep) (auto intro: cmp_fail cmp_crash cmp_prepared)
next
  case (CLoop m)
  with assms(1) obtain procDirs expectedHashes where p: "prep = Ok (procDirs, expectedHashes)"
    by (auto simp: prepared_inv_def)
  show ?thesis
  proof (cases "hashes_over (k_pool s)")
    case True
    with CLoop p show ?thesis
      by (cases "deleted_file pick m") (blast intro: cmp_deleted cmp_all)+
  next
    case False
    with CLoop show ?thesis
      using quiet_progress [OF assms(2)]
      by (cases "p_buf (k_pool s)") (auto simp: hashes_over_def intro: cmp_receive pipeline)
  qed
next
  case (CGot m v)
  with assms(1) obtain procDirs expectedHashes where p: "prep = Ok (procDirs, expectedHashes)"
    by (auto simp: prepared_inv_def)
  show ?thesis
  proof (cases "k_ctx_done s")
    case True
    with CGot show ?thesis by (blast intro: cmp_ctx)
  next
    case False
    with CGot p show ?thesis
      by (cases "compare_loop procDirs m [v]") (blast intro: cmp_match cmp_differs)+
  qed
qed (use assms(3-) in \<open>auto intro: main_err main_done\<close>)

lemma check_progress:
  assumes "prepared_inv prep s" and "pool_inv hash n files (k_pool s)" and "\<not> check_over s"
  shows "\<exists>t. check_step hash prep pick s t"
proof (cases "k_main s")
  case (MHandling e)
  then show ?thesis by (blast intro: main_handled)
next
  case (MReturned r)
  with assms(3) show ?thesis by (simp add: check_over_def)
next
  case MSelect
  with assms cmp_progress [OF assms(1,2)] show ?thesis
    by (cases "k_cmp s = CExited") (auto simp: check_over_def intro: main_done_closed)
qed

definition check_inv ::
    "(string \<Rightarrow> go_error + string) \<Rightarrow> (string \<times> hash_data_output list) result \<Rightarrow> nat \<Rightarrow> string list \<Rightarrow>
     check \<Rightarrow> bool" where
  "check_inv hash prep n files s \<longleftrightarrow> prepared_inv prep s \<and> pool_inv hash n files (k_pool s)"

lemma check_inv_init: "check_init n names s \<Longrightarrow> check_inv hash prep n (concat names) s"
  using check_init_pool by (auto simp: check_inv_def prepared_inv_def check_init_def selecting_def)

lemma check_inv_step:
  assumes "check_inv hash prep n files s" and "check_env_step hash prep pick s t"
  shows "check_inv hash prep n files t"
proof -
  from assms(2) have "prepared_inv prep t"
  proof cases
    case check_own
    with assms(1) show ?thesis by (auto simp: check_inv_def intro: prepared_inv_step)
  next
    case check_cancel
    with assms(1) show ?thesis by (simp add: check_inv_def prepared_inv_def)
  qed
  with check_env_step_pool [OF assms(2)] assms(1) show ?thesis by (simp add: check_inv_def)
qed

interpretation check_run: step_invariant "check_init n names" "check_env_step hash prep pick"
    "check_inv hash prep n (concat names)" for hash prep pick n names
  by unfold_locales (auto intro: check_inv_init check_inv_step)

interpretation check_bounded: bounded_steps "check_init n names" "check_step hash prep pick"
    "check_inv hash prep n (concat names)" check_work check_over for hash prep pick n names
proof unfold_locales
  fix s t
  show "check_init n names s \<Longrightarrow> check_inv hash prep n (concat names) s" by (rule check_inv_init)
  show "check_inv hash prep n (concat names) s \<Longrightarrow> check_step hash prep pick s t \<Longrightarrow>
      check_inv hash prep n (concat names) t" by (blast intro: check_inv_step check_own)
  show "check_inv hash prep n (concat names) s \<Longrightarrow> check_step hash prep pick s t \<Longrightarrow>
      check_work t < check_work s" by (rule check_step_work)
  show "check_inv hash prep n (concat names) s \<Longrightarrow> \<not> check_over s \<Longrightarrow> \<exists>t. check_step hash prep pick s t"
    unfolding check_inv_def by (blast intro: check_progress)
qed

subsection \<open>Properties\<close>

lemma check_init_eq:
  assumes "check_paths pidof processName dirs = Ok paths" and "0 \<le> countWorkers"
  shows "(\<lambda>s. s = check_start lstat pidof processName dirs countWorkers) =
    check_init (nat countWorkers) (chan_walk_dir lstat paths)"
  using assms by (simp add: fun_eq_iff check_init_def check_start_def pool_init_def WorkersPool_def)

lemma check_start_workers:
  assumes "reach (\<lambda>s. s = check_start lstat pidof processName dirs countWorkers) step s"
    and "check_paths pidof processName dirs = Ok paths" and "0 < countWorkers"
  shows "reach (check_init (Suc (nat (countWorkers - 1))) (chan_walk_dir lstat paths)) step s"
proof -
  have "nat countWorkers = Suc (nat (countWorkers - 1))" using assms(3) by simp
  with assms(1,3) check_init_eq [OF assms(2), of countWorkers lstat] show ?thesis by simp
qed

lemma calm_returns:
  assumes "reach (check_init (Suc n) names) (check_step hash prep pick) s" and "\<And>m. prep \<noteq> Panic m"
  shows "(\<forall>r. k_main s = MReturned r \<longrightarrow>
      (\<exists>v. verdict_on hash (concat names) prep pick v \<and> (r, k_failed s) = result_of v)) \<and>
    k_cmp s \<noteq> CPanicked \<and> (\<exists>k t r. run (check_step hash prep pick) s k t \<and> k_main t = MReturned r)"
proof -
  have inv: "pool_inv hash (Suc n) (concat names) (k_pool s) \<and> calm_inv hash (concat names) prep pick s"
    using assms(1) by (rule calm.reach_inv)
  have np: "k_cmp u \<noteq> CPanicked" if "calm_inv hash (concat names) prep pick u" for u
    using that assms(2) by (auto simp: calm_inv_def split: main_pc.splits)
  have "reach (check_init (Suc n) names) (check_env_step hash prep pick) s"
    using assms(1) by (induction rule: reach.induct) (auto intro: reach.intros check_own)
  then have "check_inv hash prep (Suc n) (concat names) s" by (rule check_run.reach_inv)
  then obtain k t where t: "run (check_step hash prep pick) s k t" "check_over t"
    using check_bounded.reaches_final by blast
  with inv have "calm_inv hash (concat names) prep pick t" using calm.run_inv by blast
  with np t(2) obtain r where "k_main t = MReturned r" by (auto simp: check_over_def)
  with t(1) inv np show ?thesis by (auto simp: calm_inv_def)
qed

text \<open>
  Property C6. A check whose context nobody cancels returns what the sequential comparison says
  of the hashes of the files found, in some order of arrival: no error and no call of
  \<open>integrityCheckFailed\<close> if the comparison succeeds, otherwise exactly its error after exactly one
  call. This holds for every number of workers and every interleaving of the walker, the
  workers, the comparing goroutine and \<open>CheckIntegrity\<close>; nothing is sent on a closed channel, and
  the check cannot run forever or get stuck before it returns.
\<close>

theorem calm_check_is_sequential:
  assumes "reach (\<lambda>s. s = check_start lstat pidof processName dirs countWorkers)
      (check_step hash prep pick) s"
    and "check_paths pidof processName dirs = Ok paths" and "0 < countWorkers"
    and "\<And>m. prep \<noteq> Panic m"
  shows "(\<forall>r. k_main s = MReturned r \<longrightarrow>
      (\<exists>hashes. mset hashes = mset (hash_files hash (concat (chan_walk_dir lstat paths))) \<and>
         (r, k_failed s) = result_of (verdict prep hashes pick))) \<and>
    k_cmp s \<noteq> CPanicked \<and>
    (\<exists>k t r. run (check_step hash prep pick) s k t \<and> k_main t = MReturned r)"
  using calm_returns [OF check_start_workers [OF assms(1-3)] assms(4)] by (auto simp: verdict_on_def)

lemma demo_paths: "check_paths (\<lambda>_. Some ''7'') ''p'' [''app''] = Ok [''/proc/7/root/app'']"
  by code_simp

theorem calm_check_is_sequential_witness:
  "\<exists>k t r. run (check_step Inr (Ok (''/proc/7/root/'', [])) 0)
      (check_start (\<lambda>_. Inr (Directory [(''x'', RegularFile)])) (\<lambda>_. Some ''7'') ''p'' [''app''] 1) k t \<and>
     k_main t = MReturned r"
proof -
  let ?l = "\<lambda>_. Inr (Directory [(''x'', RegularFile)])"
  have "reach (\<lambda>s. s = check_start ?l (\<lambda>_. Some ''7'') ''p'' [''app''] 1)
      (check_step Inr (Ok (''/proc/7/root/'', [])) 0) (check_start ?l (\<lambda>_. Some ''7'') ''p'' [''app''] 1)"
    by (rule reach_init) simp
  from calm_check_is_sequential [OF this demo_paths] show ?thesis by simp
qed

text \<open>
  Property C36. Cancelled or not, and with any number of workers, a check is over after at most
  \<open>check_work\<close> steps, the steps of the pipeline that outlives it included, and from every reachable
  state some run ends: either \<open>CheckIntegrity\<close> returns or the process has crashed.
\<close>

theorem check_always_ends:
  assumes "reach (\<lambda>s. s = check_start lstat pidof processName dirs countWorkers)
      (check_env_step hash prep pick) s"
    and "check_paths pidof processName dirs = Ok paths" and "0 \<le> countWorkers"
  shows "(\<forall>k t. run (check_step hash prep pick) s k t \<longrightarrow> k \<le> check_work s) \<and>
    (\<exists>k t. run (check_step hash prep pick) s k t \<and> check_over t)"
proof -
  have inv: "check_inv hash prep (nat countWorkers) (concat (chan_walk_dir lstat paths)) s"
    using assms(1) unfolding check_init_eq [OF assms(2,3)] by (rule check_run.reach_inv)
  then show ?thesis
    using check_bounded.run_bounded check_bounded.reaches_final by (fastforce dest: add_leD1)
qed

theorem check_always_ends_witness:
  "\<exists>k t. run (check_step Inr (Fail ErrCanceled) 0)
     (check_start (\<lambda>_. Inr RegularFile) (\<lambda>_. Some ''7'') ''p'' [] 0) k t \<and> check_over t"
proof -
  let ?s = "check_start (\<lambda>_. Inr RegularFile) (\<lambda>_. Some ''7'') ''p'' [] 0"
  have "reach (\<lambda>s. s = ?s) (check_env_step Inr (Fail ErrCanceled) 0) ?s" by (rule reach_init) simp
  from check_always_ends [OF this] show ?thesis by simp
qed

text \<open>The two kinds of outcome of a check, by its error.\<close>

lemma compare_expected_no_panic: "compare_expected procDirs expectedHashes hashes pick \<noteq> Panic m"
  by (auto simp: compare_expected_def split: sum.splits option.splits)

lemma check_paths_all:
  "(\<And>dir. GetProcessPath pidof processName dir = Ok (root @ dir)) \<Longrightarrow>
   check_paths pidof processName dirs = Ok (map (\<lambda>dir. root @ dir) dirs)"
  by (induction dirs) simp_all

lemma verdict_no_panic: "(\<And>m. prep \<noteq> Panic m) \<Longrightarrow> verdict prep hashes pick \<noteq> Panic m"
  by (cases prep) (auto simp: verdict_def compare_expected_no_panic)

lemma calm_outcome:
  assumes "reach (\<lambda>s. s = check_start lstat pidof processName dirs countWorkers)
      (check_step hash prep pick) s"
    and "check_paths pidof processName dirs = Ok paths" and "0 < countWorkers"
    and "\<And>m. prep \<noteq> Panic m" and "k_main s = MReturned r"
  shows "\<exists>hashes. mset hashes = mset (hash_files hash (concat (chan_walk_dir lstat paths))) \<and>
    (r = None \<longleftrightarrow> (\<exists>c. verdict prep hashes pick = Ok c))"
proof -
  from calm_returns [OF check_start_workers [OF assms(1-3)] assms(4)] assms(5) obtain v where
    v: "verdict_on hash (concat (chan_walk_dir lstat paths)) prep pick v" "(r, k_failed s) = result_of v"
    by auto
  with verdict_no_panic [OF assms(4)] show ?thesis by (cases v) (auto simp: verdict_on_def)
qed

lemma calm_check_returns:
  assumes "reach (\<lambda>s. s = check_start lstat pidof processName dirs countWorkers)
      (check_step hash (Ok (procDirs, expectedHashes)) pick) s"
    and "check_paths pidof processName dirs = Ok paths" and "0 < countWorkers"
  shows "k_cmp s \<noteq> CPanicked \<and>
    (\<exists>k t r. run (check_step hash (Ok (procDirs, expectedHashes)) pick) s k t \<and> k_main t = MReturned r)"
  using calm_returns [OF check_start_workers [OF assms]] by simp



lemma calm_run_returns:
  assumes "check_paths pidof processName dirs = Ok paths" and "0 < n" and "\<And>m. prep \<noteq> Panic m"
  shows "\<exists>s r. reach (\<lambda>s. s = check_start lstat pidof processName dirs n) (check_step hash prep pick) s \<and>
    k_main s = MReturned r"
proof -
  let ?R = "reach (\<lambda>s. s = check_start lstat pidof processName dirs n) (check_step hash prep pick)"
  have "?R (check_start lstat pidof processName dirs n)" by (rule reach_init) simp
  with calm_returns [OF check_start_workers [OF this assms(1,2)] assms(3)]
  show ?thesis by (blast intro: reach_run)
qed


text \<open>
  Property C37. If one monitored directory lies in another, the file system is never accepted: when
  the walk finds a file twice that can be hashed, every check that nobody cancels returns an
  error, even where every file has its recorded hash.
\<close>

theorem file_found_twice_never_accepted:
  assumes "reach (\<lambda>s. s = check_start lstat pidof processName dirs countWorkers)
      (check_step hash (Ok (procDirs, expectedHashes)) pick) s"
    and "check_paths pidof processName dirs = Ok paths" and "0 < countWorkers"
    and "2 \<le> count (mset (concat (chan_walk_dir lstat paths))) f" and "hash f = Inr h"
  shows "k_main s \<noteq> MReturned None"
proof
  assume "k_main s = MReturned None"
  with calm_outcome [OF assms(1-3)] obtain hashes c where
    "mset hashes = mset (hash_files hash (concat (chan_walk_dir lstat paths)))"
    "verdict (Ok (procDirs, expectedHashes)) hashes pick = Ok c" by blast
  then show False
    using found_twice_rejected [of hashes hash "concat (chan_walk_dir lstat paths)" f h] assms(4,5)
    by (simp add: verdict_def)
qed

theorem file_found_twice_never_accepted_witness:
  "\<exists>s. reach (\<lambda>s. s = check_start (\<lambda>_. Inr (Directory [(''x'', RegularFile)])) (\<lambda>_. Some ''7'') ''p''
        [''app'', ''app''] 1)
      (check_step Inr (Ok (''/proc/7/root/'', [\<lparr>hdo_ID = 0, hdo_Hash = ''/proc/7/root/app/x'',
        hdo_FullFileName = ''app/x'', hdo_Algorithm = [], hdo_NamePod = [], hdo_ReleaseId = 0\<rparr>])) 0) s \<and>
    (\<exists>e. k_main s = MReturned (Some e))"
proof -
  let ?l = "\<lambda>_. Inr (Directory [(''x'', RegularFile)])"
  let ?s = "check_start ?l (\<lambda>_. Some ''7'') ''p'' [''app'', ''app''] 1"
  let ?prep = "Ok (''/proc/7/root/'', [\<lparr>hdo_ID = 0, hdo_Hash = ''/proc/7/root/app/x'',
        hdo_FullFileName = ''app/x'', hdo_Algorithm = [], hdo_NamePod = [], hdo_ReleaseId = 0\<rparr>])"
  have paths: "check_paths (\<lambda>_. Some ''7'') ''p'' [''app'', ''app''] =
      Ok [''/proc/7/root/app'', ''/proc/7/root/app'']" by code_simp
  have names: "chan_walk_dir ?l [''/proc/7/root/app'', ''/proc/7/root/app''] =
      [[''/proc/7/root/app/x''], [''/proc/7/root/app/x'']]" by code_simp
  obtain s r where s: "reach (\<lambda>s. s = ?s) (check_step Inr ?prep 0) s" "k_main s = MReturned r"
    using calm_run_returns [OF paths, of 1 ?prep ?l Inr 0] by auto
  with file_found_twice_never_accepted [OF s(1) paths, of "''/proc/7/root/app/x''"] names
  have "r \<noteq> None" by auto
  with s show ?thesis by fastforce
qed

subsection \<open>Well-formed states\<close>

text \<open>What the channels, the context and the two program counters say about one another.\<close>

definition check_wf :: "(string \<times> hash_data_output list) result \<Rightarrow> check \<Rightarrow> bool" where
  "check_wf prep s \<longleftrightarrow>
     (case k_main s of
        MSelect \<Rightarrow> \<not> k_err_closed s \<and> k_failed s = []
      | MHandling e \<Rightarrow> \<not> k_err_closed s \<and> k_failed s = [e] \<and> k_cmp s = CExited
      | MReturned r \<Rightarrow> k_err_closed s \<and> k_ctx_done s \<and>
          (k_failed s \<noteq> [] \<longrightarrow> k_cmp s = CExited \<and> (\<exists>e. r = Some e \<and> k_failed s = [e]))) \<and>
     (k_cmp s = CPanicked \<longrightarrow> k_err_closed s \<or> (\<exists>m. prep = Panic m))"

lemma check_wf_init: "check_init n names s \<Longrightarrow> check_wf prep s"
  by (auto simp: check_init_def selecting_def check_wf_def)

lemma check_wf_own:
  assumes "check_step hash prep pick s t" and "check_wf prep s"
  shows "check_wf prep t"
  using assms
proof cases
  case (pipeline p)
  then have "p_cancelled p = p_cancelled (k_pool s)"
    by (auto simp: quiet_step_def dest: pool_step_cancelled)
  with pipeline assms(2) show ?thesis by (auto simp: check_wf_def split: main_pc.splits)
qed (use assms(2) in \<open>auto simp: check_wf_def main_return_def split: main_pc.splits\<close>)

lemma check_wf_step: "check_wf prep s \<Longrightarrow> check_env_step hash prep pick s t \<Longrightarrow> check_wf prep t"
  by (erule check_env_stepE, erule (1) check_wf_own) (auto simp: check_wf_def split: main_pc.splits)

interpretation check_shape: step_invariant "check_init n names" "check_env_step hash prep pick" "check_wf prep"
    for hash prep pick n names
  by unfold_locales (auto intro: check_wf_init check_wf_step)

text \<open>
  Property C30. In every state of a check, cancelled or not: \<open>errC\<close> is closed and the context is
  done once \<open>CheckIntegrity\<close> has returned, and \<open>errC\<close> is closed at no other time;
  \<open>integrityCheckFailed\<close> has been called at most once, for the error that is then returned, and
  the comparing goroutine has stopped by then; the number of workers does not change; no more
  hashes than workers are buffered; the hashes received are hashes of files found, none more often
  than its file was found; and the hash channel is closed only when all workers have stopped.
\<close>

theorem check_state_well_formed:
  assumes "reach (\<lambda>s. s = check_start lstat pidof processName dirs countWorkers)
      (check_env_step hash prep pick) s"
    and "check_paths pidof processName dirs = Ok paths" and "0 \<le> countWorkers"
  shows "(k_err_closed s \<longleftrightarrow> (\<exists>r. k_main s = MReturned r)) \<and>
    ((\<exists>r. k_main s = MReturned r) \<longrightarrow> k_ctx_done s) \<and>
    (\<forall>e \<in> set (k_failed s). k_failed s = [e] \<and> k_cmp s = CExited \<and>
       (k_main s = MHandling e \<or> k_main s = MReturned (Some e))) \<and>
    int (length (p_workers (k_pool s))) = countWorkers \<and>
    length (p_buf (k_pool s)) \<le> length (p_workers (k_pool s)) \<and>
    mset (p_received (k_pool s)) \<subseteq># mset (hash_files hash (concat (chan_walk_dir lstat paths))) \<and>
    (p_hash_closed (k_pool s) \<longrightarrow> list_all (\<lambda>w. w = Exited) (p_workers (k_pool s)))"
proof -
  note run = assms(1) [unfolded check_init_eq [OF assms(2,3)]]
  have wf: "check_wf prep s" using run by (rule check_shape.reach_inv)
  have inv: "pool_inv hash (nat countWorkers) (concat (chan_walk_dir lstat paths)) (k_pool s)"
    using check_run.reach_inv [OF run] by (simp add: check_inv_def)
  show ?thesis
    using wf pool_inv_received [OF inv] inv assms(3)
    by (auto simp: check_wf_def pool_inv_def split: main_pc.splits)
qed

theorem check_state_well_formed_witness:
  "int (length (p_workers (k_pool (check_start (\<lambda>_. Inr RegularFile) (\<lambda>_. Some ''7'') ''p'' [''app''] 3)))) = 3"
proof -
  let ?s = "check_start (\<lambda>_. Inr RegularFile) (\<lambda>_. Some ''7'') ''p'' [''app''] 3"
  have "reach (\<lambda>s. s = ?s) (check_env_step Inr (Fail ErrCanceled) 0) ?s" by (rule reach_init) simp
  from check_state_well_formed [OF this demo_paths] show ?thesis by simp
qed

end
