(* ===== verification/Check_Cancelled.thy ===== *)
theory Check_Cancelled
  imports Check_Protocol
begin

text \<open>
  What a cancelled or failed check can do, and what it leaves behind: runs of the step relation of
  the theory Check_Protocol in which the context is cancelled or the comparison ends early.
\<close>

subsection \<open>A cancelled check\<close>

lemma expected_map_nonempty: "expectedHashes \<noteq> [] \<Longrightarrow> expected_map expectedHashes \<noteq> []"
proof -
  assume "expectedHashes \<noteq> []"
  then obtain h hs where "expectedHashes = h # hs" by (cases expectedHashes) auto
  then have "hdo_FullFileName h \<in> dom (baseline expectedHashes)"
    by (auto simp: baseline_def dom_map_of_conv_image_fst record_entry_def)
  then show ?thesis by (auto simp flip: map_of_expected_map)
qed

text \<open>Runs of the pipeline alone are runs of the check.\<close>

lemma reach_quiet:
  "run (quiet_step hash) p k q \<Longrightarrow>
   reach init (check_env_step hash prep pick) (s\<lparr>k_pool := p\<rparr>) \<Longrightarrow>
   reach init (check_env_step hash prep pick) (s\<lparr>k_pool := q\<rparr>)"
proof (induction rule: run.induct)
  case (run_Suc p k q u)
  then have "reach init (check_env_step hash prep pick) (s\<lparr>k_pool := q\<rparr>)" by blast
  moreover have "check_env_step hash prep pick (s\<lparr>k_pool := q\<rparr>) (s\<lparr>k_pool := u\<rparr>)"
    using check_own [OF pipeline [of hash "s\<lparr>k_pool := q\<rparr>" u]] run_Suc.hyps(2) by simp
  ultimately show ?case by (rule reach_step)
qed

lemma idle_run_quiet: "run (idle_step hash) p k q \<Longrightarrow> run (quiet_step hash) p k q"
  by (induction rule: run.induct) (auto intro: run.intros simp: idle_step_def)

text \<open>
  Cancelled before any worker has taken a name, with the goroutine waiting for hashes: the
  pipeline closes its channel, and its end is taken for the end of the files.
\<close>

definition in_loop :: "hash_data_output list \<Rightarrow> pool \<Rightarrow> check" where
  "in_loop expectedHashes p = (selecting p)\<lparr>k_cmp := CLoop (expected_map expectedHashes)\<rparr>"

lemma reach_in_loop:
  assumes "pool_init n names p"
  shows "reach (check_init n names) (check_env_step hash (Ok (procDirs, expectedHashes)) pick)
    (in_loop expectedHashes p)"
proof -
  have "reach (check_init n names) (check_env_step hash (Ok (procDirs, expectedHashes)) pick) (selecting p)"
    using assms by (intro reach_init) (auto simp: check_init_def)
  then show ?thesis unfolding in_loop_def
    by (rule reach_step) (rule check_own, rule cmp_prepared, simp_all add: selecting_def)
qed

lemma pool_init_exists: "\<exists>p. pool_init n names p"
  by (simp add: pool_init_def WorkersPool_def)

lemma pool_init_idle: "pool_init n names p \<Longrightarrow> pool_idle (p\<lparr>p_cancelled := True\<rparr>)"
  by (auto simp: pool_init_def WorkersPool_def pool_idle_def list_all_iff)

lemma cancelled_loop:
  assumes "pool_init n names p"
  shows "\<exists>q. reach (check_init n names) (check_env_step hash (Ok (procDirs, expectedHashes)) pick)
      (in_loop expectedHashes q) \<and> hashes_over q \<and> p_cancelled q"
proof -
  let ?c = "p\<lparr>p_cancelled := True\<rparr>"
  have idle: "pool_idle ?c" using assms by (rule pool_init_idle)
  from idle.reaches_final [OF idle] obtain k q where
    run: "run (idle_step hash) ?c k q" and closed: "p_hash_closed q" by blast
  have "pool_idle q" using idle.run_inv [OF run idle] .
  have "reach (check_init n names) (check_env_step hash (Ok (procDirs, expectedHashes)) pick)
      (in_loop expectedHashes ?c)"
    using reach_step [OF reach_in_loop [OF assms] check_cancel] by (simp add: in_loop_def selecting_def)
  with reach_quiet [OF idle_run_quiet [OF run], where s = "in_loop expectedHashes ?c"]
  have "reach (check_init n names) (check_env_step hash (Ok (procDirs, expectedHashes)) pick)
      (in_loop expectedHashes q)"
    by (simp add: in_loop_def selecting_def)
  with closed \<open>pool_idle q\<close> show ?thesis by (auto simp: hashes_over_def pool_idle_def)
qed

text \<open>The first hash can be received before anything is cancelled.\<close>

lemma first_hash:
  assumes "pool_init (Suc n) names p" and "hash_files hash (concat names) \<noteq> []"
  shows "\<exists>q v vs. reach (check_init (Suc n) names) (check_env_step hash (Ok (procDirs, expectedHashes)) pick)
      (in_loop expectedHashes q) \<and> p_buf q = v # vs"
proof -
  have inv: "pool_inv hash (Suc n) (concat names) p" using assms(1) by (rule pool_init_inv)
  have start: "p_received p = []" "\<not> p_cancelled p"
    using assms(1) by (auto simp: pool_init_def WorkersPool_def)
  from pool_bounded.reaches_final [OF inv] obtain k t where
    run: "run (pool_step hash) p k t" and final: "pool_done t" by blast
  have "\<not> p_cancelled t" using run start(2)
    by (induction rule: run.induct) (auto dest: pool_step_cancelled)
  with pool_inv_delivers [OF pool_bounded.run_inv [OF run inv]] final assms(2)
  have "p_received t \<noteq> []" by (auto simp: pool_done_def)
  with run_first_receive [OF run start(1)] obtain j q where
    q: "run (quiet_step hash) p j q" "p_buf q \<noteq> []" by blast
  with reach_quiet [OF q(1), where s = "in_loop expectedHashes p"] reach_in_loop [OF assms(1)]
  have "reach (check_init (Suc n) names) (check_env_step hash (Ok (procDirs, expectedHashes)) pick)
      (in_loop expectedHashes q)"
    by (simp add: in_loop_def selecting_def)
  with q(2) show ?thesis by (cases "p_buf q") auto
qed

text \<open>
  Three ways a cancelled check ends. In each a \<open>select\<close> or a channel operation that is possible
  together with others is the one taken.
\<close>

lemma reach_own:
  "reach init (check_env_step hash prep pick) s \<Longrightarrow> check_step hash prep pick s t \<Longrightarrow>
   reach init (check_env_step hash prep pick) t"
  by (blast intro: reach_step check_own)

lemma cancelled_reports_deleted:
  assumes "pool_init n names p" and "expectedHashes \<noteq> []"
  shows "\<exists>s e. reach (check_init n names) (check_env_step hash (Ok (procDirs, expectedHashes)) pick) s \<and>
    k_main s = MSelect \<and> k_cmp s = CSendErr (ErrIntegrity e) \<and> ie_Type e = ErrTypeFileDeleted \<and>
    k_ctx_done s \<and> k_failed s = []"
proof -
  let ?m = "expected_map expectedHashes"
  from cancelled_loop [OF assms(1), of hash procDirs expectedHashes pick] obtain q where
    q: "reach (check_init n names) (check_env_step hash (Ok (procDirs, expectedHashes)) pick)
      (in_loop expectedHashes q)" "hashes_over q" "p_cancelled q" by blast
  obtain e where e: "deleted_file pick ?m = Some e" and t: "ie_Type e = ErrTypeFileDeleted"
    using expected_map_nonempty [OF assms(2)]
    by (cases "?m ! (pick mod length ?m)") (auto simp: deleted_file_def)
  have "check_step hash (Ok (procDirs, expectedHashes)) pick (in_loop expectedHashes q)
      ((in_loop expectedHashes q)\<lparr>k_cmp := CSendErr (ErrIntegrity e)\<rparr>)"
    by (rule cmp_deleted) (use q e in \<open>simp_all add: in_loop_def selecting_def\<close>)
  from reach_own [OF q(1) this] show ?thesis
    by (intro exI [of _ "(in_loop expectedHashes q)\<lparr>k_cmp := CSendErr (ErrIntegrity e)\<rparr>"] exI [of _ e])
      (use q t in \<open>simp add: in_loop_def selecting_def\<close>)
qed

lemma cancelled_crash:
  assumes "reach init (check_env_step hash prep pick) s" and "k_main s = MSelect"
    and "k_cmp s = CSendErr e" and "k_ctx_done s"
  shows "\<exists>t. reach init (check_env_step hash prep pick) t \<and> k_cmp t = CPanicked"
proof -
  let ?r = "main_return (Some ErrCanceled) s"
  have "reach init (check_env_step hash prep pick) ?r"
    using assms by (blast intro: reach_own main_ctx)
  then have "reach init (check_env_step hash prep pick) (?r\<lparr>k_cmp := CPanicked\<rparr>)"
    by (rule reach_own) (rule cmp_closed, use assms(3) in \<open>simp_all add: main_return_def\<close>)
  then show ?thesis by force
qed

lemma taken_error:
  assumes "reach init (check_env_step hash prep pick) s" and "k_main s = MSelect"
    and "k_cmp s = CSendErr e" and "k_failed s = []"
  shows "\<exists>t. reach init (check_env_step hash prep pick) t \<and> k_failed t = [e]"
  using reach_own [OF assms(1) main_err [OF assms(2,3)]] assms(4) by fastforce

lemma cancelled_success:
  assumes "pool_init (Suc n) names p" and "hash_files hash (concat names) \<noteq> []"
  shows "\<exists>s. reach (check_init (Suc n) names) (check_env_step hash (Ok (procDirs, expectedHashes)) pick) s \<and>
    k_main s = MReturned None"
proof -
  let ?R = "reach (check_init (Suc n) names) (check_env_step hash (Ok (procDirs, expectedHashes)) pick)"
  let ?m = "expected_map expectedHashes"
  from first_hash [OF assms, of procDirs expectedHashes pick] obtain q v vs where
    q: "?R (in_loop expectedHashes q)" "p_buf q = v # vs" by blast
  let ?got = "(selecting (q\<lparr>p_buf := vs, p_received := p_received q @ [v]\<rparr>))\<lparr>k_cmp := CGot ?m v\<rparr>"
  have "check_step hash (Ok (procDirs, expectedHashes)) pick (in_loop expectedHashes q) ?got"
    using cmp_receive [of "in_loop expectedHashes q" ?m v vs] q(2)
    by (simp add: in_loop_def selecting_def)
  from reach_own [OF q(1) this] have "?R (cancel_ctx ?got)" by (rule reach_step) (rule check_cancel)
  then have "?R ((cancel_ctx ?got)\<lparr>k_cmp := CExited\<rparr>)"
    by (rule reach_own) (rule cmp_ctx, simp_all)
  then have "?R (main_return None ((cancel_ctx ?got)\<lparr>k_cmp := CExited\<rparr>))"
    by (rule reach_own) (rule main_done_closed, simp_all add: selecting_def)
  then show ?thesis by (force simp: main_return_def)
qed

text \<open>
  Property C17. Cancelling the context while a check runs can produce all of these, whatever the
  files are, provided some file can be hashed and there is a record: the goroutine sends on
  \<open>errC\<close> after \<open>CheckIntegrity\<close> has closed it and the process crashes; a file is reported deleted,
  and \<open>integrityCheckFailed\<close>, which restarts the pod, is called for it; the check reports success
  although the comparison was broken off.
\<close>

theorem cancelled_check_hazards:
  assumes "check_paths pidof processName dirs = Ok paths" and "0 < countWorkers"
    and "hash_files hash (concat (chan_walk_dir lstat paths)) \<noteq> []" and "expectedHashes \<noteq> []"
    and "prep = Ok (procDirs, expectedHashes)"
    and "reachable = reach (\<lambda>s. s = check_start lstat pidof processName dirs countWorkers)
      (check_env_step hash prep pick)"
  shows "(\<exists>s. reachable s \<and> k_cmp s = CPanicked) \<and>
    (\<exists>s e. reachable s \<and> ie_Type e = ErrTypeFileDeleted \<and> k_failed s = [ErrIntegrity e]) \<and>
    (\<exists>s. reachable s \<and> k_main s = MReturned None)"
proof -
  let ?n = "nat (countWorkers - 1)" and ?names = "chan_walk_dir lstat paths"
  have n: "nat countWorkers = Suc ?n" using assms(2) by simp
  have r: "reachable = reach (check_init (Suc ?n) ?names) (check_env_step hash prep pick)"
    unfolding assms(6) n [symmetric] using check_init_eq [OF assms(1), of countWorkers lstat] assms(2) by simp
  obtain p where p: "pool_init (Suc ?n) ?names p"
    using pool_init_exists by blast
  from cancelled_reports_deleted [OF p assms(4)] obtain s e where
    s: "reachable s" "k_main s = MSelect" "k_cmp s = CSendErr (ErrIntegrity e)"
      "ie_Type e = ErrTypeFileDeleted" "k_ctx_done s" "k_failed s = []"
    unfolding r assms(5) by blast
  from cancelled_crash [OF s(1) [unfolded r] s(2,3,5)] taken_error [OF s(1) [unfolded r] s(2,3,6)] s(4)
    cancelled_success [OF p assms(3)]
  show ?thesis unfolding r assms(5) by blast
qed

theorem cancelled_check_hazards_witness:
  "\<exists>s. reach (\<lambda>s. s = check_start (\<lambda>_. Inr (Directory [(''x'', RegularFile)])) (\<lambda>_. Some ''7'') ''p'' [''app''] 1)
     (check_env_step Inr (Ok (''/proc/7/root/'', [\<lparr>hdo_ID = 0, hdo_Hash = ''00'', hdo_FullFileName = ''a'',
        hdo_Algorithm = [], hdo_NamePod = [], hdo_ReleaseId = 0\<rparr>])) 0) s \<and> k_cmp s = CPanicked"
proof -
  have found: "hash_files Inr (concat (chan_walk_dir (\<lambda>_. Inr (Directory [(''x'', RegularFile)]))
      [''/proc/7/root/app''])) \<noteq> []"
    by (simp add: chan_walk_dir_def walk_root_def)
  show ?thesis by (rule cancelled_check_hazards [OF demo_paths _ found _ refl refl, THEN conjunct1]) simp_all
qed

definition worker_stuck :: "nat \<Rightarrow> file_hash \<Rightarrow> pool \<Rightarrow> bool" where
  "worker_stuck i x p \<longleftrightarrow> length (p_buf p) = length (p_workers p) \<and> i < length (p_workers p) \<and>
     p_workers p ! i = Sending x \<and> \<not> p_hash_closed p"

lemma worker_stuck_cancel [simp]: "worker_stuck i x (p\<lparr>p_cancelled := True\<rparr>) = worker_stuck i x p"
  by (simp add: worker_stuck_def)

lemma worker_stuck_quiet: "worker_stuck i x p \<Longrightarrow> quiet_step hash p q \<Longrightarrow> worker_stuck i x q"
  unfolding quiet_step_def worker_stuck_def
  by (elim conjE, elim pool_step.cases) (auto simp: nth_list_update list_all_length)

lemma worker_stuck_step:
  "check_env_step hash prep pick s t \<Longrightarrow> k_cmp s = CExited \<Longrightarrow> worker_stuck i x (k_pool s) \<Longrightarrow>
   k_cmp t = CExited \<and> worker_stuck i x (k_pool t)"
  by (elim check_env_stepE check_step.cases) (auto simp: main_return_def worker_stuck_quiet)

text \<open>
  Property C39. Once the comparing goroutine has stopped, nobody receives hashes any more: a
  worker that is sending when the buffer is full stays there for ever, whether or not the
  check has returned and its context is cancelled, as the send does not look at the context. The
  pool's own goroutine waits for it, so the hash channel is never closed.
\<close>

theorem blocked_worker_leaks:
  assumes "reach (\<lambda>u. u = s) (check_env_step hash prep pick) t" and "k_cmp s = CExited"
    and "length (p_buf (k_pool s)) = length (p_workers (k_pool s))" and "i < length (p_workers (k_pool s))"
    and "p_workers (k_pool s) ! i = Sending x" and "\<not> p_hash_closed (k_pool s)"
  shows "p_workers (k_pool t) ! i = Sending x \<and> \<not> p_hash_closed (k_pool t)"
proof -
  from assms(1) have "k_cmp t = CExited \<and> worker_stuck i x (k_pool t)"
    by (induction rule: reach.induct) (use assms(2-) worker_stuck_step in \<open>auto simp: worker_stuck_def\<close>)
  then show ?thesis by (simp add: worker_stuck_def)
qed

theorem blocked_worker_leaks_witness:
  "p_workers (k_pool (cancel_ctx ((selecting (tiny [[''b'']] (Sending \<lparr>fh_Path = ''a'', fh_Hash = ''00''\<rparr>) False
      [\<lparr>fh_Path = ''c'', fh_Hash = ''00''\<rparr>] []))\<lparr>k_cmp := CExited\<rparr>))) ! 0 =
    Sending \<lparr>fh_Path = ''a'', fh_Hash = ''00''\<rparr>"
proof -
  let ?s = "(selecting (tiny [[''b'']] (Sending \<lparr>fh_Path = ''a'', fh_Hash = ''00''\<rparr>) False
      [\<lparr>fh_Path = ''c'', fh_Hash = ''00''\<rparr>] []))\<lparr>k_cmp := CExited\<rparr>"
  have "reach (\<lambda>u. u = ?s) (check_env_step Inr (Fail ErrCanceled) 0) ?s" by (rule reach_init) simp
  then have "reach (\<lambda>u. u = ?s) (check_env_step Inr (Fail ErrCanceled) 0) (cancel_ctx ?s)"
    by (rule reach_step) (rule check_cancel)
  from blocked_worker_leaks [OF this, of 0 "\<lparr>fh_Path = ''a'', fh_Hash = ''00''\<rparr>"] show ?thesis
    by (simp add: tiny_def selecting_def)
qed

end
