(* ===== verification/Alerts.thy ===== *)
theory Alerts
  imports Go_Errors Process "HOL-Library.Word"
begin

unbundle bit_operations_syntax

text \<open>
  Alerts: pkg/alerts/alerts.go, pkg/alerts/errors.go, pkg/alerts/syslog/syslog.go, and
  \<open>integrityCheckFailed\<close> of internal/integritymonitor/integritymonitor.go. A sender is any
  function on the state of the world it sends to; the registry is the list of them, in the
  order of registration.
\<close>

record alert =
  al_Time :: int
  al_Message :: string
  al_Reason :: string
  al_Path :: string
  al_ProcessName :: string

definition HeartbeatEvent :: string where "HeartbeatEvent = ''heartbeat event''"

definition alert_New :: "int \<Rightarrow> string \<Rightarrow> string \<Rightarrow> string \<Rightarrow> string \<Rightarrow> alert" where
  "alert_New now msg reason path procName =
     \<lparr>al_Time = now, al_Message = msg, al_Reason = reason, al_Path = path, al_ProcessName = procName\<rparr>"

type_synonym 'w sender = "alert \<Rightarrow> 'w \<Rightarrow> 'w \<times> go_error option"

definition alerts_Register :: "'w sender list \<Rightarrow> 'w sender \<Rightarrow> 'w sender list" where
  "alerts_Register registry s = registry @ [s]"

definition errors_collect :: "go_error list \<Rightarrow> go_error \<Rightarrow> go_error list" where
  "errors_collect es e = es @ [e]"

fun send_loop :: "'w sender list \<Rightarrow> alert \<Rightarrow> go_error list \<Rightarrow> 'w \<Rightarrow> 'w \<times> go_error list" where
  "send_loop [] alert errs w = (w, errs)"
| "send_loop (s # ss) alert errs w =
     (case s alert w of
        (w', Some err) \<Rightarrow> send_loop ss alert (errors_collect errs err) w'
      | (w', None) \<Rightarrow> send_loop ss alert errs w')"

definition alerts_Send :: "'w sender list \<Rightarrow> alert \<Rightarrow> 'w \<Rightarrow> 'w \<times> go_error option" where
  "alerts_Send registry alert w =
     (let (w', errs) = send_loop registry alert [] w in
      (w', if length errs = 0 then None else Some (ErrList errs)))"

text \<open>
  The goroutine of \<open>Heartbeat\<close> over what its \<open>select\<close> takes: a tick at some time, or the end of
  the context.
\<close>

datatype heartbeat_event = Tick int | CtxDone

fun heartbeat :: "'w sender list \<Rightarrow> alert \<Rightarrow> heartbeat_event list \<Rightarrow> 'w \<Rightarrow> 'w" where
  "heartbeat registry alert [] w = w"
| "heartbeat registry alert (CtxDone # es) w = w"
| "heartbeat registry alert (Tick now # es) w =
     heartbeat registry (alert\<lparr>al_Time := now\<rparr>) es
       (fst (alerts_Send registry (alert\<lparr>al_Time := now\<rparr>) w))"

text \<open>
  \<open>integrityCheckFailed\<close>: \<open>restartPod\<close> is the client's \<open>RestartPod\<close>, whose error is dropped.
\<close>

definition integrityCheckFailed ::
    "int \<Rightarrow> 'w sender list \<Rightarrow> ('w \<Rightarrow> 'w \<times> go_error option) \<Rightarrow> string \<Rightarrow> go_error \<Rightarrow> string \<Rightarrow> 'w \<Rightarrow> 'w" where
  "integrityCheckFailed now registry restartPod namePod err procName w =
     (case as_integrity_error err of
        None \<Rightarrow> w
      | Some integrityError \<Rightarrow>
          let (w', alertErr) = alerts_Send registry
                (alert_New now (''Restart pod '' @ namePod) (error_text err) (ie_Path integrityError) procName) w
          in fst (restartPod w'))"

subsection \<open>The syslog sender\<close>

definition LOG_WARNING :: "32 word" where "LOG_WARNING = 4"
definition LOG_DAEMON :: "32 word" where "LOG_DAEMON = push_bit 3 3"
definition DefaultPriority :: "32 word" where "DefaultPriority = LOG_WARNING OR LOG_DAEMON"

definition ErrToType :: "string \<Rightarrow> nat option" where
  "ErrToType = Map.empty(''file content mismatch'' \<mapsto> 1, ''new file found'' \<mapsto> 2,
     ''file deleted'' \<mapsto> 3, HeartbeatEvent \<mapsto> 4)"

record syslog_client =
  sl_netType :: string
  sl_address :: string
  sl_priority :: "32 word"
  sl_tag :: string
  sl_hostname :: string

text \<open>
  What the sender reads outside: \<open>os.Hostname\<close>, \<open>os.Args[0]\<close>, the process id, the configuration
  values of the message, and the text of a time in the format \<open>time.Stamp\<close>.
\<close>

record syslog_env =
  sy_hostname :: string
  sy_arg0 :: string
  sy_pid :: nat
  sy_now :: int
  sy_stamp :: "int \<Rightarrow> string"
  sy_process_image :: "string \<Rightarrow> string option"
  sy_pod_namespace :: string
  sy_cluster_name :: string

definition syslog_New :: "syslog_env \<Rightarrow> string \<Rightarrow> string \<Rightarrow> 32 word \<Rightarrow> string \<Rightarrow> string \<Rightarrow> syslog_client" where
  "syslog_New env network addr priority hostName tag =
     \<lparr>sl_netType = network, sl_address = addr, sl_priority = priority,
      sl_tag = (if tag = [] then sy_arg0 env else tag),
      sl_hostname = (if hostName = [] then sy_hostname env else hostName)\<rparr>"

definition map_get :: "(string \<Rightarrow> 'a option) \<Rightarrow> 'a \<Rightarrow> string \<Rightarrow> 'a" where
  "map_get m zero k = (case m k of None \<Rightarrow> zero | Some v \<Rightarrow> v)"

definition syslogMessage :: "syslog_env \<Rightarrow> alert \<Rightarrow> string" where
  "syslogMessage env alert =
     (let podName = sy_hostname env; pn = al_ProcessName alert in
      ''time='' @ sy_stamp env (al_Time alert) @
      '' event-type='' @ pad4 (map_get ErrToType 0 (al_Reason alert)) @
      '' service='' @ pn @ '' pod='' @ podName @
      '' image='' @ map_get (sy_process_image env) [] pn @
      '' namespace='' @ sy_pod_namespace env @ '' cluster='' @ sy_cluster_name env @
      '' message='' @ al_Message alert @ '' file='' @ al_Path alert @ '' reason='' @ al_Reason alert)"

text \<open>
  \<open>Send\<close>: \<open>dial\<close> and \<open>conn_write\<close> are the network; what is written is the record.
\<close>

definition syslog_record :: "syslog_env \<Rightarrow> syslog_client \<Rightarrow> alert \<Rightarrow> string" where
  "syslog_record env sl alert =
     (let msg = syslogMessage env alert;
          nl = (if \<not> has_suffix msg [CHR 0x0A] then [CHR 0x0A] else []);
          header = ''<'' @ nat_str (unat (sl_priority sl)) @ ''>'' @ sy_stamp env (sy_now env) @ '' '' @
                   sl_hostname sl @ '' '' @ sl_tag sl @ ''['' @ nat_str (sy_pid env) @ '']:''
      in header @ '' '' @ msg @ nl)"

definition syslog_Send ::
    "(string \<Rightarrow> string \<Rightarrow> 'w \<Rightarrow> 'w \<times> go_error option) \<Rightarrow> (string \<Rightarrow> 'w \<Rightarrow> 'w \<times> go_error option) \<Rightarrow>
     syslog_env \<Rightarrow> syslog_client \<Rightarrow> 'w sender" where
  "syslog_Send dial conn_write env sl alert w =
     (case dial (sl_netType sl) (sl_address sl) w of
        (w', Some err) \<Rightarrow>
          (w', Some (ErrWrapBlank (''cannnot connect to syslog host '' @ sl_address sl) err))
      | (w', None) \<Rightarrow> conn_write (syslog_record env sl alert) w')"

subsection \<open>Sending to all\<close>

text \<open>What a list of senders does to the world, and the errors they return, in order.\<close>

fun sends :: "'w sender list \<Rightarrow> alert \<Rightarrow> 'w \<Rightarrow> 'w" where
  "sends [] alert w = w"
| "sends (s # ss) alert w = sends ss alert (fst (s alert w))"

fun send_errors :: "'w sender list \<Rightarrow> alert \<Rightarrow> 'w \<Rightarrow> go_error list" where
  "send_errors [] alert w = []"
| "send_errors (s # ss) alert w =
     (case snd (s alert w) of None \<Rightarrow> [] | Some err \<Rightarrow> [err]) @ send_errors ss alert (fst (s alert w))"

lemma send_loop_sends: "send_loop ss alert errs w = (sends ss alert w, errs @ send_errors ss alert w)"
proof (induction ss arbitrary: errs w)
  case (Cons s ss)
  then show ?case by (cases "s alert w") (auto simp: errors_collect_def split: option.splits)
qed simp

lemma alerts_Send_eq:
  "alerts_Send registry alert w =
     (sends registry alert w,
      if send_errors registry alert w = [] then None else Some (ErrList (send_errors registry alert w)))"
  by (simp add: alerts_Send_def send_loop_sends)

lemma sends_append: "sends (ss @ ts) alert w = sends ts alert (sends ss alert w)"
  by (induction ss arbitrary: w) auto

subsection \<open>Properties\<close>

text \<open>
  A failed check with an integrity error sends one alert to every registered
  sender, in the order of registration, and then restarts the pod, whatever the senders
  return; the alert names the pod, the process, the file and the kind of change. A failure
  without an integrity error does nothing, however its error is wrapped.
\<close>

lemma failed_check_alerts_then_restarts:
  "integrityCheckFailed now registry restartPod namePod err procName w =
     (case as_integrity_error err of
        None \<Rightarrow> w
      | Some e \<Rightarrow> fst (restartPod (sends registry
          \<lparr>al_Time = now, al_Message = ''Restart pod '' @ namePod, al_Reason = error_text err,
           al_Path = ie_Path e, al_ProcessName = procName\<rparr> w)))"
  by (simp add: integrityCheckFailed_def alerts_Send_eq alert_New_def split: option.splits)

text \<open>
  \<open>Send\<close> reports success exactly if every sender did, and otherwise one error that
  lists the errors of all senders that failed; a sender registered later is called after the
  others, even where they failed.
\<close>

lemma send_reaches_every_sender:
  "fst (alerts_Send (alerts_Register registry s) alert w) = fst (s alert (fst (alerts_Send registry alert w))) \<and>
   (snd (alerts_Send registry alert w) = None) = (send_errors registry alert w = []) \<and>
   snd (alerts_Send (alerts_Register registry s) alert w) =
     (case (snd (alerts_Send registry alert w), snd (s alert (sends registry alert w))) of
        (None, None) \<Rightarrow> None
      | (None, Some e) \<Rightarrow> Some (ErrList [e])
      | (Some err, None) \<Rightarrow> Some err
      | (Some err, Some e) \<Rightarrow> Some (ErrList (send_errors registry alert w @ [e])))"
proof -
  have "send_errors (registry @ [s]) alert w = send_errors registry alert w @
      (case snd (s alert (sends registry alert w)) of None \<Rightarrow> [] | Some e \<Rightarrow> [e])"
    by (induction registry arbitrary: w) auto
  then show ?thesis
    by (auto simp: alerts_Send_eq alerts_Register_def sends_append split: option.splits)
qed

text \<open>
  The event type of a syslog message is the type of the integrity error: the
  message of an alert raised for an error of one of the three types carries that number in four
  digits, 0004 stands for a heartbeat, and the priority is that of a daemon's warning.
\<close>

lemma syslog_event_type:
  assumes "ie_Type e \<in> {ErrTypeFileMismatch, ErrTypeNewFile, ErrTypeFileDeleted}"
  shows "(\<exists>head tail. syslogMessage env (alert_New now msg (error_text (ErrIntegrity e)) (ie_Path e) procName) =
      head @ '' event-type='' @ ''000'' @ nat_str (nat (ie_Type e)) @ '' service='' @ procName @ tail) \<and>
    (\<exists>head tail. syslogMessage env (alert_New now msg HeartbeatEvent path procName) =
      head @ '' event-type=0004 service='' @ tail) \<and>
    unat DefaultPriority = 28"
proof (intro conjI)
  have p: "pad4 1 = ''0001''" "pad4 2 = ''0002''" "pad4 3 = ''0003''" "pad4 4 = ''0004''"
    "nat_str 1 = ''1''" "nat_str 2 = ''2''" "nat_str 3 = ''3''"
    by code_simp+
  have t: "pad4 (map_get ErrToType 0 (error_text (ErrIntegrity e))) = ''000'' @ nat_str (nat (ie_Type e))"
    using assms p
    by (auto simp: integrity_error_text_def err_type_defs integrity_message_defs ErrToType_def
        map_get_def HeartbeatEvent_def)
  show "\<exists>head tail. syslogMessage env (alert_New now msg (error_text (ErrIntegrity e)) (ie_Path e) procName) =
      head @ '' event-type='' @ ''000'' @ nat_str (nat (ie_Type e)) @ '' service='' @ procName @ tail"
    unfolding syslogMessage_def Let_def alert_New_def alert.simps t
    by (rule exI [of _ "''time='' @ sy_stamp env now"]) simp
  have h: "pad4 (map_get ErrToType 0 HeartbeatEvent) = ''0004''"
    using p by (simp add: map_get_def ErrToType_def)
  show "\<exists>head tail. syslogMessage env (alert_New now msg HeartbeatEvent path procName) =
      head @ '' event-type=0004 service='' @ tail"
    unfolding syslogMessage_def Let_def alert_New_def alert.simps h
    by (rule exI [of _ "''time='' @ sy_stamp env now"]) simp
  show "unat DefaultPriority = 28"
    by (simp add: DefaultPriority_def LOG_WARNING_def LOG_DAEMON_def)
qed

end
