(* ===== verification/Monitor.thy ===== *)
theory Monitor
  imports Check_Cancelled Alerts Minio_Storage
begin

text \<open>
  A check with what it does to the world: \<open>CheckIntegrity\<close> calls \<open>integrityCheckFailed\<close> for the
  error it takes from \<open>errC\<close>, which sends an alert and restarts the pod. The calls are recorded
  in \<open>k_failed\<close> of the theory Check_Protocol; \<open>react\<close> makes them.
\<close>

definition react ::
    "int \<Rightarrow> 'w sender list \<Rightarrow> ('w \<Rightarrow> 'w \<times> go_error option) \<Rightarrow> string \<Rightarrow> string \<Rightarrow> check \<Rightarrow> 'w \<Rightarrow> 'w" where
  "react now registry restartPod namePod procName s w =
     foldl (\<lambda>w err. integrityCheckFailed now registry restartPod namePod err procName w) w (k_failed s)"

subsection \<open>Errors that are not about integrity\<close>

lemma get_loop_Fail_plain: "get_loop cs data = Fail e \<Longrightarrow> as_integrity_error e = None"
proof (induction cs data rule: get_loop.induct)
  case (1 cs data)
  show ?case
  proof (cases "scan data")
    case None
    with 1(2) show ?thesis by (simp add: get_loop.simps)
  next
    case (Some lr)
    obtain line rest where lr: "lr = (line, rest)" by (rule prod.exhaust)
    show ?thesis
    proof (cases "parseRecord line")
      case (Ok r)
      have "get_loop (cs @ [r]) rest = Fail e"
        using 1(2) Some lr Ok by (simp add: get_loop.simps [of cs data])
      then show ?thesis using 1(1) Some lr by blast
    next
      case (Fail e')
      then have "as_integrity_error e' = None" by (auto simp: parseRecord_def Let_def split: if_splits)
      then show ?thesis using 1(2) Some lr Fail by (simp add: get_loop.simps [of cs data])
    next
      case (Panic m)
      then show ?thesis using parseRecord_no_panic by blast
    qed
  qed
qed

lemma prepare_Fail_plain:
  assumes "compare_prepare pidof load cfg procName alg = Fail err"
    and "\<And>bucket name e. load bucket name = Fail e \<Longrightarrow> as_integrity_error e = None"
  shows "as_integrity_error err = None"
proof -
  have p: "as_integrity_error e = None" if "GetProcessPath pidof procName [] = Fail e" for e
    using that
    by (auto simp: GetProcessPath_def GetPID_def ErrProcessNotFound_def Let_def split: option.splits if_splits)
  have c: "as_integrity_error e = None" if "CheckSumFile cfg procName alg = Fail e" for e
    using that by (auto simp: CheckSumFile_def Let_def split: if_splits)
  have g: "as_integrity_error e = None" if "checksums_Get d = Fail e" for d e
    using that get_loop_Fail_plain by (simp add: checksums_Get_def)
  show ?thesis
    using assms(1) p c g assms(2)
    by (cases "GetProcessPath pidof procName []"; cases "CheckSumFile cfg procName alg";
        cases "load (cfg_minio_bucket cfg) (case CheckSumFile cfg procName alg of Ok f \<Rightarrow> f | _ \<Rightarrow> [])";
        cases "checksums_Get (case load (cfg_minio_bucket cfg)
            (case CheckSumFile cfg procName alg of Ok f \<Rightarrow> f | _ \<Rightarrow> []) of Ok d \<Rightarrow> d | _ \<Rightarrow> [])")
      (auto simp: compare_prepare_def)
qed

text \<open>
  Property C13. Which checks are acted upon. A check that nobody cancels and that compares and
  does not succeed raises one alert with every registered sender, whatever they return, and
  then restarts the pod, once; the alert carries the text and the path of an integrity error that
  is true of the files and the baseline. A check that succeeds does nothing. A check that fails
  before the comparison, because the process, the baseline's name or the baseline itself cannot
  be had, or because the baseline cannot be parsed, returns an error but raises no alert and
  restarts nothing: removing the baseline silences the monitor.
\<close>

theorem alerts_only_for_integrity_errors:
  assumes "reach (\<lambda>s. s = check_start lstat pidof procName dirs countWorkers)
      (check_step hash (compare_prepare pidof load cfg procName alg) pick) s"
    and "check_paths pidof procName dirs = Ok paths" and "0 < countWorkers"
    and "k_main s = MReturned r"
    and "\<And>m. compare_prepare pidof load cfg procName alg \<noteq> Panic m"
    and "\<And>bucket name e. load bucket name = Fail e \<Longrightarrow> as_integrity_error e = None"
  shows "case compare_prepare pidof load cfg procName alg of
      Ok (procDirs, expectedHashes) \<Rightarrow>
        r = None \<and> react now registry restartPod namePod procName s w = w \<or>
        (\<exists>e hashes. r = Some (ErrIntegrity e) \<and>
          mset hashes = mset (hash_files hash (concat (chan_walk_dir lstat paths))) \<and>
          error_justified (baseline expectedHashes) (map (file_entry procDirs) hashes) e \<and>
          react now registry restartPod namePod procName s w =
            fst (restartPod (sends registry
              \<lparr>al_Time = now, al_Message = ''Restart pod '' @ namePod, al_Reason = integrity_error_text e,
               al_Path = ie_Path e, al_ProcessName = procName\<rparr> w)))
    | _ \<Rightarrow> r \<noteq> None \<and> react now registry restartPod namePod procName s w = w"
proof -
  let ?prep = "compare_prepare pidof load cfg procName alg"
  from calm_returns [OF check_start_workers [OF assms(1-3)] assms(5)] assms(4) obtain hashes where
    m: "mset hashes = mset (hash_files hash (concat (chan_walk_dir lstat paths)))"
    and r: "(r, k_failed s) = result_of (verdict ?prep hashes pick)"
    by (auto simp: verdict_on_def)
  show ?thesis
  proof (cases ?prep)
    case (Ok p)
    obtain procDirs expectedHashes where p: "p = (procDirs, expectedHashes)" by (rule prod.exhaust)
    have v: "verdict ?prep hashes pick = compare_expected procDirs expectedHashes hashes pick"
      by (simp add: verdict_def Ok p)
    show ?thesis
    proof (cases "compare_expected procDirs expectedHashes hashes pick")
      case Ok': (Ok n)
      with r v show ?thesis by (simp add: Ok p react_def)
    next
      case (Fail err)
      from compare_expected_Fail [OF this] obtain e where "err = ErrIntegrity e"
        "error_justified (baseline expectedHashes) (map (file_entry procDirs) hashes) e" by blast
      with r v Fail m show ?thesis
        by (auto simp: Ok p react_def failed_check_alerts_then_restarts)
    next
      case (Panic msg)
      then show ?thesis by (simp add: compare_expected_no_panic)
    qed
  next
    case (Fail e)
    with r prepare_Fail_plain [OF Fail assms(6)] show ?thesis
      by (simp add: verdict_def react_def failed_check_alerts_then_restarts)
  next
    case (Panic msg)
    with assms(5) show ?thesis by blast
  qed
qed

theorem alerts_only_for_integrity_errors_witness:
  "\<exists>s r. k_main s = MReturned (Some r) \<and>
    react 0 [\<lambda>alert w. (al_Path alert # w, None)] (\<lambda>w. (''restarted'' # w, None)) ''pod'' ''p'' s [] = []"
proof -
  let ?pidof = "\<lambda>_. Some ''7''" and ?load = "\<lambda>b n. Fail ErrNoSuchKey"
  let ?cfg = "\<lparr>cfg_process_image = Map.empty(''p'' \<mapsto> ''im:1''), cfg_pod_namespace = ''ns'',
     cfg_minio_bucket = ''integrity'', cfg_algorithm = ''SHA256'', cfg_count_workers = 1\<rparr>"
  let ?prep = "compare_prepare ?pidof ?load ?cfg ''p'' ''SHA256''"
  have prep: "?prep = Fail (ErrWrap ''cannot read hash data'' ErrNoSuchKey)" by code_simp
  then have np: "?prep \<noteq> Panic m" for m by simp
  obtain s r where s: "reach (\<lambda>s. s = check_start (\<lambda>_. Inr RegularFile) ?pidof ''p'' [''app''] 1)
      (check_step Inr ?prep 0) s" "k_main s = MReturned r"
    using calm_run_returns [OF demo_paths, of 1 ?prep "\<lambda>_. Inr RegularFile" Inr 0] np by auto
  from alerts_only_for_integrity_errors [OF s(1) demo_paths _ s(2) np, of 0
      "[\<lambda>alert w. (al_Path alert # w, None)]" "\<lambda>w. (''restarted'' # w, None)" "''pod''" "[]"] prep s(2)
  show ?thesis by (auto simp: ErrNoSuchKey_def)
qed

end
