(* ===== verification/Main_Loop.thy ===== *)
theory Main_Loop
  imports Go_Errors
begin

text \<open>
  The loop of the monitor: \<open>runCheckIntegrity\<close> of cmd/k8s-integrity-sum/main.go. The world \<open>w\<close>
  holds the context; \<open>check\<close> is \<open>CheckIntegrity\<close> with its other arguments. A tick comes with the
  order in which Go iterates over the map then.
\<close>

text \<open>\<open>None\<close> as outcome: the loop goes on; \<open>Some r\<close>: the function has returned \<open>r\<close>.\<close>

fun processes_loop ::
    "('w \<Rightarrow> bool) \<Rightarrow> (string \<Rightarrow> string list \<Rightarrow> 'w \<Rightarrow> 'w \<times> go_error option) \<Rightarrow>
     (string \<times> string list) list \<Rightarrow> 'w \<Rightarrow> 'w \<times> go_error option option" where
  "processes_loop ctx_done check [] w = (w, None)"
| "processes_loop ctx_done check ((proc, paths) # ps) w =
     (if ctx_done w then (w, Some (Some ErrCanceled))
      else processes_loop ctx_done check ps (fst (check proc paths w)))"

fun runCheckIntegrity ::
    "('w \<Rightarrow> bool) \<Rightarrow> (string \<Rightarrow> string list \<Rightarrow> 'w \<Rightarrow> 'w \<times> go_error option) \<Rightarrow>
     (string \<times> string list) list list \<Rightarrow> 'w \<Rightarrow> 'w \<times> go_error option option" where
  "runCheckIntegrity ctx_done check [] w = (w, None)"
| "runCheckIntegrity ctx_done check (tick # ticks) w =
     (case processes_loop ctx_done check tick w of
        (w', Some r) \<Rightarrow> (w', Some r)
      | (w', None) \<Rightarrow> runCheckIntegrity ctx_done check ticks w')"

text \<open>All the checks of some ticks, whatever they return.\<close>

fun checks :: "(string \<Rightarrow> string list \<Rightarrow> 'w \<Rightarrow> 'w \<times> go_error option) \<Rightarrow> (string \<times> string list) list \<Rightarrow> 'w \<Rightarrow> 'w" where
  "checks check [] w = w"
| "checks check (p # ps) w = checks check ps (fst (check (fst p) (snd p) w))"

text \<open>The number of checks before the first one that finds the context done.\<close>

fun checks_made ::
    "('w \<Rightarrow> bool) \<Rightarrow> (string \<Rightarrow> string list \<Rightarrow> 'w \<Rightarrow> 'w \<times> go_error option) \<Rightarrow>
     (string \<times> string list) list \<Rightarrow> 'w \<Rightarrow> nat" where
  "checks_made ctx_done check [] w = 0"
| "checks_made ctx_done check (p # ps) w =
     (if ctx_done w then 0 else Suc (checks_made ctx_done check ps (fst (check (fst p) (snd p) w))))"

lemma checks_made_le: "checks_made ctx_done check ps w \<le> length ps"
  by (induction ps arbitrary: w) auto

lemma checks_made_before:
  "j < checks_made ctx_done check ps w \<Longrightarrow> \<not> ctx_done (checks check (take j ps) w)"
proof (induction ps arbitrary: w j)
  case (Cons p ps)
  then show ?case by (cases j) (auto split: if_splits)
qed simp

lemma checks_made_done:
  "checks_made ctx_done check ps w = length ps \<or>
   ctx_done (checks check (take (checks_made ctx_done check ps w) ps) w)"
  by (induction ps arbitrary: w) auto

lemma checks_made_append:
  "checks_made ctx_done check (ps @ qs) w =
     (if checks_made ctx_done check ps w < length ps then checks_made ctx_done check ps w
      else length ps + checks_made ctx_done check qs (checks check ps w))"
  using checks_made_le [of ctx_done check] by (induction ps arbitrary: w) auto

lemma processes_loop_made:
  "processes_loop ctx_done check ps w =
     (checks check (take (checks_made ctx_done check ps w) ps) w,
      if checks_made ctx_done check ps w < length ps then Some (Some ErrCanceled) else None)"
  by (induction ps arbitrary: w) auto

lemma checks_append: "checks check (ps @ qs) w = checks check qs (checks check ps w)"
  by (induction ps arbitrary: w) auto

lemma run_made:
  "runCheckIntegrity ctx_done check ticks w =
     (checks check (take (checks_made ctx_done check (concat ticks) w) (concat ticks)) w,
      if checks_made ctx_done check (concat ticks) w < length (concat ticks)
      then Some (Some ErrCanceled) else None)"
proof (induction ticks arbitrary: w)
  case (Cons tick ticks)
  have "\<not> checks_made ctx_done check tick w < length tick \<Longrightarrow> checks_made ctx_done check tick w = length tick"
    using checks_made_le [of ctx_done check tick w] by simp
  then show ?case
    using Cons by (auto simp: processes_loop_made checks_made_append checks_append)
qed simp

text \<open>
  Failed checks do not end the monitor: it makes the checks of every tick, each
  process once per tick in the order of the map iteration, up to the first one before which the
  context is found done; then it makes no further check and returns the context's error, and it
  returns for no other reason. In particular a cancelled context is not seen between the ticks.
\<close>

lemma loop_checks_until_cancelled:
  "\<exists>k. k \<le> length (concat ticks) \<and>
     runCheckIntegrity ctx_done check ticks w = (checks check (take k (concat ticks)) w,
       if k < length (concat ticks) then Some (Some ErrCanceled) else None) \<and>
     list_all (\<lambda>j. \<not> ctx_done (checks check (take j (concat ticks)) w)) [0..<k] \<and>
     (k = length (concat ticks) \<or> ctx_done (checks check (take k (concat ticks)) w))"
  using run_made [of ctx_done check ticks w] checks_made_le [of ctx_done check "concat ticks" w]
    checks_made_before [of _ ctx_done check "concat ticks" w]
    checks_made_done [of ctx_done check "concat ticks" w]
  by (intro exI [of _ "checks_made ctx_done check (concat ticks) w"]) (simp add: list_all_iff)

end
