(* ===== verification/Detection.thy ===== *)
theory Detection
  imports Baseline Monitor Main_Loop
begin

text \<open>
  What the monitor does over its ticks: the loop of cmd/k8s-integrity-sum/main.go with the
  concurrent check of every process, its alerts and restarts, against baselines that the snapshot
  tool wrote.
\<close>

subsection \<open>A process with a baseline\<close>

text \<open>The machine as the checks see it: pidof, the file system, and the storage.\<close>

record 'w machine =
  mc_pidof :: "'w \<Rightarrow> string \<Rightarrow> string option"
  mc_lstat :: "'w \<Rightarrow> string \<Rightarrow> go_error + file_node"
  mc_hash :: "'w \<Rightarrow> string \<Rightarrow> go_error + string"
  mc_load :: "'w \<Rightarrow> string \<Rightarrow> string \<Rightarrow> string result"

text \<open>
  \<open>content\<close> is a baseline that the tool wrote without an error, \<open>recorded\<close> its paths and hashes.
\<close>

definition snapshot_taken :: "string \<Rightarrow> (string \<times> string) list \<Rightarrow> bool" where
  "snapshot_taken content recorded \<longleftrightarrow>
     (\<exists>env scfg hash files files'.
        CalculateAndWriteHashes env scfg files = (files', None) \<and> content = the (files' (sc_out scfg)) \<and>
        recorded = tree_entries hash (se_lstat env) (sc_root_fs scfg) (sc_dir scfg) \<and>
        clean_root (sc_root_fs scfg) \<and>
        list_all (good_dir (se_lstat env) (sc_root_fs scfg)) (sc_dir scfg) \<and> separate (sc_dir scfg) \<and>
        pool_runs hash (se_pool env (sc_algorithm scfg)) \<and>
        list_all (\<lambda>e. record_safe (snd e) (fst e)) recorded)"

text \<open>A process that runs as \<open>pid\<close> below readable directories.\<close>

definition running :: "'w machine \<Rightarrow> string \<Rightarrow> string list \<Rightarrow> 'w \<Rightarrow> nat \<Rightarrow> bool" where
  "running m proc dirs w pid \<longleftrightarrow>
     (\<exists>pids. mc_pidof m w proc = Some (pidof_output (pid # pids))) \<and> 0 < pid \<and> pid < 2 ^ 63 \<and>
     list_all (good_dir (mc_lstat m w) (proc_root pid)) dirs \<and> separate dirs"

text \<open>Such a process whose baseline can be loaded.\<close>

definition watched ::
    "'w machine \<Rightarrow> config \<Rightarrow> string \<Rightarrow> string list \<Rightarrow> 'w \<Rightarrow> nat \<Rightarrow> (string \<times> string) list \<Rightarrow> bool" where
  "watched m cfg proc dirs w pid recorded \<longleftrightarrow>
     running m proc dirs w pid \<and> 0 < cfg_count_workers cfg \<and>
     (\<exists>csFile content. CheckSumFile cfg proc (cfg_algorithm cfg) = Ok csFile \<and>
        mc_load m w (cfg_minio_bucket cfg) csFile = Ok content \<and> snapshot_taken content recorded)"

text \<open>The paths and hashes that the process has now.\<close>

definition current :: "'w machine \<Rightarrow> string list \<Rightarrow> 'w \<Rightarrow> nat \<Rightarrow> (string \<times> string) list" where
  "current m dirs w pid = tree_entries (mc_hash m w) (mc_lstat m w) (proc_root pid) dirs"

text \<open>
  An outcome of \<open>CheckIntegrity\<close> in a world: some run of the check that nobody cancels, over the
  file system as it is then, has returned \<open>r\<close>, with the alerts and restarts it called for.
\<close>

definition check_outcome ::
    "'w machine \<Rightarrow> config \<Rightarrow> 'w sender list \<Rightarrow> ('w \<Rightarrow> 'w \<times> go_error option) \<Rightarrow> string \<Rightarrow>
     string \<Rightarrow> string list \<Rightarrow> 'w \<Rightarrow> 'w \<times> go_error option \<Rightarrow> bool" where
  "check_outcome m cfg registry restartPod namePod proc dirs w out \<longleftrightarrow>
     (\<exists>now pick s r.
        reach (\<lambda>s. s = check_start (mc_lstat m w) (mc_pidof m w) proc dirs (cfg_count_workers cfg))
          (check_step (mc_hash m w)
             (compare_prepare (mc_pidof m w) (mc_load m w) cfg proc (cfg_algorithm cfg)) pick) s \<and>
        k_main s = MReturned r \<and> out = (react now registry restartPod namePod proc s w, r))"

definition restart_alert :: "int \<Rightarrow> string \<Rightarrow> string \<Rightarrow> integrity_error \<Rightarrow> alert" where
  "restart_alert now namePod proc e =
     \<lparr>al_Time = now, al_Message = ''Restart pod '' @ namePod, al_Reason = integrity_error_text e,
      al_Path = ie_Path e, al_ProcessName = proc\<rparr>"

subsection \<open>One check\<close>

lemma baseline_of_trees:
  assumes "mset (map plain_entry vs) = mset recorded" and "distinct (map fst recorded)"
  shows "baseline (map record_of vs) = map_of recorded"
  using baseline_of_hashes [of vs] mset_entries_map_of [OF assms] by simp

lemma justified_mset:
  assumes "mset es = mset fs"
  shows "error_justified b es e = error_justified b fs e"
proof -
  have "mset (map fst es) = mset (map fst fs)" using assms by simp
  then have "distinct (map fst es) = distinct (map fst fs)" by (metis mset_eq_imp_distinct_iff)
  moreover have "set es = set fs" using assms by (rule mset_eq_setD)
  ultimately show ?thesis by (simp add: error_justified_def)
qed

text \<open>What the check of a process with a baseline starts from.\<close>

lemma watched_prepared:
  assumes "watched m cfg proc dirs w pid recorded"
  obtains vs where
    "compare_prepare (mc_pidof m w) (mc_load m w) cfg proc (cfg_algorithm cfg) =
       Ok (proc_root pid @ ''/'', map record_of vs)"
    and "check_paths (mc_pidof m w) proc dirs = Ok (map (\<lambda>dir. (proc_root pid @ ''/'') @ dir) dirs)"
    and "mset (map plain_entry vs) = mset recorded" and "distinct (map fst recorded)"
    and "0 < cfg_count_workers cfg"
    and "list_all (good_dir (mc_lstat m w) (proc_root pid)) dirs" and "separate dirs"
proof -
  let ?alg = "cfg_algorithm cfg"
  from assms obtain pids csFile env scfg hash files files' where
    pid: "mc_pidof m w proc = Some (pidof_output (pid # pids))" "0 < pid" "pid < 2 ^ 63"
    and tgt: "list_all (good_dir (mc_lstat m w) (proc_root pid)) dirs" "separate dirs"
    and n: "0 < cfg_count_workers cfg"
    and load: "CheckSumFile cfg proc ?alg = Ok csFile"
      "mc_load m w (cfg_minio_bucket cfg) csFile = Ok (the (files' (sc_out scfg)))"
    and snap: "CalculateAndWriteHashes env scfg files = (files', None)"
    and rec: "recorded = tree_entries hash (se_lstat env) (sc_root_fs scfg) (sc_dir scfg)"
    and src: "clean_root (sc_root_fs scfg)" "list_all (good_dir (se_lstat env) (sc_root_fs scfg)) (sc_dir scfg)"
      "separate (sc_dir scfg)" "pool_runs hash (se_pool env (sc_algorithm scfg))"
    and safe: "list_all (\<lambda>e. record_safe (snd e) (fst e)) recorded"
    unfolding watched_def running_def snapshot_taken_def by blast
  have prep: "compare_prepare (mc_pidof m w) (mc_load m w) cfg proc ?alg =
      Ok (proc_root pid @ ''/'', map record_of (snapshot_hashes env scfg))"
    using snap src safe pid load unfolding rec
    by (intro prepare_of_snapshot [of env scfg files files' hash "mc_pidof m w" proc pid pids cfg ?alg
      csFile "mc_load m w"])
  have paths: "check_paths (mc_pidof m w) proc dirs = Ok (map (\<lambda>dir. (proc_root pid @ ''/'') @ dir) dirs)"
    by (rule check_paths_all) (use GetProcessPath_pidof [of "mc_pidof m w" proc pid pids] pid in simp)
  have es: "mset (map plain_entry (snapshot_hashes env scfg)) = mset recorded"
    unfolding rec by (rule snapshot_entries [OF src(1,2,4)])
  have dr: "distinct (map fst recorded)" unfolding rec by (rule distinct_tree_entries [OF src(2,3)])
  from prep paths es dr n tgt show thesis by (rule that)
qed

lemma watched_outcome_exists:
  assumes "watched m cfg proc dirs w pid recorded"
  shows "\<exists>out. check_outcome m cfg registry restartPod namePod proc dirs w out"
proof -
  from watched_prepared [OF assms] obtain vs where
    p: "compare_prepare (mc_pidof m w) (mc_load m w) cfg proc (cfg_algorithm cfg) =
       Ok (proc_root pid @ ''/'', map record_of vs)"
    and c: "check_paths (mc_pidof m w) proc dirs = Ok (map (\<lambda>dir. (proc_root pid @ ''/'') @ dir) dirs)"
    and n: "0 < cfg_count_workers cfg" by metis
  have np: "compare_prepare (mc_pidof m w) (mc_load m w) cfg proc (cfg_algorithm cfg) \<noteq> Panic msg" for msg
    using p by simp
  from calm_run_returns [OF c n np] show ?thesis unfolding check_outcome_def by blast
qed

text \<open>The verdict on a process with a baseline.\<close>

lemma watched_verdict:
  assumes "watched m cfg proc dirs w pid recorded"
    and "check_outcome m cfg registry restartPod namePod proc dirs w out"
  shows "distinct (map fst (current m dirs w pid)) \<and> distinct (map fst recorded) \<and>
    (if set (current m dirs w pid) = set recorded then out = (w, None)
     else \<exists>now e. error_justified (map_of recorded) (current m dirs w pid) e \<and>
       out = (fst (restartPod (sends registry (restart_alert now namePod proc e) w)), Some (ErrIntegrity e)))"
proof -
  let ?found = "current m dirs w pid"
  let ?prep = "compare_prepare (mc_pidof m w) (mc_load m w) cfg proc (cfg_algorithm cfg)"
  from watched_prepared [OF assms(1)] obtain vs where
    prep: "?prep = Ok (proc_root pid @ ''/'', map record_of vs)"
    and paths: "check_paths (mc_pidof m w) proc dirs = Ok (map (\<lambda>dir. (proc_root pid @ ''/'') @ dir) dirs)"
    and es: "mset (map plain_entry vs) = mset recorded" and dr: "distinct (map fst recorded)"
    and n: "0 < cfg_count_workers cfg"
    and tgt: "list_all (good_dir (mc_lstat m w) (proc_root pid)) dirs" "separate dirs" by metis
  from assms(2) obtain now pick s r where
    run: "reach (\<lambda>s. s = check_start (mc_lstat m w) (mc_pidof m w) proc dirs (cfg_count_workers cfg))
        (check_step (mc_hash m w) ?prep pick) s"
    and ret: "k_main s = MReturned r" and out: "out = (react now registry restartPod namePod proc s w, r)"
    unfolding check_outcome_def by blast
  have np: "?prep \<noteq> Panic msg" for msg using prep by simp
  from calm_returns [OF check_start_workers [OF run paths n] np] ret obtain hashes where
    m: "mset hashes = mset (hash_files (mc_hash m w)
        (concat (chan_walk_dir (mc_lstat m w) (map (\<lambda>dir. proc_root pid @ ''/'' @ dir) dirs))))"
    and r: "(r, k_failed s) = result_of (compare_expected (proc_root pid @ ''/'')
        (map record_of vs) hashes pick)"
    by (auto simp: verdict_on_def verdict_def prep)
  have found: "mset (map (file_entry (proc_root pid @ ''/'')) hashes) = mset ?found"
    using m walk_tree_entries [OF clean_proc_root tgt(1), of "mc_hash m w"]
    unfolding file_entry_def mset_map current_def by simp
  have d: "distinct (map fst ?found)" unfolding current_def by (rule distinct_tree_entries [OF tgt])
  note iff = compare_trees [OF found d es dr, of pick]
  show ?thesis
  proof (cases "compare_expected (proc_root pid @ ''/'') (map record_of vs) hashes pick")
    case (Ok c)
    with iff [of c] have "set ?found = set recorded" by simp
    with Ok r out d dr show ?thesis by (simp add: react_def)
  next
    case (Fail err)
    from compare_expected_Fail [OF this] baseline_of_trees [OF es dr] justified_mset [OF found] obtain e
      where "err = ErrIntegrity e" "error_justified (map_of recorded) ?found e" by auto
    moreover have "set ?found \<noteq> set recorded" using iff Fail by auto
    ultimately show ?thesis using r out d dr Fail
      by (auto simp: react_def failed_check_alerts_then_restarts restart_alert_def)
  next
    case (Panic msg)
    then show ?thesis by (simp add: compare_expected_no_panic)
  qed
qed

subsection \<open>The ticks\<close>

text \<open>
  Property C3. The monitor reacts to changes and to nothing else. Over any ticks, each process once
  per tick in the order of the map iteration, the worlds before its checks are \<open>ws\<close>: it goes on
  until the context is found done before a check, whatever the checks return. At every check of a
  process that runs and whose baseline can be loaded, nothing happens if the process has exactly
  the recorded paths and hashes; otherwise one alert about a difference that is there is sent to
  every registered sender, and then the pod is restarted.
\<close>

theorem monitor_reacts_to_changes:
  assumes "\<And>proc dirs w. (proc, dirs) \<in> set (concat ticks) \<Longrightarrow>
      check_outcome m cfg registry restartPod namePod proc dirs w (check proc dirs w)"
  shows "\<exists>ws. ws \<noteq> [] \<and> hd ws = w \<and> length ws \<le> Suc (length (concat ticks)) \<and>
    runCheckIntegrity ctx_done check ticks w =
      (last ws, if length ws \<le> length (concat ticks) then Some (Some ErrCanceled) else None) \<and>
    (length ws \<le> length (concat ticks) \<longrightarrow> ctx_done (last ws)) \<and>
    (\<forall>j < length ws - 1. \<not> ctx_done (ws ! j) \<and>
      (case concat ticks ! j of (proc, dirs) \<Rightarrow>
        \<forall>pid recorded. watched m cfg proc dirs (ws ! j) pid recorded \<longrightarrow>
          (if set (current m dirs (ws ! j) pid) = set recorded then ws ! Suc j = ws ! j
           else \<exists>now e. error_justified (map_of recorded) (current m dirs (ws ! j) pid) e \<and>
             ws ! Suc j = fst (restartPod (sends registry (restart_alert now namePod proc e) (ws ! j))))))"
proof -
  let ?ps = "concat ticks" and ?k = "checks_made ctx_done check (concat ticks) w"
  let ?world = "\<lambda>j. checks check (take j ?ps) w"
  let ?ws = "map ?world [0..<Suc ?k]"
  have k: "?k \<le> length ?ps" by (rule checks_made_le)
  have l: "last ?ws = ?world ?k" by simp
  have "case ?ps ! j of (proc, dirs) \<Rightarrow>
      \<forall>pid recorded. watched m cfg proc dirs (?world j) pid recorded \<longrightarrow>
        (if set (current m dirs (?world j) pid) = set recorded then ?world (Suc j) = ?world j
         else \<exists>now e. error_justified (map_of recorded) (current m dirs (?world j) pid) e \<and>
           ?world (Suc j) = fst (restartPod (sends registry (restart_alert now namePod proc e) (?world j))))"
    if j: "j < ?k" for j
  proof -
    obtain proc dirs where p: "?ps ! j = (proc, dirs)" by (rule prod.exhaust)
    have jl: "j < length ?ps" using j k by simp
    then have step: "?world (Suc j) = fst (check proc dirs (?world j))"
      using p by (simp add: take_Suc_conv_app_nth checks_append)
    have "(proc, dirs) \<in> set ?ps" using nth_mem [OF jl] p by simp
    note watched_verdict [OF _ assms [OF this]]
    then show ?thesis unfolding p prod.case step by (fastforce split: if_splits)
  qed
  note reacts = this
  have "\<not> ctx_done (?ws ! j) \<and>
      (case ?ps ! j of (proc, dirs) \<Rightarrow>
        \<forall>pid recorded. watched m cfg proc dirs (?ws ! j) pid recorded \<longrightarrow>
          (if set (current m dirs (?ws ! j) pid) = set recorded then ?ws ! Suc j = ?ws ! j
           else \<exists>now e. error_justified (map_of recorded) (current m dirs (?ws ! j) pid) e \<and>
             ?ws ! Suc j = fst (restartPod (sends registry (restart_alert now namePod proc e) (?ws ! j)))))"
    if "j < length ?ws - 1" for j
  proof -
    have j: "j < ?k" using that by simp
    then have at: "?ws ! j = ?world j" "?ws ! Suc j = ?world (Suc j)"
      by (simp_all del: upt_Suc)
    show ?thesis unfolding at by (rule conjI [OF checks_made_before [OF j] reacts [OF j]])
  qed
  moreover have "?ws \<noteq> [] \<and> hd ?ws = w \<and> length ?ws \<le> Suc (length ?ps)"
    using k by (simp del: upt_Suc add: hd_map)
  moreover have "runCheckIntegrity ctx_done check ticks w =
      (last ?ws, if length ?ws \<le> length ?ps then Some (Some ErrCanceled) else None)"
    unfolding l using k by (simp add: run_made less_eq_Suc_le)
  moreover have "length ?ws \<le> length ?ps \<longrightarrow> ctx_done (last ?ws)"
    unfolding l using checks_made_done [of ctx_done check ?ps w] by auto
  ultimately show ?thesis by blast
qed

subsection \<open>Files that cannot be read\<close>

lemma entry_hashed:
  assumes "dir \<in> set dirs" and "names \<in> set (files_under (dir_node lstat root dir))"
    and "hash (path_of (root @ ''/'' @ dir) names) = Inr h"
  shows "(rel_path dir names, h) \<in> set (tree_entries hash lstat root dirs)"
  using assms by (force simp: tree_entries_def dir_entries_def List.map_filter_def)

text \<open>
  Property C29. A file that is there but cannot be read is reported as deleted. If every recorded file
  exists below the process's directories, those that can be hashed are unchanged and there
  is no other, but not all can be hashed, then the check returns an integrity error of the type
  for a deleted file, about a file that exists and whose hashing failed, the alert says so, and the
  pod is restarted.
\<close>

theorem unreadable_file_reported_deleted:
  assumes "watched m cfg proc dirs w pid recorded"
    and "check_outcome m cfg registry restartPod namePod proc dirs w out"
    and exist: "\<And>p h. (p, h) \<in> set recorded \<Longrightarrow>
      \<exists>dir names. dir \<in> set dirs \<and> names \<in> set (files_under (dir_node (mc_lstat m w) (proc_root pid) dir)) \<and>
        p = rel_path dir names"
    and sub: "set (current m dirs w pid) \<subset> set recorded"
  shows "\<exists>now e dir names err. ie_Type e = ErrTypeFileDeleted \<and> ie_Path e = rel_path dir names \<and>
    dir \<in> set dirs \<and> names \<in> set (files_under (dir_node (mc_lstat m w) (proc_root pid) dir)) \<and>
    mc_hash m w (path_of (proc_root pid @ ''/'' @ dir) names) = Inl err \<and>
    out = (fst (restartPod (sends registry (restart_alert now namePod proc e) w)), Some (ErrIntegrity e))"
proof -
  let ?found = "current m dirs w pid"
  from watched_verdict [OF assms(1,2)] sub obtain now e where
    d: "distinct (map fst ?found)" "distinct (map fst recorded)"
    and e: "error_justified (map_of recorded) ?found e"
    and out: "out = (fst (restartPod (sends registry (restart_alert now namePod proc e) w)), Some (ErrIntegrity e))"
    by (auto split: if_splits)
  have "map_of recorded (ie_Path e) = Some (ie_Hash e)" if "(ie_Path e, ie_Hash e) \<in> set ?found"
    using that sub d(2) by auto
  with e d(1) have del: "ie_Type e = ErrTypeFileDeleted" "ie_Path e \<notin> fst ` set ?found"
    and r: "map_of recorded (ie_Path e) = Some (ie_Hash e)"
    unfolding error_justified_def by auto
  from exist [OF map_of_SomeD [OF r]] obtain dir names where
    f: "dir \<in> set dirs" "names \<in> set (files_under (dir_node (mc_lstat m w) (proc_root pid) dir))"
      "ie_Path e = rel_path dir names" by blast
  have "mc_hash m w (path_of (proc_root pid @ ''/'' @ dir) names) \<noteq> Inr h" for h
    using entry_hashed [OF f(1,2), of "mc_hash m w" h] del(2) f(3) by (force simp: current_def)
  then obtain err where "mc_hash m w (path_of (proc_root pid @ ''/'' @ dir) names) = Inl err"
    by (metis sumE)
  with del f out show ?thesis by blast
qed

subsection \<open>Witnesses\<close>

text \<open>A small image and process for the witnesses: one directory with one file.\<close>

abbreviation (input) demo_hash :: "string \<Rightarrow> go_error + string" where
  "demo_hash f \<equiv> Inr ''ff''"

abbreviation (input) demo_lstat :: "string \<Rightarrow> go_error + file_node" where
  "demo_lstat p \<equiv> Inr (Directory [(''x'', RegularFile)])"

definition demo_env :: snapshot_env where
  "demo_env = \<lparr>se_create = \<lambda>_. None, se_stat = \<lambda>_. None, se_lstat = demo_lstat, se_room = 40,
     se_pool = \<lambda>_ names. hash_files demo_hash (concat names)\<rparr>"

definition demo_snapshot :: snapshot_config where
  "demo_snapshot = \<lparr>sc_root_fs = ''img'', sc_dir = [''/app''], sc_out = ''o'', sc_algorithm = ''sha256''\<rparr>"

definition demo_config :: config where
  "demo_config = \<lparr>cfg_process_image = Map.empty(''p'' \<mapsto> ''im:1''), cfg_pod_namespace = ''ns'',
     cfg_minio_bucket = ''integrity'', cfg_algorithm = ''SHA256'', cfg_count_workers = 1\<rparr>"

lemma demo_plain: "plain_dir ''/app''" "dir_comps ''/app'' = [''app'']"
  by code_simp+

lemma demo_separate: "separate [''/app'']"
  by (simp add: separate_def)

lemma demo_good: "good_dir demo_lstat root ''/app''"
  by (simp add: good_dir_def dir_node_def demo_plain proper_name_def)

lemma demo_tree: "tree_entries demo_hash demo_lstat root [''/app''] = [(''app/x'', ''ff'')]"
  by (simp add: tree_entries_def dir_entries_def dir_node_def List.map_filter_simps rel_path_def demo_plain)

lemma demo_runs: "pool_runs demo_hash (\<lambda>names. hash_files demo_hash (concat names))"
  unfolding pool_runs_def using pool_output_sequential [of demo_hash] by (metis One_nat_def)

lemma demo_safe: "record_safe ''ff'' ''app/x''"
proof -
  have "trimmed ''ff''" "trimmed ''app/x''" "\<not> has_double_blank ''app/x''" by code_simp+
  then show ?thesis by (simp add: record_safe_def newline_def max_token_def)
qed

text \<open>A world that is the list of what happened, alerts by their paths.\<close>

definition demo_machine :: "(string \<Rightarrow> go_error + string) \<Rightarrow> string list machine" where
  "demo_machine hash = \<lparr>mc_pidof = \<lambda>w p. Some (pidof_output [7]), mc_lstat = \<lambda>w. demo_lstat,
     mc_hash = \<lambda>w. hash,
     mc_load = \<lambda>w b n. Ok (the (fst (CalculateAndWriteHashes demo_env demo_snapshot Map.empty) ''o''))\<rparr>"

lemma demo_taken:
  "snapshot_taken (the (fst (CalculateAndWriteHashes demo_env demo_snapshot Map.empty) ''o'')) [(''app/x'', ''ff'')]"
proof -
  let ?r = "CalculateAndWriteHashes demo_env demo_snapshot Map.empty"
  have "snd ?r = None" and root: "clean_root ''img''" by code_simp+
  then have "?r = (fst ?r, None)" by (metis prod.collapse)
  then show ?thesis
    unfolding snapshot_taken_def
    using root demo_good demo_separate demo_runs demo_tree demo_safe
    by (intro exI [of _ demo_env] exI [of _ demo_snapshot] exI [of _ demo_hash] exI [of _ Map.empty]
        exI [of _ "fst ?r"]) (simp add: demo_snapshot_def demo_env_def)
qed

lemma demo_running: "running (demo_machine hash) ''p'' [''/app''] w 7"
  using demo_good demo_separate by (auto simp: running_def demo_machine_def)

lemma demo_watched: "watched (demo_machine hash) demo_config ''p'' [''/app''] w 7 [(''app/x'', ''ff'')]"
proof -
  have "CheckSumFile demo_config ''p'' (cfg_algorithm demo_config) = Ok ''ns/im/1.sha256''" by code_simp
  then show ?thesis
    using demo_running [of hash w] demo_taken
    by (simp add: watched_def) (simp add: demo_machine_def demo_config_def)
qed

theorem unreadable_file_reported_deleted_witness:
  "\<exists>now e out. ie_Type e = ErrTypeFileDeleted \<and> ie_Path e = ''app/x'' \<and>
     check_outcome (demo_machine (\<lambda>f. Inl ErrNotExist)) demo_config [\<lambda>a w. (al_Path a # w, None)]
       (\<lambda>w. (''restarted'' # w, None)) ''pod'' ''p'' [''/app''] [] out \<and>
     out = ([''restarted'', ''app/x''], Some (ErrIntegrity e))"
proof -
  let ?m = "demo_machine (\<lambda>f. Inl ErrNotExist)"
  have cur: "current ?m [''/app''] w 7 = []" for w
    by (simp add: current_def tree_entries_def dir_entries_def demo_machine_def dir_node_def List.map_filter_simps)
  have there: "dir_node (mc_lstat ?m []) (proc_root 7) ''/app'' = Directory [(''x'', RegularFile)]"
    by (simp add: demo_machine_def dir_node_def)
  have rel: "rel_path ''/app'' [''x''] = ''app/x''" by code_simp
  obtain out where o: "check_outcome ?m demo_config [\<lambda>a w. (al_Path a # w, None)]
      (\<lambda>w. (''restarted'' # w, None)) ''pod'' ''p'' [''/app''] [] out"
    using watched_outcome_exists [OF demo_watched] by blast
  from unreadable_file_reported_deleted [OF demo_watched o] cur there rel o show ?thesis
    by (fastforce simp: restart_alert_def)
qed

theorem monitor_reacts_to_changes_witness:
  "\<exists>check. fst (runCheckIntegrity (\<lambda>w. False) check [[(''p'', [''/app''])]] []) = [''restarted'', ''app/x'']"
proof -
  let ?m = "demo_machine (\<lambda>f. Inr ''00'')" and ?s = "[\<lambda>a w. (al_Path a # w, None)]"
    and ?restart = "\<lambda>w. (''restarted'' # w, None :: go_error option)"
  obtain check where c: "check_outcome ?m demo_config ?s ?restart ''pod'' ''p'' [''/app''] w (check w)" for w
    using watched_outcome_exists [OF demo_watched, of "\<lambda>f. Inr ''00''" ?s ?restart "''pod''"] by metis
  have cur: "current ?m [''/app''] w 7 = [(''app/x'', ''00'')]" for w
    by (simp add: current_def tree_entries_def dir_entries_def demo_machine_def dir_node_def
        List.map_filter_simps rel_path_def demo_plain)
  let ?ticks = "[[(''p'', [''/app''])]]"
  have c': "check_outcome ?m demo_config ?s ?restart ''pod'' proc dirs w (check w)"
    if "(proc, dirs) \<in> set (concat ?ticks)" for proc dirs w using that c by simp
  obtain ws where ws: "ws \<noteq> []" "hd ws = []" "length ws \<le> Suc (length (concat ?ticks))"
      "runCheckIntegrity (\<lambda>w. False) (\<lambda>proc dirs. check) ?ticks [] =
        (last ws, if length ws \<le> length (concat ?ticks) then Some (Some ErrCanceled) else None)"
      "length ws \<le> length (concat ?ticks) \<longrightarrow> False"
    and step: "\<forall>j < length ws - 1. \<not> False \<and> (case concat ?ticks ! j of (proc, dirs) \<Rightarrow>
        \<forall>pid recorded. watched ?m demo_config proc dirs (ws ! j) pid recorded \<longrightarrow>
          (if set (current ?m dirs (ws ! j) pid) = set recorded then ws ! Suc j = ws ! j
           else \<exists>now e. error_justified (map_of recorded) (current ?m dirs (ws ! j) pid) e \<and>
             ws ! Suc j = fst (?restart (sends ?s (restart_alert now ''pod'' proc e) (ws ! j)))))"
  proof -
    show thesis
      by (rule monitor_reacts_to_changes [of ?ticks ?m demo_config ?s ?restart "''pod''" "\<lambda>proc dirs. check" "[]"
          "\<lambda>w. False", THEN exE]) (erule c', elim conjE, rule that)
  qed
  from ws obtain v where v: "ws = [[], v]"
    by (cases ws; cases "tl ws"; cases "tl (tl ws)") auto
  from step demo_watched [of "\<lambda>f. Inr ''00''" "[]"] cur obtain now e where
    "error_justified (map_of [(''app/x'', ''ff'')]) [(''app/x'', ''00'')] e"
    "v = fst (?restart (sends ?s (restart_alert now ''pod'' ''p'' e) []))"
    unfolding v by fastforce
  then have "v = [''restarted'', ''app/x'']"
    by (auto simp: error_justified_def restart_alert_def split: if_splits)
  with ws v show ?thesis by auto
qed

end
