(* ===== verification/Tenants.thy ===== *)
theory Tenants
  imports Controller_Settles Detection
begin

text \<open>
  Several custom resources at one object store: what the names that \<open>BuildObjectName\<close>
  (pkg/minio/minio.go) builds say about who can write and remove whose baselines. The controller
  (snapshot-controller/controllers/snapshot_controller.go) serves the resources of all namespaces from
  one bucket.
\<close>

subsection \<open>From the store to the monitor\<close>

text \<open>
  A process is watched by a monitor with the naming data of an image as soon as the store holds
  the text of a snapshot under the plain name of that image.
\<close>

lemma stored_is_watched:
  assumes "client_ok c oview" and stored: "oview w (DefaultBucketName, plain_name ns comps tag alg) = Some data"
    and image: "image_parts_ok ns comps tag"
    and cfg: "cfg_pod_namespace cfg = ns" "cfg_process_image cfg proc = Some (image_of comps tag)"
      "to_lower (cfg_algorithm cfg) = to_lower alg" "cfg_minio_bucket cfg = DefaultBucketName"
      "0 < cfg_count_workers cfg"
    and load: "\<And>b n. mc_load m w b n = snd (storage_Load c b n w)"
      "\<And>b n. oview w (b, n) \<noteq> None \<Longrightarrow> \<exists>d. snd (storage_Load c b n w) = Ok d"
    and taken: "snapshot_taken data recorded" and run: "running m proc dirs w pid"
  shows "watched m cfg proc dirs w pid recorded"
proof -
  let ?name = "plain_name ns comps tag alg"
  have cs: "CheckSumFile cfg proc (cfg_algorithm cfg) = Ok ?name"
    using CheckSumFile_ok [of cfg comps tag proc "cfg_algorithm cfg"] image cfg by (simp add: plain_name_def)
  obtain d where "snd (storage_Load c DefaultBucketName ?name w) = Ok d" using load(2) stored by blast
  then obtain v where "storage_Load c DefaultBucketName ?name w = (v, Ok d)" by (metis prod.collapse)
  from object_store.load_content [OF storage_is_store [OF assms(1)] this] stored this
  have "mc_load m w (cfg_minio_bucket cfg) ?name = Ok data" by (simp add: load(1) cfg(4))
  with cs cfg(5) taken run show ?thesis unfolding watched_def by blast
qed

subsection \<open>An image name that leaves its namespace\<close>

text \<open>
  \<open>filepath.Join\<close> cleans the path it makes of namespace, name and tag. An image name that starts
  with \<open>../victim/\<close> takes the namespace away again.
\<close>

definition escaping_image :: "string \<Rightarrow> string list \<Rightarrow> string \<Rightarrow> string" where
  "escaping_image victim comps tag = image_of (''..'' # victim # comps) tag"

lemma escaping_path:
  assumes "image_parts_ok victim comps tag" and "proper_name ns"
  shows "path_join [ns, join ''/'' (''..'' # victim # comps), tag] = join ''/'' (victim # comps @ [tag])"
proof -
  let ?good = "victim # comps @ [tag]"
  have p: "list_all proper_name ?good" using assms(1) by (simp add: image_parts_ok_def list_all_iff)
  have ns: "ns \<noteq> []" "CHR ''/'' \<notin> set ns" "ns \<noteq> ''.''" "ns \<noteq> ''..''" using assms(2) by (simp_all add: proper_name_def)
  have j: "join ''/'' [ns, join ''/'' (''..'' # victim # comps), tag] = join ''/'' (ns # ''..'' # ?good)"
    using assms(1) by (simp add: join_Cons join_append image_parts_ok_def)
  have slash: "\<forall>c \<in> set (ns # ''..'' # ?good). CHR ''/'' \<notin> set c"
    using p ns(2) by (auto simp: list_all_iff proper_name_def)
  have sp: "split (join ''/'' (ns # ''..'' # ?good)) ''/'' = ns # ''..'' # ?good"
    using slash by (intro split_join) auto
  have rooted: "\<not> is_rooted (join ''/'' (ns # ''..'' # ?good))"
    using ns by (cases ns) (auto simp: is_rooted_def has_prefix_def join_Cons)
  have "clean_comps False [] (ns # ''..'' # ?good) = clean_comps False [] ?good"
    using ns by (simp del: clean_comps.simps add: clean_comps.simps(2))
  then have "path_comps (join ''/'' (ns # ''..'' # ?good)) = ?good"
    using clean_comps_proper [OF p, of False "[]"] sp rooted by (simp add: path_comps_def)
  moreover have "join ''/'' (ns # ''..'' # ?good) \<noteq> []" using ns by (simp add: join_Cons)
  ultimately have "path_clean (join ''/'' (ns # ''..'' # ?good)) = join ''/'' ?good"
    using rooted by (simp add: path_clean_def show_path_def)
  then show ?thesis using j ns by (simp add: path_join_def)
qed

lemma escaping_name:
  assumes "image_parts_ok victim comps tag" and "CHR '':'' \<notin> set victim" and "proper_name ns"
  shows "BuildObjectName ns (escaping_image victim comps tag) alg = Ok (plain_name victim comps tag alg)"
proof -
  have "CHR '':'' \<notin> set (join ''/'' (''..'' # victim # comps))"
    using set_join [of "''/''" "''..'' # victim # comps"] assms(1,2)
    by (fastforce simp: image_parts_ok_def list_all_iff)
  then have "split (escaping_image victim comps tag) '':'' = [join ''/'' (''..'' # victim # comps), tag]"
    using split_sep [of "'':''" "join ''/'' (''..'' # victim # comps)" tag] assms(1)
    by (simp add: escaping_image_def image_of_def image_parts_ok_def split_plain)
  with escaping_path [OF assms(1,3)] show ?thesis by (simp add: BuildObjectName_def plain_name_def)
qed

text \<open>
  Property C24. Namespaces are not separated in the store: whoever may create a custom resource in
  any namespace can replace the baselines of every other. A resource whose image name is
  \<open>../victim/name:tag\<close> is stored under the name of \<open>name:tag\<close> in the namespace \<open>victim\<close>. If its
  hashes are those of a tampered file system, one reconciliation makes the monitor of the other
  namespace accept that file system: every check of the process does nothing.
\<close>

theorem namespaces_not_separated:
  assumes "client_ok c oview" and "keeps_resources c sview" and "kube_ok (ce_kube env) sview oview"
    and "snd (kb_Get (ce_kube env) req w) = Inr obj"
    and "\<And>obj w. snd (kb_StatusUpdate (ce_kube env) obj w) = None"
    and "\<And>w. snd (PutObject c DefaultBucketName (plain_name victim comps tag (sn_Algorithm obj)) data w) = None"
    and "\<not> sn_Deleting obj"
    and "\<not> (sn_IsUploaded obj \<and> sn_ControlHash obj = md5hash env (sn_Base64Hashes obj))"
    and "base64_DecodeString (sn_Base64Hashes obj) = Ok data"
    and image: "sn_Image obj = escaping_image victim comps tag" "proper_name (rq_Namespace req)"
      "image_parts_ok victim comps tag" "CHR '':'' \<notin> set victim"
    and cfg: "cfg_pod_namespace cfg = victim" "cfg_process_image cfg proc = Some (image_of comps tag)"
      "to_lower (cfg_algorithm cfg) = to_lower (sn_Algorithm obj)" "cfg_minio_bucket cfg = DefaultBucketName"
      "0 < cfg_count_workers cfg"
    and load: "\<And>u b n. mc_load m u b n = snd (storage_Load c b n u)"
      "\<And>u b n. oview u (b, n) \<noteq> None \<Longrightarrow> \<exists>d. snd (storage_Load c b n u) = Ok d"
    and tampered: "snapshot_taken data recorded" "\<And>u. running m proc dirs u pid"
      "\<And>u. set (current m dirs u pid) = set recorded"
  shows "\<exists>w'. reconcile_with env (Some c) req w = (w', Ok ()) \<and>
    oview w' (DefaultBucketName, plain_name victim comps tag (sn_Algorithm obj)) = Some data \<and>
    watched m cfg proc dirs w' pid recorded \<and>
    (\<forall>registry restartPod namePod out.
       check_outcome m cfg registry restartPod namePod proc dirs w' out \<longrightarrow> out = (w', None))"
proof -
  let ?name = "plain_name victim comps tag (sn_Algorithm obj)"
  have "BuildObjectName (rq_Namespace req) (sn_Image obj) (sn_Algorithm obj) = Ok ?name"
    using escaping_name [OF image(3,4,2)] image(1) by simp
  from reconcile_uploads [OF assms(1-8) this assms(9)] obtain w' where
    r: "reconcile_with env (Some c) req w = (w', Ok ())" and o: "oview w' (DefaultBucketName, ?name) = Some data"
    by (metis fun_upd_same)
  have w: "watched m cfg proc dirs w' pid recorded"
    by (rule stored_is_watched [OF assms(1) o image(3) cfg load tampered(1,2)])
  with r o watched_verdict [OF w] tampered(3) show ?thesis by (metis (no_types, lifting))
qed

subsection \<open>One object for several resources\<close>

text \<open>
  Property C25. Two resources for the same image share one object, and the deletion of either takes
  it from both: when a resource is deleted, the object of every other resource whose name is
  built alike is gone, while that resource still says that it is uploaded, and no number of
  reconciliations uploads it again.
\<close>

theorem shared_object_lost:
  assumes "client_ok c oview" and "keeps_resources c sview" and "kube_ok (ce_kube env) sview oview"
    and get: "\<And>w obj. sview w req = Some obj \<Longrightarrow> sn_key obj = req \<Longrightarrow>
      snd (kb_Get (ce_kube env) req w) = Inr obj"
    and "kb_Get (ce_kube env) deleted w = (w1, Inr gone)" and "sn_Deleting gone"
    and "reconcile_with env (Some c) deleted w = (w', Ok ())"
    and "deleted \<noteq> req" and obj: "sview w req = Some obj" "sn_key obj = req" "\<not> sn_Deleting obj"
      "sn_IsUploaded obj" "sn_ControlHash obj = md5hash env (sn_Base64Hashes obj)"
    and "BuildObjectName (sn_Namespace gone) (sn_Image gone) (sn_Algorithm gone) =
      BuildObjectName (sn_Namespace obj) (sn_Image obj) (sn_Algorithm obj)"
  shows "\<exists>name. BuildObjectName (sn_Namespace obj) (sn_Image obj) (sn_Algorithm obj) = Ok name \<and>
    (\<forall>n. let u = ((\<lambda>u. fst (reconcile_with env (Some c) req u)) ^^ n) w' in
       oview u (DefaultBucketName, name) = None \<and> sview u req = Some obj)"
proof -
  from deletion_effect [OF assms(1-3,5-7)] assms(14) obtain name where
    name: "BuildObjectName (sn_Namespace obj) (sn_Image obj) (sn_Algorithm obj) = Ok name"
      "oview w' (DefaultBucketName, name) = None" and s: "sview w' req = Some obj"
    using assms(8) obj(1) by auto
  from settled_iterates [OF assms(3) get s obj(2-5), where ms = "Some c"] name s show ?thesis
    by (intro exI [of _ name]) (simp add: Let_def)
qed

subsection \<open>Witnesses\<close>

definition evil_req :: request where
  "evil_req = \<lparr>rq_Namespace = ''evil'', rq_Name = ''s''\<rparr>"

definition demo_text :: string where
  "demo_text = the (fst (CalculateAndWriteHashes demo_env demo_snapshot Map.empty) ''o'')"

definition evil_snap :: snapshot where
  "evil_snap = (demo_snap ''../ns/im:1'' False [] False)\<lparr>sn_Namespace := ''evil'',
     sn_Base64Hashes := base64_EncodeToString demo_text\<rparr>"

definition demo_victim :: "maps machine" where
  "demo_victim = \<lparr>mc_pidof = \<lambda>w p. Some (pidof_output [7]), mc_lstat = \<lambda>w. demo_lstat,
     mc_hash = \<lambda>w. demo_hash, mc_load = \<lambda>u b n. snd (storage_Load maps_client b n u)\<rparr>"

lemma maps_loads: "snd u (b, n) \<noteq> None \<Longrightarrow> \<exists>d. snd (storage_Load maps_client b n u) = Ok d"
  by (auto simp: storage_Load_def maps_client_def map_client_def)

theorem namespaces_not_separated_witness:
  "\<exists>w'. reconcile_with maps_env (Some maps_client) evil_req
      (Map.empty(evil_req \<mapsto> evil_snap), Map.empty((DefaultBucketName, ''ns/im/1.sha256'') \<mapsto> ''a'')) = (w', Ok ()) \<and>
    watched demo_victim demo_config ''p'' [''/app''] w' 7 [(''app/x'', ''ff'')]"
proof -
  let ?w = "(Map.empty(evil_req \<mapsto> evil_snap), Map.empty((DefaultBucketName, ''ns/im/1.sha256'') \<mapsto> ''a''))"
  have k: "kube_ok (ce_kube maps_env) fst snd" using maps_kube_ok by (simp add: maps_env_def)
  have obj: "\<not> sn_Deleting evil_snap" "\<not> sn_IsUploaded evil_snap" "sn_Algorithm evil_snap = ''SHA256''"
    "sn_Image evil_snap = escaping_image ''ns'' [''im''] ''1''" "sn_key evil_snap = evil_req"
    by (simp_all add: evil_snap_def demo_snap_def escaping_image_def image_of_def sn_key_def evil_req_def)
  have name: "plain_name ''ns'' [''im''] ''1'' ''SHA256'' = ''ns/im/1.sha256''" by code_simp
  have g: "snd (kb_Get (ce_kube maps_env) evil_req ?w) = Inr evil_snap"
    using obj(5) by (simp add: maps_env_def maps_kube_def)
  have st: "snd (kb_StatusUpdate (ce_kube maps_env) o1 u) = None" for o1 u
    by (simp add: maps_env_def maps_kube_def)
  have put: "snd (PutObject maps_client DefaultBucketName (plain_name ''ns'' [''im''] ''1'' (sn_Algorithm evil_snap))
      demo_text u) = None" for u
    by (simp add: obj name maps_client_def map_client_def)
  have data: "base64_DecodeString (sn_Base64Hashes evil_snap) = Ok demo_text"
    by (simp add: evil_snap_def decode_encode)
  have good: "image_parts_ok ''ns'' [''im''] ''1''" by (simp add: image_parts_ok_def proper_name_def)
  have run: "running demo_victim ''p'' [''/app''] u 7" for u
    using demo_good demo_separate by (auto simp: running_def demo_victim_def)
  have cur: "set (current demo_victim [''/app''] u 7) = set [(''app/x'', ''ff'')]" for u
    by (simp add: current_def demo_victim_def demo_tree)
  have taken: "snapshot_taken demo_text [(''app/x'', ''ff'')]" using demo_taken by (simp add: demo_text_def)
  have un: "\<not> (sn_IsUploaded evil_snap \<and> sn_ControlHash evil_snap = md5hash maps_env (sn_Base64Hashes evil_snap))"
    using obj(2) by simp
  have evil: "proper_name (rq_Namespace evil_req)" by (simp add: evil_req_def proper_name_def)
  have cfg: "cfg_process_image demo_config ''p'' = Some (image_of [''im''] ''1'')"
    "to_lower (cfg_algorithm demo_config) = to_lower (sn_Algorithm evil_snap)"
    "cfg_minio_bucket demo_config = DefaultBucketName"
    using obj(3) by (simp_all add: demo_config_def image_of_def DefaultBucketName_def)
  show ?thesis
    using namespaces_not_separated [of maps_client snd fst maps_env evil_req ?w evil_snap "''ns''" "[''im'']"
        "''1''" demo_text demo_config "''p''" demo_victim "[(''app/x'', ''ff'')]" "[''/app'']" 7, OF maps_client_ok
        maps_keeps k g st put obj(1) un data obj(4) evil good _ _ cfg _ _ maps_loads taken run cur]
    by (auto simp: demo_config_def demo_victim_def)
qed

theorem shared_object_lost_witness:
  "let twin = (demo_snap ''im:1'' True ''5951'' False)\<lparr>sn_Name := ''t''\<rparr>;
       gone = demo_snap ''im:1'' True ''5951'' True
   in \<exists>w'. reconcile_with maps_env (Some maps_client) demo_req
        (Map.empty(demo_req \<mapsto> gone, demo_req\<lparr>rq_Name := ''t''\<rparr> \<mapsto> twin),
         Map.empty((DefaultBucketName, ''ns/im/1.sha256'') \<mapsto> ''a'')) = (w', Ok ()) \<and>
      fst w' (demo_req\<lparr>rq_Name := ''t''\<rparr>) = Some twin \<and> snd w' (DefaultBucketName, ''ns/im/1.sha256'') = None"
proof -
  let ?twin = "(demo_snap ''im:1'' True ''5951'' False)\<lparr>sn_Name := ''t''\<rparr>"
    and ?gone = "demo_snap ''im:1'' True ''5951'' True" and ?req = "demo_req\<lparr>rq_Name := ''t''\<rparr>"
  let ?w = "(Map.empty(demo_req \<mapsto> ?gone, ?req \<mapsto> ?twin), Map.empty((DefaultBucketName, ''ns/im/1.sha256'') \<mapsto> ''a''))"
  have k: "kube_ok (ce_kube maps_env) fst snd" using maps_kube_ok by (simp add: maps_env_def)
  have name: "BuildObjectName ''ns'' ''im:1'' ''SHA256'' = Ok ''ns/im/1.sha256''" by code_simp
  have get: "snd (kb_Get (ce_kube maps_env) ?req u) = Inr obj" if "fst u ?req = Some obj" "sn_key obj = ?req" for u obj
    using that by (simp add: maps_env_def maps_kube_def)
  have g: "kb_Get (ce_kube maps_env) demo_req ?w = (?w, Inr ?gone)"
    by (simp add: maps_env_def maps_kube_def demo_snap_def sn_key_def)
  have "snd (reconcile_with maps_env (Some maps_client) demo_req ?w) = Ok ()" by code_simp
  then obtain w' where r: "reconcile_with maps_env (Some maps_client) demo_req ?w = (w', Ok ())"
    by (metis prod.collapse)
  have "\<exists>n. BuildObjectName (sn_Namespace ?twin) (sn_Image ?twin) (sn_Algorithm ?twin) = Ok n \<and>
      (\<forall>i. let u = ((\<lambda>u. fst (reconcile_with maps_env (Some maps_client) ?req u)) ^^ i) w' in
         snd u (DefaultBucketName, n) = None \<and> fst u ?req = Some ?twin)"
    by (rule shared_object_lost [OF maps_client_ok maps_keeps k get g _ r])
      (use demo_hash in \<open>simp_all add: demo_snap_def sn_key_def\<close>)
  then have "snd w' (DefaultBucketName, ''ns/im/1.sha256'') = None \<and> fst w' ?req = Some ?twin"
    using name by (auto simp: demo_snap_def Let_def dest: spec [of _ 0])
  with r show ?thesis by (cases w') (simp add: Let_def)
qed

end
