(* ===== verification/Configs.thy ===== *)
theory Configs
  imports Go_Conv
begin

text \<open>
  The configuration: the flags that internal/configs/config.go, pkg/minio/minio.go and
  cmd/snapshot/main.go register, with their defaults, and reading them. Viper is a third-party
  package; of it the code uses that a key has the value somebody set and otherwise the default of
  its flag, and that reading a key as another type gives the type's zero value.
\<close>

datatype flag_value =
    FString string
  | FBool bool
  | FInt int
  | FDuration int \<comment> \<open>nanoseconds\<close>
  | FStrings "string list"
  | FStringMap "(string \<times> string) list"

type_synonym flags = "(string \<times> flag_value) list"

definition Second :: int where "Second = 1000000000"

definition config_flags :: "int \<Rightarrow> flags" where
  "config_flags numCPU =
     [(''verbose'', FString ''info''),
      (''proc-dir'', FString ''/proc''),
      (''duration-time'', FDuration (30 * Second)),
      (''count-workers'', FInt numCPU),
      (''algorithm'', FString ''SHA256''),
      (''monitoring-options'', FString ''''),
      (''process-image'', FStringMap []),
      (''cluster-name'', FString ''local''),
      (''splunk-enabled'', FBool False),
      (''splunk-url'', FString ''''),
      (''splunk-token'', FString ''''),
      (''splunk-insecure-skip-verify'', FBool False),
      (''syslog-enabled'', FBool False),
      (''syslog-host'', FString ''localhost''),
      (''syslog-port'', FInt 514),
      (''syslog-proto'', FString ''tcp'')]"

definition config_env :: "(string \<times> string) list" where
  "config_env =
     [(''splunk-enabled'', ''SPLUNK_ENABLED''), (''splunk-url'', ''SPLUNK_URL''),
      (''splunk-token'', ''SPLUNK_TOKEN''),
      (''splunk-insecure-skip-verify'', ''SPLUNK_INSECURE_SKIP_VERIFY''),
      (''pod-namespace'', ''POD_NAMESPACE'')]"

definition minio_flags :: flags where
  "minio_flags =
     [(''minio-enabled'', FBool False),
      (''minio-host'', FString ''minio.minio.svc.cluster.local:9000''),
      (''minio-bucket'', FString ''integrity'')]"

definition minio_env :: "(string \<times> string) list" where
  "minio_env =
     [(''minio-access-key'', ''MINIO_SERVER_USER''), (''minio-secret-key'', ''MINIO_SERVER_PASSWORD'')]"

definition snapshot_flags :: flags where
  "snapshot_flags =
     [(''dir'', FStrings []), (''root-fs'', FString ''./''), (''out'', FString ''out.txt''),
      (''scan-dir-timeout'', FDuration (30 * Second))]"

text \<open>
  A lookup is what viper knows: the value somebody set on the command line or, for a key with a
  bound variable, in the environment, else the default of the flag.
\<close>

type_synonym lookup = "string \<Rightarrow> flag_value option"

definition viper_lookup :: "lookup \<Rightarrow> flags \<Rightarrow> lookup" where
  "viper_lookup given flags key = (case given key of Some v \<Rightarrow> Some v | None \<Rightarrow> map_of flags key)"

definition GetString :: "lookup \<Rightarrow> string \<Rightarrow> string" where
  "GetString v key = (case v key of Some (FString s) \<Rightarrow> s | _ \<Rightarrow> [])"

definition GetBool :: "lookup \<Rightarrow> string \<Rightarrow> bool" where
  "GetBool v key = (case v key of Some (FBool b) \<Rightarrow> b | _ \<Rightarrow> False)"

definition GetInt :: "lookup \<Rightarrow> string \<Rightarrow> int" where
  "GetInt v key = (case v key of Some (FInt i) \<Rightarrow> i | _ \<Rightarrow> 0)"

definition GetDuration :: "lookup \<Rightarrow> string \<Rightarrow> int" where
  "GetDuration v key = (case v key of Some (FDuration d) \<Rightarrow> d | _ \<Rightarrow> 0)"

definition GetStringSlice :: "lookup \<Rightarrow> string \<Rightarrow> string list" where
  "GetStringSlice v key = (case v key of Some (FStrings xs) \<Rightarrow> xs | _ \<Rightarrow> [])"

definition GetStringMapString :: "lookup \<Rightarrow> string \<Rightarrow> string \<Rightarrow> string option" where
  "GetStringMapString v key = (case v key of Some (FStringMap m) \<Rightarrow> map_of m | _ \<Rightarrow> Map.empty)"

text \<open>
  \<open>GetDBConnString\<close>, of an earlier version with a database.
\<close>

definition GetDBConnString :: "lookup \<Rightarrow> string" where
  "GetDBConnString v =
     ''postgresql://'' @ GetString v ''db-user'' @ '':'' @ GetString v ''db-password'' @ ''@'' @
     GetString v ''db-host'' @ '':'' @ int_str (GetInt v ''db-port'') @ ''/'' @ GetString v ''db-name'' @
     ''?sslmode=disable&connect_timeout='' @ int_str (GetInt v ''db-connection-timeout'')"

lemma lookup_default: "given key = None \<Longrightarrow> viper_lookup given flags key = map_of flags key"
  and lookup_given: "given key = Some v \<Longrightarrow> viper_lookup given flags key = Some v"
  by (simp_all add: viper_lookup_def)

lemmas getter_defs = GetString_def GetBool_def GetInt_def GetDuration_def GetStringSlice_def GetStringMapString_def

text \<open>No key is registered twice, so that each has one default.\<close>

lemma flags_distinct: "distinct (map fst (config_flags n @ minio_flags @ snapshot_flags))"
  by (simp add: config_flags_def minio_flags_def snapshot_flags_def)

end
