(* ===== verification/K8s.thy ===== *)
theory K8s
  imports Go_Errors
begin

text \<open>
  The Kubernetes side of the monitor: pkg/k8s/k8s.go. The variable \<open>kubeData\<close> is the result of
  \<open>InitKubeData\<close>; the client is third-party code whose calls are arguments. \<open>InitKubeData\<close> returns
  no error; where it ends the process with \<open>log.Fatalln\<close> the result is a \<open>Fail\<close> here.
\<close>

record kube_data =
  kd_Namespace :: string
  kd_TargetName :: string
  kd_TargetType :: string
  kd_PodName :: string
  kd_PodNamespace :: string

record deployment_data =
  dd_Image :: string
  dd_NamePod :: string
  dd_Timestamp :: string
  dd_NameDeployment :: string
  dd_ReleaseName :: string
  dd_NameSpace :: string

text \<open>The deployment object's fields that are read.\<close>

record deployment =
  dp_CreationTimestamp :: string
  dp_ContainerImages :: "string list"
  dp_Annotations :: "string \<Rightarrow> string option"

definition targetName :: "string \<Rightarrow> string result" where
  "targetName podName =
     (let elements = split podName ''-'' in
      if length elements < 2 then Panic ''slice bounds out of range''
      else Ok (join ''-'' (take (length elements - 2) elements)))"

definition ErrNoTarget :: go_error where
  "ErrNoTarget = ErrNew ''Env var DEPLOYMENT_NAME was not set''"

definition InitKubeData :: "string result \<Rightarrow> (string \<Rightarrow> string) \<Rightarrow> kube_data result" where
  "InitKubeData namespaceFile getenv =
     (let namespace = (case namespaceFile of Ok bytes \<Rightarrow> bytes | _ \<Rightarrow> []);
          podName = getenv ''POD_NAME''
      in bind_result (targetName podName) (\<lambda>target.
         if target = [] then Fail ErrNoTarget
         else Ok \<lparr>kd_Namespace = namespace, kd_TargetName = target,
                  kd_TargetType = getenv ''DEPLOYMENT_TYPE'', kd_PodName = podName,
                  kd_PodNamespace = getenv ''POD_NAMESPACE''\<rparr>))"

text \<open>
  \<open>Connect\<close>: the client set of the in-cluster configuration. \<open>'k\<close> are the configurations, \<open>'c\<close>
  the client sets.
\<close>

definition Connect :: "(go_error + 'k) \<Rightarrow> ('k \<Rightarrow> go_error + 'c) \<Rightarrow> 'c result" where
  "Connect inClusterConfig newForConfig =
     (case inClusterConfig of
        Inl err \<Rightarrow> Fail err
      | Inr config \<Rightarrow>
          (case newForConfig config of
             Inl err \<Rightarrow> Fail err
           | Inr clientset \<Rightarrow> Ok clientset))"

definition GetDataFromDeployment ::
    "(string \<Rightarrow> string \<Rightarrow> deployment result) \<Rightarrow> kube_data \<Rightarrow> deployment_data result" where
  "GetDataFromDeployment getDeployment kd =
     bind_result (getDeployment (kd_Namespace kd) (kd_TargetName kd)) (\<lambda>d.
       let data = \<lparr>dd_Image = [], dd_NamePod = kd_PodName kd, dd_Timestamp = dp_CreationTimestamp d,
                   dd_NameDeployment = kd_TargetName kd, dd_ReleaseName = [],
                   dd_NameSpace = kd_Namespace kd\<rparr>;
           data = foldl (\<lambda>data img. data\<lparr>dd_Image := img\<rparr>) data (dp_ContainerImages d)
       in Ok (case dp_Annotations d ''meta.helm.sh/release-name'' of
                Some value \<Rightarrow> data\<lparr>dd_ReleaseName := value\<rparr>
              | None \<Rightarrow> data))"

definition RestartPod ::
    "(string \<Rightarrow> string \<Rightarrow> 'w \<Rightarrow> 'w \<times> go_error option) \<Rightarrow> kube_data \<Rightarrow> 'w \<Rightarrow> 'w \<times> go_error option" where
  "RestartPod deletePod kd w = deletePod (kd_PodNamespace kd) (kd_PodName kd) w"

lemma foldl_image: "foldl (\<lambda>d img. d\<lparr>dd_Image := img\<rparr>) d imgs = (if imgs = [] then d else d\<lparr>dd_Image := last imgs\<rparr>)"
  by (induction imgs arbitrary: d) auto

lemma split_dash_length: "length (split s [c]) = Suc (count_list s c)"
proof -
  have "length (split_from [c] acc s) = Suc (count_list s c)" for acc
    by (induction "[c]" acc s rule: split_from.induct) (auto simp: has_prefix_def)
  then show ?thesis by (simp add: split_def)
qed

lemma target_of_pod:
  assumes "CHR ''-'' \<notin> set hash" and "CHR ''-'' \<notin> set podid"
  shows "targetName (name @ ''-'' @ hash @ ''-'' @ podid) = Ok name"
proof -
  have "split (name @ ''-'' @ hash @ ''-'' @ podid) ''-'' = split name ''-'' @ [hash, podid]"
    using split_char_append [of name "CHR ''-''" "hash @ ''-'' @ podid"]
      split_sep [of "''-''" hash podid] assms by (simp add: split_plain)
  then show ?thesis by (simp add: targetName_def join_split)
qed

text \<open>
  For a pod that a deployment made, whose name is the deployment's name, the replica
  set's hash and the pod's suffix with dashes between them, the target is the deployment,
  however many dashes its name has; the deployment that is asked for and the pod that is
  deleted are then that deployment and that pod.
\<close>

lemma pod_belongs_to_deployment:
  assumes "getenv ''POD_NAME'' = name @ ''-'' @ hash @ ''-'' @ podid"
    and "CHR ''-'' \<notin> set hash" and "CHR ''-'' \<notin> set podid" and "name \<noteq> []"
  shows "\<exists>kd. InitKubeData ns getenv = Ok kd \<and> kd_TargetName kd = name \<and>
    RestartPod deletePod kd w = deletePod (getenv ''POD_NAMESPACE'') (name @ ''-'' @ hash @ ''-'' @ podid) w"
  using target_of_pod [OF assms(2,3), of name] assms(1,4) by (simp add: InitKubeData_def RestartPod_def Let_def)

text \<open>
  A pod name with fewer than two dashes is never the error message that the code has
  for a missing name: with no dash, the empty name of an unset variable included, the program
  crashes at the slice, with one dash it ends with the message; it goes on exactly if the name
  has two dashes with something before them.
\<close>

lemma pod_name_errors:
  "(case InitKubeData ns getenv of
      Panic m \<Rightarrow> CHR ''-'' \<notin> set (getenv ''POD_NAME'') \<and> m = ''slice bounds out of range''
    | Fail e \<Rightarrow> CHR ''-'' \<in> set (getenv ''POD_NAME'') \<and> e = ErrNoTarget \<and>
        targetName (getenv ''POD_NAME'') = Ok []
    | Ok kd \<Rightarrow> 2 \<le> count_list (getenv ''POD_NAME'') (CHR ''-'') \<and> kd_TargetName kd \<noteq> [])"
proof -
  let ?p = "getenv ''POD_NAME''"
  let ?n = "count_list ?p (CHR ''-'')"
  have l: "length (split ?p ''-'') = Suc ?n" by (rule split_dash_length)
  have none: "CHR ''-'' \<notin> set ?p \<longleftrightarrow> ?n = 0" by (simp add: count_list_0_iff)
  have "?n = 1 \<Longrightarrow> targetName ?p = Ok []" using l by (simp add: targetName_def)
  moreover have "?n = 0 \<Longrightarrow> targetName ?p = Panic ''slice bounds out of range''"
    using l by (simp add: targetName_def)
  moreover have "?n \<noteq> 0 \<Longrightarrow> \<exists>t. targetName ?p = Ok t"
    using l by (simp add: targetName_def)
  ultimately show ?thesis
    using none by (cases "?n = 0"; cases "?n = 1") (auto simp: InitKubeData_def Let_def)
qed

end
