(* ===== verification/Go_Quote.thy ===== *)
theory Go_Quote
  imports Go_Strings
begin

text \<open>
  \<open>strconv.Unquote\<close>, which the monitor applies to its options: a Go string literal in double
  quotes, back quotes or single quotes. The library's fast path for literals without escapes
  gives what the general path gives and is not separated here. Text is UTF-8; bytes that are
  not are replaced by U+FFFD in quoted literals.
\<close>

definition byte_in :: "nat \<Rightarrow> nat \<Rightarrow> char \<Rightarrow> bool" where
  "byte_in lo hi c \<longleftrightarrow> lo \<le> (of_char c :: nat) \<and> (of_char c :: nat) \<le> hi"

text \<open>
  The length of the UTF-8 sequence at the front of a string, \<open>None\<close> if the bytes are not valid.
\<close>

fun utf8_length :: "string \<Rightarrow> nat option" where
  "utf8_length [] = None"
| "utf8_length (a # s) =
     (let follow = (\<lambda>lo hi n. case s of
            [] \<Rightarrow> None
          | b # bs \<Rightarrow>
              if byte_in lo hi b \<and> length (takeWhile (byte_in 0x80 0xBF) (take n bs)) = n
              then Some (n + 2) else None)
      in if byte_in 0 0x7F a then Some 1
         else if byte_in 0xC2 0xDF a then follow 0x80 0xBF 0
         else if byte_in 0xE0 0xE0 a then follow 0xA0 0xBF 1
         else if byte_in 0xE1 0xEC a \<or> byte_in 0xEE 0xEF a then follow 0x80 0xBF 1
         else if byte_in 0xED 0xED a then follow 0x80 0x9F 1
         else if byte_in 0xF0 0xF0 a then follow 0x90 0xBF 2
         else if byte_in 0xF1 0xF3 a then follow 0x80 0xBF 2
         else if byte_in 0xF4 0xF4 a then follow 0x80 0x8F 2
         else None)"

definition replacement :: string where
  "replacement = [CHR 0xEF, CHR 0xBF, CHR 0xBD]"

definition utf8_encode :: "nat \<Rightarrow> string" where
  "utf8_encode v =
     (if v < 0x80 then [char_of v]
      else if v < 0x800 then [char_of (0xC0 + v div 64), char_of (0x80 + v mod 64)]
      else if v < 0x10000 then
        [char_of (0xE0 + v div 4096), char_of (0x80 + v div 64 mod 64), char_of (0x80 + v mod 64)]
      else [char_of (0xF0 + v div 262144), char_of (0x80 + v div 4096 mod 64),
            char_of (0x80 + v div 64 mod 64), char_of (0x80 + v mod 64)])"

definition valid_rune :: "nat \<Rightarrow> bool" where
  "valid_rune v \<longleftrightarrow> v < 0xD800 \<or> (0xDFFF < v \<and> v \<le> 0x10FFFF)"

definition unhex :: "char \<Rightarrow> nat option" where
  "unhex c =
     (if byte_in 48 57 c then Some (of_char c - 48)
      else if byte_in 97 102 c then Some (of_char c - 87)
      else if byte_in 65 70 c then Some (of_char c - 55) else None)"

definition unoct :: "char \<Rightarrow> nat option" where
  "unoct c = (if byte_in 48 55 c then Some (of_char c - 48) else None)"

fun digits_of :: "(char \<Rightarrow> nat option) \<Rightarrow> nat \<Rightarrow> nat \<Rightarrow> string \<Rightarrow> nat option" where
  "digits_of val base v [] = Some v"
| "digits_of val base v (c # cs) =
     (case val c of None \<Rightarrow> None | Some d \<Rightarrow> digits_of val base (v * base + d) cs)"

text \<open>\<open>n\<close> digits at the front of a string: their value and the rest.\<close>

definition take_digits :: "(char \<Rightarrow> nat option) \<Rightarrow> nat \<Rightarrow> nat \<Rightarrow> string \<Rightarrow> (nat \<times> string) option" where
  "take_digits val base n s =
     (if length s < n then None
      else map_option (\<lambda>v. (v, drop n s)) (digits_of val base 0 (take n s)))"

text \<open>
  \<open>UnquoteChar\<close>: the bytes that the next character contributes, and the rest.
\<close>

definition simple_escapes :: "(char \<times> char) list" where
  "simple_escapes =
     [(CHR ''a'', CHR 0x07), (CHR ''b'', CHR 0x08), (CHR ''f'', CHR 0x0C), (CHR ''n'', CHR 0x0A),
      (CHR ''r'', CHR 0x0D), (CHR ''t'', CHR 0x09), (CHR ''v'', CHR 0x0B)]"

definition unquote_escape :: "char \<Rightarrow> char \<Rightarrow> string \<Rightarrow> (string \<times> string) option" where
  "unquote_escape quote c s =
     (case map_of simple_escapes c of
        Some e \<Rightarrow> Some ([e], s)
      | None \<Rightarrow>
          if c = CHR ''x'' then
            map_option (\<lambda>(v, rem). ([char_of v], rem)) (take_digits unhex 16 2 s)
          else if c = CHR ''u'' \<or> c = CHR ''U'' then
            (case take_digits unhex 16 (if c = CHR ''u'' then 4 else 8) s of
               None \<Rightarrow> None
             | Some (v, rem) \<Rightarrow> if valid_rune v then Some (utf8_encode v, rem) else None)
          else if unoct c \<noteq> None then
            (case take_digits unoct 8 3 (c # s) of
               None \<Rightarrow> None
             | Some (v, rem) \<Rightarrow> if 255 < v then None else Some ([char_of v], rem))
          else if c = CHR 0x5C then Some ([c], s)
          else if (c = CHR 0x27 \<or> c = CHR 0x22) \<and> c = quote then Some ([c], s)
          else None)"

definition unquote_char :: "char \<Rightarrow> string \<Rightarrow> (string \<times> string) option" where
  "unquote_char quote s =
     (case s of
        [] \<Rightarrow> None
      | c # rest \<Rightarrow>
          if c = quote \<or> c = CHR 0x0A then None
          else if byte_in 0x80 0xFF c then
            (case utf8_length s of
               Some n \<Rightarrow> Some (take n s, drop n s)
             | None \<Rightarrow> Some (replacement, rest))
          else if c \<noteq> CHR 0x5C then Some ([c], rest)
          else (case rest of [] \<Rightarrow> None | e # rem \<Rightarrow> unquote_escape quote e rem))"

lemma take_digits_rest: "take_digits val base n s = Some (v, rem) \<Longrightarrow> length rem \<le> length s"
  by (auto simp: take_digits_def split: if_splits)

lemma unquote_escape_rest:
  "unquote_escape quote c s = Some (out, rem) \<Longrightarrow> length rem \<le> length (c # s)"
  by (auto simp: unquote_escape_def split: option.splits if_splits dest!: take_digits_rest)

lemma utf8_length_pos: "utf8_length s = Some n \<Longrightarrow> 0 < n"
  by (cases s) (auto simp: Let_def split: if_splits list.splits)

lemma unquote_char_rest: "unquote_char quote s = Some (out, rem) \<Longrightarrow> length rem < length s"
  by (auto simp: unquote_char_def split: list.splits if_splits option.splits
      dest!: unquote_escape_rest utf8_length_pos)

text \<open>The loop over a literal in double quotes, after the opening quote.\<close>

function unquote_loop :: "string \<Rightarrow> string option" where
  "unquote_loop s =
     (if s = [] then None
      else if hd s = CHR 0x22 then (if tl s = [] then Some [] else None)
      else (case unquote_char CHR 0x22 s of
              None \<Rightarrow> None
            | Some (out, rem) \<Rightarrow> map_option (\<lambda>more. out @ more) (unquote_loop rem)))"
  by pat_completeness auto
termination
  by (relation "measure length") (auto dest: unquote_char_rest)

declare unquote_loop.simps [simp del]

definition Unquote :: "string \<Rightarrow> string option" where
  "Unquote s =
     (if length s < 2 then None
      else if hd s = CHR 0x22 then unquote_loop (tl s)
      else if hd s = CHR 0x60 then
        (if last s = CHR 0x60 \<and> CHR 0x60 \<notin> set (butlast (tl s))
         then Some (filter (\<lambda>c. c \<noteq> CHR 0x0D) (butlast (tl s))) else None)
      else if hd s = CHR 0x27 then
        (case unquote_char CHR 0x27 (tl s) of
           Some (out, rem) \<Rightarrow> if rem = [CHR 0x27] then Some out else None
         | None \<Rightarrow> None)
      else None)"

text \<open>Plain text in double quotes is the text.\<close>

definition plain_text :: "string \<Rightarrow> bool" where
  "plain_text s \<longleftrightarrow> list_all (\<lambda>c. byte_in 0 0x7F c \<and> c \<noteq> CHR 0x22 \<and> c \<noteq> CHR 0x5C \<and> c \<noteq> CHR 0x0A) s"

lemma unquote_loop_plain: "plain_text s \<Longrightarrow> unquote_loop (s @ [CHR 0x22]) = Some s"
proof (induction s)
  case Nil
  then show ?case by (subst unquote_loop.simps) simp
next
  case (Cons c s)
  then show ?case
    by (subst unquote_loop.simps) (simp add: plain_text_def unquote_char_def byte_in_def)
qed

lemma Unquote_plain: "plain_text s \<Longrightarrow> Unquote (CHR 0x22 # s @ [CHR 0x22]) = Some s"
  by (simp add: Unquote_def unquote_loop_plain)

lemma Unquote_unquoted: "s = [] \<or> hd s \<notin> {CHR 0x22, CHR 0x27, CHR 0x60} \<Longrightarrow> Unquote s = None"
  by (auto simp: Unquote_def)

end
