(* ===== verification/Options.thy ===== *)
theory Options
  imports Go_Quote Go_Errors "HOL-Library.AList"
begin

text \<open>
  \<open>ParseMonitoringOpts\<close> of internal/integritymonitor/integritymonitor.go: the monitored
  directories of each process. The Go map is an association list with distinct keys.
\<close>

definition ErrOptsEmpty :: go_error where
  "ErrOptsEmpty = ErrNew ''--monitoring-options is empty''"

definition ErrOptsPair :: go_error where
  "ErrOptsPair = ErrNew ''application and monitoring paths should be represented as key=value pair''"

definition ErrOptsPath :: go_error where
  "ErrOptsPath = ErrNew ''monitoring path is required''"

text \<open>The loop over the processes.\<close>

fun parse_processes :: "(string \<times> string list) list \<Rightarrow> string list \<Rightarrow> (string \<times> string list) list result" where
  "parse_processes optsMap [] = Ok optsMap"
| "parse_processes optsMap (p # processes) =
     (let procPaths = split p ''='' in
      if length procPaths < 2 then Fail ErrOptsPair
      else if procPaths ! 1 = [] then Fail ErrOptsPath
      else
        let paths = map trim_space (split (trim_char (CHR '','') (procPaths ! 1)) '','') in
        parse_processes (AList.update (procPaths ! 0) paths optsMap) processes)"

definition ParseMonitoringOpts :: "string \<Rightarrow> (string \<times> string list) list result" where
  "ParseMonitoringOpts opts =
     (if opts = [] then Fail ErrOptsEmpty
      else
        let unOpts = (case Unquote opts of None \<Rightarrow> opts | Some u \<Rightarrow> u);
            processes = split unOpts '' ''
        in if length processes < 1 then Fail ErrOptsEmpty else parse_processes [] processes)"

text \<open>Options that are accepted name a process.\<close>

lemma parse_processes_nonempty: "parse_processes m ps = Ok opts \<Longrightarrow> m \<noteq> [] \<or> ps \<noteq> [] \<Longrightarrow> opts \<noteq> []"
proof (induction m ps rule: parse_processes.induct)
  case (2 m p ps)
  have "AList.update k v m \<noteq> []" for k v by (metis fst_conv update_conv' fun_upd_same map_of.simps(1) option.distinct(1))
  with 2 show ?case by (auto simp: Let_def split: if_splits)
qed simp

lemma options_nonempty: "ParseMonitoringOpts text = Ok opts \<Longrightarrow> opts \<noteq> []"
  using parse_processes_nonempty [of "[]"] by (auto simp: ParseMonitoringOpts_def Let_def split: if_splits)

subsection \<open>What is parsed back\<close>

definition show_process :: "string \<times> string list \<Rightarrow> string" where
  "show_process p = fst p @ ''='' @ join '','' (snd p)"

definition show_options :: "(string \<times> string list) list \<Rightarrow> string" where
  "show_options ps = join '' '' (map show_process ps)"

definition process_ok :: "string \<times> string list \<Rightarrow> bool" where
  "process_ok p \<longleftrightarrow>
     CHR ''='' \<notin> set (fst p) \<and> CHR '' '' \<notin> set (fst p) \<and> snd p \<noteq> [] \<and>
     list_all (\<lambda>d. d \<noteq> [] \<and> trimmed d \<and> set d \<inter> set ''=, '' = {}) (snd p)"

lemma set_join_sub: "c \<in> set (join sep xs) \<Longrightarrow> c \<in> set sep \<or> (\<exists>x \<in> set xs. c \<in> set x)"
  by (induction sep xs rule: join.induct) auto

lemma last_join:
  "xs \<noteq> [] \<Longrightarrow> last xs \<noteq> [] \<Longrightarrow> join sep xs \<noteq> [] \<and> last (join sep xs) = last (last xs)"
  by (induction sep xs rule: join.induct) (auto split: if_splits)

lemma hd_join_nonempty: "xs \<noteq> [] \<Longrightarrow> hd xs \<noteq> [] \<Longrightarrow> join sep xs \<noteq> [] \<and> hd (join sep xs) = hd (hd xs)"
  by (cases "(sep, xs)" rule: join.cases) auto

lemma parse_process:
  assumes "process_ok p"
  shows "parse_processes m (show_process p # ps) = parse_processes (AList.update (fst p) (snd p) m) ps"
proof -
  obtain n ds where p: "p = (n, ds)" by (rule prod.exhaust)
  have ds: "ds \<noteq> []" and n: "CHR ''='' \<notin> set n"
    and d: "\<And>d. d \<in> set ds \<Longrightarrow> d \<noteq> [] \<and> trimmed d \<and> CHR ''='' \<notin> set d \<and> CHR '','' \<notin> set d"
    using assms by (auto simp: process_ok_def p list_all_iff)
  have noeq: "CHR ''='' \<notin> set (join '','' ds)" using set_join_sub [of _ "'',''" ds] d by auto
  have sp: "split (show_process p) ''='' = [n, join '','' ds]"
    using split_sep [of "''=''" n "join '','' ds"] n noeq by (simp add: show_process_def p split_plain)
  have "hd ds \<in> set ds" "last ds \<in> set ds" using ds by simp_all
  then have e: "hd ds \<noteq> []" "last ds \<noteq> []" "hd (hd ds) \<noteq> CHR '',''" "last (last ds) \<noteq> CHR '',''"
    using d by (metis hd_in_set last_in_set)+
  have h: "join '','' ds \<noteq> []" "hd (join '','' ds) \<noteq> CHR '',''"
    using hd_join_nonempty [OF ds e(1)] e(3) by simp_all
  have l: "last (join '','' ds) \<noteq> CHR '',''" using last_join [OF ds e(2)] e(4) by simp
  have "split (join '','' ds) '','' = ds" using d ds by (intro split_join) auto
  moreover have "map trim_space ds = ds" using d by (auto intro!: map_idI simp: trim_space_trimmed)
  ultimately have "map trim_space (split (trim_char (CHR '','') (join '','' ds)) '','') = ds"
    using trim_char_plain [OF h l] by simp
  with sp h(1) show ?thesis by (simp add: p)
qed

lemma parse_all:
  "list_all process_ok ps \<Longrightarrow>
   parse_processes m (map show_process ps) = Ok (foldl (\<lambda>m p. AList.update (fst p) (snd p) m) m ps)"
  by (induction ps arbitrary: m) (simp_all add: parse_process del: parse_processes.simps(2))

lemma update_fresh: "k \<notin> fst ` set m \<Longrightarrow> AList.update k v m = m @ [(k, v)]"
  by (induction m) auto

lemma foldl_update_distinct:
  "distinct (map fst (m @ ps)) \<Longrightarrow> foldl (\<lambda>m p. AList.update (fst p) (snd p) m) m ps = m @ ps"
proof (induction ps arbitrary: m)
  case (Cons p ps)
  then have "AList.update (fst p) (snd p) m = m @ [p]" by (simp add: update_fresh)
  with Cons.IH [of "m @ [p]"] Cons.prems show ?case by simp
qed simp

lemma split_options:
  assumes "list_all process_ok ps" and "ps \<noteq> []"
  shows "split (show_options ps) '' '' = map show_process ps"
  unfolding show_options_def
proof (rule split_join)
  show "hd '' '' \<notin> set x" if x: "x \<in> set (map show_process ps)" for x
  proof -
    from x obtain p where p: "x = show_process p" "process_ok p"
      using assms(1) by (auto simp: list_all_iff)
    then show ?thesis
      using set_join_sub [of "CHR '' ''" "'',''" "snd p"]
      by (auto simp: show_process_def process_ok_def list_all_iff)
  qed
qed (use assms(2) in auto)

lemma parse_unquoted:
  assumes "list_all process_ok ps" and "ps \<noteq> []" and "distinct (map fst ps)"
  shows "parse_processes [] (split (show_options ps) '' '') = Ok ps"
  using split_options [OF assms(1,2)] parse_all [OF assms(1)] foldl_update_distinct [of "[]" ps] assms(3)
  by simp

subsection \<open>Properties\<close>

text \<open>
  Property C34. The options are parsed into what they were written for: for processes with
  distinct names and directories that contain no blank, comma or equals sign, the text
  \<open>name=dir,dir name=dir\<close>, in double quotes or without, gives exactly those directories for
  those processes.
\<close>

theorem options_roundtrip:
  assumes "list_all process_ok ps" and "ps \<noteq> []" and "distinct (map fst ps)"
    and "plain_text (show_options ps)"
  shows "ParseMonitoringOpts (CHR 0x22 # show_options ps @ [CHR 0x22]) = Ok ps \<and>
    (hd (show_options ps) \<notin> {CHR 0x27, CHR 0x60} \<longrightarrow> ParseMonitoringOpts (show_options ps) = Ok ps)"
proof -
  have ne: "show_options ps \<noteq> []"
  proof -
    from assms(2) obtain p qs where "ps = p # qs" by (cases ps) auto
    then show ?thesis by (cases qs) (auto simp: show_options_def show_process_def)
  qed
  have "hd (show_options ps) \<noteq> CHR 0x22"
    using assms(4) ne by (cases "show_options ps") (auto simp: plain_text_def)
  then show ?thesis
    using ne parse_unquoted [OF assms(1-3)] Unquote_plain [OF assms(4)]
      Unquote_unquoted [of "show_options ps"]
    by (auto simp: ParseMonitoringOpts_def Let_def neq_Nil_conv split_def)
qed

abbreviation demo_options :: "(string \<times> string list) list" where
  "demo_options \<equiv> [(''nginx'', [''/dir1'', ''/dir2'']), (''redis'', [''data''])]"

theorem options_roundtrip_witness:
  "ParseMonitoringOpts ''nginx=/dir1,/dir2 redis=data'' = Ok demo_options"
proof -
  have "list_all process_ok demo_options" and t: "show_options demo_options = ''nginx=/dir1,/dir2 redis=data''"
    and "plain_text (show_options demo_options)"
    by code_simp+
  with options_roundtrip [of demo_options] show ?thesis by simp
qed

text \<open>
  What the parser makes of options that are not of that form, without an error: a
  directory is cut off at an equals sign in it, a value of commas only names the root of the
  process's file system, and of two entries for one process the first is dropped.
\<close>

lemma options_lossy:
  assumes "process_ok (n, [d])" and "process_ok (n, [d'])" and "n = [] \<or> hd n \<notin> {CHR 0x22, CHR 0x27, CHR 0x60}"
    and "CHR '' '' \<notin> set e"
  shows "ParseMonitoringOpts (n @ ''='' @ d @ ''='' @ e) = Ok [(n, [d])] \<and>
    ParseMonitoringOpts (n @ ''=,'') = Ok [(n, [[]])] \<and>
    ParseMonitoringOpts (n @ ''='' @ d @ '' '' @ n @ ''='' @ d') = Ok [(n, [d'])]"
proof -
  have n: "CHR ''='' \<notin> set n" "CHR '' '' \<notin> set n"
    and d: "d \<noteq> []" "trimmed d" "CHR ''='' \<notin> set d" "CHR '','' \<notin> set d" "CHR '' '' \<notin> set d"
    using assms(1) by (auto simp: process_ok_def)
  have unq: "Unquote (n @ CHR ''='' # x) = None" for x
    using assms(3) Unquote_unquoted [of "n @ CHR ''='' # x"] by (cases n) auto
  have td: "map trim_space (split (trim_char (CHR '','') d) '','') = [d]"
  proof -
    have "hd d \<noteq> CHR '',''" "last d \<noteq> CHR '',''" using d(1,4) by (metis hd_in_set last_in_set)+
    with d show ?thesis by (simp add: trim_char_plain split_plain trim_space_trimmed)
  qed
  have "split (n @ ''='' @ d @ ''='' @ e) '' '' = [n @ ''='' @ d @ ''='' @ e]"
    using n d assms(4) by (intro split_plain) auto
  moreover have "split (n @ ''='' @ d @ ''='' @ e) ''='' = n # d # split e ''=''"
    using split_sep [of "''=''" n "d @ ''='' @ e"] split_sep [of "''=''" d e] n d by simp
  ultimately have 1: "ParseMonitoringOpts (n @ ''='' @ d @ ''='' @ e) = Ok [(n, [d])]"
    using unq d(1) td by (simp add: ParseMonitoringOpts_def Let_def)
  have "split (n @ ''=,'') '' '' = [n @ ''=,'']" using n by (intro split_plain) auto
  moreover have "split (n @ ''=,'') ''='' = [n, '','']"
    using split_sep [of "''=''" n "'',''"] n by (simp add: split_plain)
  moreover have "map trim_space (split (trim_char (CHR '','') '','') '','') = [[]]"
    by code_simp
  ultimately have 2: "ParseMonitoringOpts (n @ ''=,'') = Ok [(n, [[]])]"
    using unq by (simp add: ParseMonitoringOpts_def Let_def)
  have "show_options [(n, [d]), (n, [d'])] = n @ ''='' @ d @ '' '' @ n @ ''='' @ d'"
    by (simp add: show_options_def show_process_def)
  with split_options [of "[(n, [d]), (n, [d'])]"] parse_all [of "[(n, [d]), (n, [d'])]" "[]"] assms(1,2)
  have "parse_processes [] (split (n @ ''='' @ d @ '' '' @ n @ ''='' @ d') '' '') = Ok [(n, [d'])]"
    by simp
  then have 3: "ParseMonitoringOpts (n @ ''='' @ d @ '' '' @ n @ ''='' @ d') = Ok [(n, [d'])]"
    using unq by (simp add: ParseMonitoringOpts_def Let_def neq_Nil_conv)
  from 1 2 3 show ?thesis by blast
qed

end
