(* ===== verification/Go_Json.thy ===== *)
theory Go_Json
  imports Go_Quote Go_Conv
begin

text \<open>
  Strings in JSON: what \<open>encoding/json\<close> (Go 1.19) writes for a string when it marshals a struct,
  with its escapes for HTML, and a reader of JSON strings after RFC 8259 to state that no string
  can break out of its quotes. Bytes that are not UTF-8 are written as U+FFFD.
\<close>

subsection \<open>Writing\<close>

abbreviation (input) backslash :: char where "backslash \<equiv> CHR 0x5C"
abbreviation (input) quote :: char where "quote \<equiv> CHR 0x22"

text \<open>The bytes below 128 that are copied: \<open>htmlSafeSet\<close>.\<close>

definition html_safe :: "char \<Rightarrow> bool" where
  "html_safe c \<longleftrightarrow> byte_in 0x20 0x7F c \<and> c \<notin> {quote, backslash, CHR ''<'', CHR ''>'', CHR ''&''}"

definition json_ascii :: "char \<Rightarrow> string" where
  "json_ascii c =
     (if html_safe c then [c]
      else if c = backslash \<or> c = quote then [backslash, c]
      else if c = CHR 0x0A then [backslash, CHR ''n'']
      else if c = CHR 0x0D then [backslash, CHR ''r'']
      else if c = CHR 0x09 then [backslash, CHR ''t'']
      else backslash # ''u00'' @ hex_byte c)"

text \<open>One valid sequence of more than one byte: the two line separators are escaped.\<close>

definition json_rune :: "string \<Rightarrow> string" where
  "json_rune r =
     (if r = [CHR 0xE2, CHR 0x80, CHR 0xA8] then backslash # ''u2028''
      else if r = [CHR 0xE2, CHR 0x80, CHR 0xA9] then backslash # ''u2029''
      else r)"

text \<open>The length of the next piece of a string, and whether it is valid UTF-8.\<close>

definition piece_length :: "string \<Rightarrow> nat" where
  "piece_length s = (case utf8_length s of None \<Rightarrow> 1 | Some n \<Rightarrow> n)"

lemma piece_length_pos: "1 \<le> piece_length s"
  by (auto simp: piece_length_def Suc_le_eq split: option.splits dest: utf8_length_pos)

definition json_piece :: "string \<Rightarrow> string" where
  "json_piece s =
     (case s of
        [] \<Rightarrow> []
      | c # cs \<Rightarrow>
          if byte_in 0 0x7F c then json_ascii c
          else case utf8_length s of
                 None \<Rightarrow> backslash # ''ufffd''
               | Some n \<Rightarrow> json_rune (take n s))"

function json_chars :: "string \<Rightarrow> string" where
  "json_chars s = (if s = [] then [] else json_piece s @ json_chars (drop (piece_length s) s))"
  by pat_completeness auto
termination
  by (relation "measure length") (use piece_length_pos in \<open>auto simp: Suc_le_eq\<close>)

declare json_chars.simps [simp del]

definition json_string :: "string \<Rightarrow> string" where
  "json_string s = quote # json_chars s @ [quote]"

subsection \<open>Reading\<close>

definition json_escape :: "char \<Rightarrow> char option" where
  "json_escape c = map_of [(quote, quote), (backslash, backslash), (CHR ''/'', CHR ''/''),
     (CHR ''b'', CHR 0x08), (CHR ''f'', CHR 0x0C), (CHR ''n'', CHR 0x0A), (CHR ''r'', CHR 0x0D),
     (CHR ''t'', CHR 0x09)] c"

definition prepend :: "string \<Rightarrow> (string \<times> string) option \<Rightarrow> (string \<times> string) option" where
  "prepend r res = map_option (\<lambda>(a, b). (r @ a, b)) res"

text \<open>The contents of a string after its opening quote, and what follows the closing one.\<close>

fun json_read :: "string \<Rightarrow> (string \<times> string) option" where
  "json_read [] = None"
| "json_read (c # s) =
     (if c = quote then Some ([], s)
      else if c = backslash then
        (case s of
           [] \<Rightarrow> None
         | e # t \<Rightarrow>
             if e = CHR ''u'' then
               (case t of
                  h1 # h2 # h3 # h4 # v \<Rightarrow>
                    (case digits_of unhex 16 0 [h1, h2, h3, h4] of
                       None \<Rightarrow> None
                     | Some n \<Rightarrow> if valid_rune n then prepend (utf8_encode n) (json_read v) else None)
                | _ \<Rightarrow> None)
             else (case json_escape e of None \<Rightarrow> None | Some d \<Rightarrow> prepend [d] (json_read t)))
      else if byte_in 0 0x1F c then None
      else prepend [c] (json_read s))"

declare json_read.simps(2) [simp del]

subsection \<open>Reading back what was written\<close>

lemma prepend_simps [simp]:
  "prepend r None = None" "prepend r (Some (a, b)) = Some (r @ a, b)" "prepend [] x = x"
  "prepend r (prepend r' x) = prepend (r @ r') x"
  by (auto simp: prepend_def map_option.compositionality comp_def case_prod_unfold option.map_ident)

text \<open>The string with every byte that is not UTF-8 replaced.\<close>

definition valid_piece :: "string \<Rightarrow> string" where
  "valid_piece s = (case utf8_length s of None \<Rightarrow> replacement | Some n \<Rightarrow> take n s)"

function to_valid :: "string \<Rightarrow> string" where
  "to_valid s = (if s = [] then [] else valid_piece s @ to_valid (drop (piece_length s) s))"
  by pat_completeness auto
termination
  by (relation "measure length") (use piece_length_pos in \<open>auto simp: Suc_le_eq\<close>)

declare to_valid.simps [simp del]

lemma read_plain:
  "c \<noteq> quote \<Longrightarrow> c \<noteq> backslash \<Longrightarrow> \<not> byte_in 0 0x1F c \<Longrightarrow> json_read (c # s) = prepend [c] (json_read s)"
  by (simp add: json_read.simps(2))

lemma read_escape:
  "json_escape e = Some d \<Longrightarrow> e \<noteq> CHR ''u'' \<Longrightarrow>
   json_read (backslash # e # t) = prepend [d] (json_read t)"
  by (simp add: json_read.simps(2))

lemma read_hex:
  "digits_of unhex 16 0 [h1, h2, h3, h4] = Some n \<Longrightarrow> valid_rune n \<Longrightarrow>
   json_read (backslash # CHR ''u'' # h1 # h2 # h3 # h4 # t) = prepend (utf8_encode n) (json_read t)"
  by (simp add: json_read.simps(2))

lemma unhex_hex_char: "d < 16 \<Longrightarrow> unhex (hex_char d) = Some d"
  by (auto simp: unhex_def hex_char_def byte_in_def)

lemma unhex_zero: "unhex CHR ''0'' = Some 0"
  by (simp add: unhex_def byte_in_def)

lemma read_u00:
  assumes "byte_in 0 0x7F c"
  shows "json_read (backslash # ''u00'' @ hex_byte c @ t) = prepend [c] (json_read t)"
proof -
  let ?n = "of_char c :: nat"
  have n: "?n < 128" using assms by (simp add: byte_in_def)
  have "digits_of unhex 16 0 [CHR ''0'', CHR ''0'', hex_char (?n div 16), hex_char (?n mod 16)] = Some ?n"
    using n by (simp add: unhex_zero unhex_hex_char)
  moreover have "valid_rune ?n" "utf8_encode ?n = [c]"
    using n by (simp_all add: valid_rune_def utf8_encode_def)
  ultimately show ?thesis
    using read_hex [of "CHR ''0''" "CHR ''0''" "hex_char (?n div 16)" "hex_char (?n mod 16)" ?n t]
    by (simp add: hex_byte_def Let_def)
qed

lemma read_ascii:
  assumes "byte_in 0 0x7F c"
  shows "json_read (json_ascii c @ t) = prepend [c] (json_read t)"
proof (cases "html_safe c")
  case True
  then show ?thesis by (simp add: json_ascii_def html_safe_def read_plain byte_in_def)
next
  case False
  then show ?thesis
    using read_u00 [OF assms, of t] read_escape [of c c t] read_escape [of "CHR ''n''" "CHR 0x0A" t]
      read_escape [of "CHR ''r''" "CHR 0x0D" t] read_escape [of "CHR ''t''" "CHR 0x09" t]
    by (auto simp: json_ascii_def json_escape_def)
qed

lemma read_high:
  "list_all (byte_in 0x80 0xFF) r \<Longrightarrow> json_read (r @ t) = prepend r (json_read t)"
proof (induction r)
  case (Cons c r)
  then have "json_read (c # r @ t) = prepend [c] (json_read (r @ t))"
    by (intro read_plain) (auto simp: byte_in_def)
  with Cons show ?case by simp
qed simp

lemma follow_bytes:
  assumes "length (takeWhile P (take n bs)) = n"
  shows "list_all P (take n bs)"
proof -
  have "takeWhile P (take n bs) = take (length (takeWhile P (take n bs))) (take n bs)"
    by (rule takeWhile_eq_take)
  then have "takeWhile P (take n bs) = take n bs" by (simp add: assms)
  then show ?thesis by (simp add: list_all_iff takeWhile_eq_all_conv)
qed

lemma byte_in_mono: "byte_in lo hi c \<Longrightarrow> lo' \<le> lo \<Longrightarrow> hi \<le> hi' \<Longrightarrow> byte_in lo' hi' c"
  by (simp add: byte_in_def)

lemma utf8_follow:
  assumes "utf8_length (c # cs) = Some n" and "\<not> byte_in 0 0x7F c"
  shows "\<exists>b bs k. cs = b # bs \<and> n = k + 2 \<and> byte_in 0x80 0xBF b \<and>
    length (takeWhile (byte_in 0x80 0xBF) (take k bs)) = k"
proof (cases cs)
  case Nil
  with assms show ?thesis by (simp add: Let_def split: if_splits)
next
  case (Cons b bs)
  have "byte_in 0xA0 0xBF b \<Longrightarrow> byte_in 0x80 0xBF b" "byte_in 0x80 0x9F b \<Longrightarrow> byte_in 0x80 0xBF b"
    "byte_in 0x90 0xBF b \<Longrightarrow> byte_in 0x80 0xBF b" "byte_in 0x80 0x8F b \<Longrightarrow> byte_in 0x80 0xBF b"
    by (simp_all add: byte_in_def)
  with Cons assms show ?thesis
    by (auto simp: Let_def split: if_splits)
qed

lemma utf8_high:
  assumes "utf8_length (c # cs) = Some n" and "\<not> byte_in 0 0x7F c"
  shows "list_all (byte_in 0x80 0xFF) (take n (c # cs))"
proof -
  from utf8_follow [OF assms] obtain b bs k where
    f: "cs = b # bs" "n = k + 2" "byte_in 0x80 0xBF b" "length (takeWhile (byte_in 0x80 0xBF) (take k bs)) = k"
    by blast
  have "(of_char c :: nat) < 256" by (rule of_char_less_256)
  with assms(2) have "byte_in 0x80 0xFF c" unfolding byte_in_def by linarith
  moreover have "list_all (byte_in 0x80 0xFF) (b # take k bs)"
    using f(3) follow_bytes [OF f(4)] by (auto simp: list_all_iff intro: byte_in_mono)
  ultimately show ?thesis by (simp add: f(1,2))
qed

lemma read_rune:
  assumes "list_all (byte_in 0x80 0xFF) r"
  shows "json_read (json_rune r @ t) = prepend r (json_read t)"
proof -
  have "digits_of unhex 16 0 ''2028'' = Some 0x2028" "digits_of unhex 16 0 ''2029'' = Some 0x2029"
    "valid_rune 0x2028" "valid_rune 0x2029"
    "utf8_encode 0x2028 = [CHR 0xE2, CHR 0x80, CHR 0xA8]" "utf8_encode 0x2029 = [CHR 0xE2, CHR 0x80, CHR 0xA9]"
    by (simp_all add: unhex_def byte_in_def valid_rune_def utf8_encode_def char_of_eq_iff)
  then show ?thesis
    using read_hex [of "CHR ''2''" "CHR ''0''" "CHR ''2''" "CHR ''8''" "0x2028" t]
      read_hex [of "CHR ''2''" "CHR ''0''" "CHR ''2''" "CHR ''9''" "0x2029" t] read_high [OF assms]
    by (simp add: json_rune_def)
qed

lemma read_replacement: "json_read (backslash # ''ufffd'' @ t) = prepend replacement (json_read t)"
proof -
  have "digits_of unhex 16 0 ''fffd'' = Some 0xFFFD" "valid_rune 0xFFFD" "utf8_encode 0xFFFD = replacement"
    by (simp_all add: unhex_def byte_in_def valid_rune_def utf8_encode_def replacement_def char_of_eq_iff)
  then show ?thesis
    using read_hex [of "CHR ''f''" "CHR ''f''" "CHR ''f''" "CHR ''d''" "0xFFFD" t] by simp
qed

lemma read_piece:
  assumes "s \<noteq> []"
  shows "json_read (json_piece s @ t) = prepend (valid_piece s) (json_read t)"
proof -
  obtain c cs where s: "s = c # cs" using assms by (cases s) auto
  show ?thesis
  proof (cases "byte_in 0 0x7F c")
    case True
    then have "utf8_length s = Some 1" by (simp add: s Let_def)
    with True show ?thesis by (simp add: json_piece_def valid_piece_def s read_ascii)
  next
    case False
    then show ?thesis
      using read_replacement [of t] utf8_high [of c cs]
      by (cases "utf8_length s") (simp_all add: json_piece_def valid_piece_def s read_rune)
  qed
qed

lemma json_read_chars: "json_read (json_chars s @ quote # t) = Some (to_valid s, t)"
proof (induction s rule: json_chars.induct)
  case (1 s)
  show ?case
  proof (cases "s = []")
    case True
    then show ?thesis by (simp add: json_chars.simps to_valid.simps json_read.simps(2))
  next
    case False
    with 1 show ?thesis
      by (simp add: json_chars.simps [of s] to_valid.simps [of s] read_piece)
  qed
qed

text \<open>Text that is UTF-8 already is kept.\<close>

function valid_utf8 :: "string \<Rightarrow> bool" where
  "valid_utf8 s = (if s = [] then True else utf8_length s \<noteq> None \<and> valid_utf8 (drop (piece_length s) s))"
  by pat_completeness auto
termination
  by (relation "measure length") (use piece_length_pos in \<open>auto simp: Suc_le_eq\<close>)

declare valid_utf8.simps [simp del]

lemma to_valid_id: "valid_utf8 s \<Longrightarrow> to_valid s = s"
proof (induction s rule: to_valid.induct)
  case (1 s)
  then show ?case
    by (cases "s = []") (simp add: to_valid.simps, auto simp: to_valid.simps [of s] valid_utf8.simps [of s] valid_piece_def piece_length_def)
qed

end
