(* ===== verification/Splunk.thy ===== *)
theory Splunk
  imports Go_Json Alerts
begin

text \<open>
  The Splunk sender: pkg/alerts/splunk/splunk.go. The HTTP client is \<open>net/http\<close>: whether a
  request can be built for an address, what the server answers, and what reading the answer gives
  are fields of \<open>http\<close>, functions on the state of the world. The text that \<open>encoding/json\<close> gives
  the time, a floating-point number of seconds, is \<open>ht_seconds\<close>.
\<close>

record event =
  ev_Message :: string
  ev_Reason :: string
  ev_Path :: string

record event_holder =
  eh_Time :: string \<comment> \<open>the JSON text of the floating-point number\<close>
  eh_Event :: event

record splunk_client =
  sp_insecureSkipVerify :: bool
  sp_uri :: string
  sp_auth :: string

record http_response =
  hr_StatusCode :: int
  hr_Body :: "go_error + string" \<comment> \<open>\<open>io.ReadAll\<close> of the body\<close>

record 'w http =
  ht_seconds :: "int \<Rightarrow> string"
  ht_NewRequest :: "string \<Rightarrow> go_error option"
  ht_Do :: "bool \<Rightarrow> string \<Rightarrow> (string \<times> string) list \<Rightarrow> string \<Rightarrow> 'w \<Rightarrow> 'w \<times> (go_error + http_response)"
  ht_Close :: "http_response \<Rightarrow> 'w \<Rightarrow> 'w \<times> go_error option"

definition splunk_New :: "string \<Rightarrow> string \<Rightarrow> bool \<Rightarrow> splunk_client" where
  "splunk_New uri token insecureSkipVerify =
     \<lparr>sp_insecureSkipVerify = insecureSkipVerify, sp_uri = uri, sp_auth = ''Splunk '' @ token\<rparr>"

definition eventFromAlert :: "(int \<Rightarrow> string) \<Rightarrow> alert \<Rightarrow> event_holder" where
  "eventFromAlert seconds alert =
     \<lparr>eh_Time = seconds (al_Time alert),
      eh_Event = \<lparr>ev_Message = al_Message alert, ev_Reason = al_Reason alert, ev_Path = al_Path alert\<rparr>\<rparr>"

text \<open>\<open>json.Marshal\<close> of an event: the fields in the order and with the names of the struct tags.\<close>

definition field :: "string \<Rightarrow> string \<Rightarrow> string" where
  "field name val = json_string name @ CHR '':'' # val"

definition marshal_event :: "event_holder \<Rightarrow> string" where
  "marshal_event eh =
     ''{'' @ field ''time'' (eh_Time eh) @ '','' @ field ''event''
       (''{'' @ field ''message'' (json_string (ev_Message (eh_Event eh))) @ '','' @
        field ''reason'' (json_string (ev_Reason (eh_Event eh))) @ '','' @
        field ''path'' (json_string (ev_Path (eh_Event eh))) @ ''}'') @ ''}''"

text \<open>
  \<open>Send\<close>. Marshalling does not fail: the struct has strings and a finite number. The body is
  closed on every path after \<open>Do\<close>; an error of closing is only logged.
\<close>

definition StatusOK :: int where "StatusOK = 200"

definition ErrInvalidStatus :: go_error where
  "ErrInvalidStatus = ErrNew ''failed send message: invalid status code''"

definition splunk_Send :: "'w http \<Rightarrow> splunk_client \<Rightarrow> 'w sender" where
  "splunk_Send ht c alert w =
     (let data = marshal_event (eventFromAlert (ht_seconds ht) alert) in
      case ht_NewRequest ht (sp_uri c) of
        Some err \<Rightarrow> (w, Some err)
      | None \<Rightarrow>
          (case ht_Do ht (sp_insecureSkipVerify c) (sp_uri c) [(''Authorization'', sp_auth c)] data w of
             (w', Inl err) \<Rightarrow> (w', Some err)
           | (w', Inr resp) \<Rightarrow>
               (fst (ht_Close ht resp w'),
                case hr_Body resp of
                  Inl err \<Rightarrow> Some err
                | Inr respData \<Rightarrow>
                    if hr_StatusCode resp = StatusOK then None else Some ErrInvalidStatus)))"

subsection \<open>The document that is sent\<close>

text \<open>A reader of the document: the text of the time and the three strings.\<close>

definition skip :: "string \<Rightarrow> string \<Rightarrow> string option" where
  "skip p s = (if take (length p) s = p then Some (drop (length p) s) else None)"

definition read_string_field :: "string \<Rightarrow> string \<Rightarrow> (string \<times> string) option" where
  "read_string_field name s =
     (case skip (CHR 0x22 # name @ [CHR 0x22, CHR '':'', CHR 0x22]) s of
        None \<Rightarrow> None
      | Some t \<Rightarrow> json_read t)"

definition read_event :: "string \<Rightarrow> (string \<times> string \<times> string \<times> string) option" where
  "read_event s =
     (case skip (CHR ''{'' # json_string ''time'' @ '':'') s of
        None \<Rightarrow> None
      | Some s \<Rightarrow>
     (let time = takeWhile (\<lambda>c. c \<noteq> CHR '','') s in
      case skip ('','' @ json_string ''event'' @ '':{'') (drop (length time) s) of
        None \<Rightarrow> None
      | Some s \<Rightarrow>
     (case read_string_field ''message'' s of
        None \<Rightarrow> None
      | Some (message, s) \<Rightarrow>
     (case skip '','' s of None \<Rightarrow> None | Some s \<Rightarrow>
     (case read_string_field ''reason'' s of
        None \<Rightarrow> None
      | Some (reason, s) \<Rightarrow>
     (case skip '','' s of None \<Rightarrow> None | Some s \<Rightarrow>
     (case read_string_field ''path'' s of
        None \<Rightarrow> None
      | Some (path, s) \<Rightarrow> if s = ''}}'' then Some (time, message, reason, path) else None)))))))"

lemma skip_append [simp]: "skip p (p @ s) = Some s"
  by (simp add: skip_def)

lemma json_plain:
  "list_all html_safe s \<Longrightarrow> json_chars s = s"
proof (induction s)
  case (Cons c s)
  then have "utf8_length (c # s) = Some 1" and "byte_in 0 0x7F c" and "html_safe c"
    by (auto simp: html_safe_def byte_in_def Let_def)
  with Cons show ?case
    by (subst json_chars.simps) (simp add: piece_length_def json_piece_def json_ascii_def)
qed (simp add: json_chars.simps)

lemma json_name:
  "list_all html_safe name \<Longrightarrow> json_string name = CHR 0x22 # name @ [CHR 0x22]"
  by (simp add: json_string_def json_plain)

lemma read_string_field:
  assumes "list_all html_safe name"
  shows "read_string_field name (field name (json_string v) @ s) = Some (to_valid v, s)"
proof -
  have "field name (json_string v) @ s =
      (CHR 0x22 # name @ [CHR 0x22, CHR '':'', CHR 0x22]) @ json_chars v @ CHR 0x22 # s"
    using json_name [OF assms] by (simp add: field_def json_string_def)
  then show ?thesis by (simp only: read_string_field_def skip_append option.case json_read_chars)
qed

lemma safe_names:
  "list_all html_safe ''time''" "list_all html_safe ''event''" "list_all html_safe ''message''"
  "list_all html_safe ''reason''" "list_all html_safe ''path''"
  by (simp_all add: html_safe_def byte_in_def)

lemma read_marshal:
  assumes "CHR '','' \<notin> set (eh_Time eh)"
  shows "read_event (marshal_event eh) = Some (eh_Time eh, to_valid (ev_Message (eh_Event eh)),
    to_valid (ev_Reason (eh_Event eh)), to_valid (ev_Path (eh_Event eh)))"
proof -
  let ?e = "eh_Event eh"
  let ?path = "field ''path'' (json_string (ev_Path ?e)) @ ''}}''"
  let ?reason = "field ''reason'' (json_string (ev_Reason ?e)) @ '','' @ ?path"
  let ?message = "field ''message'' (json_string (ev_Message ?e)) @ '','' @ ?reason"
  let ?rest = "('','' @ json_string ''event'' @ '':{'') @ ?message"
  have m: "marshal_event eh = (CHR ''{'' # json_string ''time'' @ '':'') @ eh_Time eh @ ?rest"
    by (simp add: marshal_event_def field_def)
  have "takeWhile (\<lambda>c. c \<noteq> CHR '','') (eh_Time eh @ ?rest) = eh_Time eh"
    using assms by (subst takeWhile_append2) auto
  moreover have "drop (length t) (t @ r) = r" for t r :: string by simp
  ultimately show ?thesis
    unfolding m read_event_def skip_append option.case Let_def
    by (simp only: skip_append option.case read_string_field [OF safe_names(3)]
        read_string_field [OF safe_names(4)] read_string_field [OF safe_names(5)] prod.case simp_thms if_True)
qed

subsection \<open>Properties\<close>

text \<open>
  Property C32. \<open>Send\<close> succeeds exactly if a request could be built, the server answered it, the
  answer could be read and its status is 200. The one request that is made carries the token and
  a document from which the alert's time, message, reason and path are read back, the three strings as \<open>to_valid\<close>
  gives them: a string in UTF-8 unchanged, any other with U+FFFD for each byte that does not belong
  to a character, so that such a file name is not recovered from the alert. But no file name can
  change the structure of the document.
\<close>

theorem splunk_sends_the_alert:
  assumes "CHR '','' \<notin> set (ht_seconds ht (al_Time alert))"
  shows "\<exists>body. read_event body = Some (ht_seconds ht (al_Time alert), to_valid (al_Message alert),
        to_valid (al_Reason alert), to_valid (al_Path alert)) \<and>
    (\<forall>s. valid_utf8 s \<longrightarrow> to_valid s = s) \<and>
    (case ht_NewRequest ht uri of
       Some err \<Rightarrow> splunk_Send ht (splunk_New uri token skip_verify) alert w = (w, Some err)
     | None \<Rightarrow>
         (case ht_Do ht skip_verify uri [(''Authorization'', ''Splunk '' @ token)] body w of
            (w', Inl err) \<Rightarrow> splunk_Send ht (splunk_New uri token skip_verify) alert w = (w', Some err)
          | (w', Inr resp) \<Rightarrow>
              fst (splunk_Send ht (splunk_New uri token skip_verify) alert w) = fst (ht_Close ht resp w') \<and>
              (snd (splunk_Send ht (splunk_New uri token skip_verify) alert w) = None \<longleftrightarrow>
                 (\<exists>text. hr_Body resp = Inr text) \<and> hr_StatusCode resp = 200)))"
proof -
  let ?eh = "eventFromAlert (ht_seconds ht) alert"
  have "read_event (marshal_event ?eh) = Some (ht_seconds ht (al_Time alert), to_valid (al_Message alert),
      to_valid (al_Reason alert), to_valid (al_Path alert))"
    using read_marshal [of ?eh] assms by (simp add: eventFromAlert_def)
  then show ?thesis
    by (intro exI [of _ "marshal_event ?eh"])
      (auto simp: to_valid_id splunk_Send_def splunk_New_def StatusOK_def split: option.splits prod.splits sum.splits)
qed

definition demo_http :: "string list http" where
  "demo_http = \<lparr>ht_seconds = \<lambda>t. nat_str (nat t), ht_NewRequest = \<lambda>uri. None,
     ht_Do = \<lambda>skip_verify uri headers body w. (w @ [body], Inr \<lparr>hr_StatusCode = 200, hr_Body = Inr ''ok''\<rparr>),
     ht_Close = \<lambda>resp w. (w, None)\<rparr>"

theorem splunk_sends_the_alert_witness:
  "snd (splunk_Send demo_http (splunk_New ''https://splunk:8088'' ''t'' True)
     \<lparr>al_Time = 7, al_Message = ''Restart pod p'', al_Reason = ''new file found'',
      al_Path = ''a'' @ [CHR 0x22, CHR 0x0A] @ ''b'', al_ProcessName = ''nginx''\<rparr> []) = None"
proof -
  let ?a = "\<lparr>al_Time = 7, al_Message = ''Restart pod p'', al_Reason = ''new file found'',
      al_Path = ''a'' @ [CHR 0x22, CHR 0x0A] @ ''b'', al_ProcessName = ''nginx''\<rparr>"
  have "ht_seconds demo_http (al_Time ?a) = ''7''" by code_simp
  then have "CHR '','' \<notin> set (ht_seconds demo_http (al_Time ?a))" by simp
  from splunk_sends_the_alert [OF this, of "''https://splunk:8088''" "''t''" True "[]"] show ?thesis
    by (auto simp: demo_http_def)
qed

end
