(* ===== verification/Monitor_Start.thy ===== *)
theory Monitor_Start
  imports Configs Minio_Storage K8s Options Splunk Main_Loop
begin

text \<open>
  The monitor's \<open>main\<close> (cmd/k8s-integrity-sum/main.go) with the health file (pkg/health/health.go):
  what is set up in which order, what ends the process, and what is left behind. \<open>log.Fatalf\<close> ends
  the process at once, so that deferred calls are not made; a panic makes them. The operating
  system, the MinIO and Kubernetes clients and the network are fields of \<open>main_env\<close>.
\<close>

definition AppId :: string where "AppId = ''integrity-monitor''"

record clientset =
  cs_GetDeployment :: "string \<Rightarrow> string \<Rightarrow> deployment result"

record ('w, 'k) main_env =
  me_Create :: "string \<Rightarrow> 'w \<Rightarrow> 'w \<times> go_error option" \<comment> \<open>\<open>os.Create\<close>\<close>
  me_Close :: "string \<Rightarrow> 'w \<Rightarrow> 'w \<times> go_error option"
  me_Remove :: "string \<Rightarrow> 'w \<Rightarrow> 'w \<times> go_error option"
  me_minio_New :: "string \<Rightarrow> go_error + 'w minio_client"
  me_namespaceFile :: "string result"
  me_getenv :: "string \<Rightarrow> string"
  me_InClusterConfig :: "go_error + 'k"
  me_NewForConfig :: "'k \<Rightarrow> go_error + clientset"
  me_http :: "'w http"
  me_syslog :: syslog_env
  me_dial :: "string \<Rightarrow> string \<Rightarrow> 'w \<Rightarrow> 'w \<times> go_error option"
  me_write :: "string \<Rightarrow> 'w \<Rightarrow> 'w \<times> go_error option"

subsection \<open>The values that the checks read\<close>

definition config_of :: "lookup \<Rightarrow> config" where
  "config_of v =
     \<lparr>cfg_process_image = GetStringMapString v ''process-image'',
      cfg_pod_namespace = GetString v ''pod-namespace'', cfg_minio_bucket = GetString v ''minio-bucket'',
      cfg_algorithm = GetString v ''algorithm'', cfg_count_workers = GetInt v ''count-workers''\<rparr>"

text \<open>A monitor started without the flag loads from the bucket that the controller saves to.\<close>

lemma config_bucket_default:
  "given ''minio-bucket'' = None \<Longrightarrow>
   cfg_minio_bucket (config_of (viper_lookup given (config_flags n @ minio_flags))) = DefaultBucketName"
  by (simp add: config_of_def GetString_def lookup_default config_flags_def minio_flags_def DefaultBucketName_def)

subsection \<open>The health file\<close>

definition health_Set :: "('w, 'k) main_env \<Rightarrow> string \<Rightarrow> 'w \<Rightarrow> 'w \<times> go_error option" where
  "health_Set env file w =
     (case me_Create env file w of
        (w', Some err) \<Rightarrow> (w', Some err)
      | (w', None) \<Rightarrow> me_Close env file w')"

definition health_Reset :: "('w, 'k) main_env \<Rightarrow> string \<Rightarrow> 'w \<Rightarrow> 'w \<times> go_error option" where
  "health_Reset env file w = me_Remove env file w"

definition health_file :: string where "health_file = ''/tmp/'' @ AppId"

subsection \<open>Setting up\<close>

text \<open>How the process can end before it monitors anything.\<close>

datatype ending =
    Fatal_Health
  | Fatal_Minio
  | Fatal_Target
  | Fatal_Connect
  | Fatal_Deployment
  | Fatal_Options
  | Crashed string

record 'w started =
  st_storage :: "'w minio_client option"
  st_kube :: kube_data
  st_clientset :: clientset
  st_deployment :: deployment_data
  st_senders :: "'w sender list"
  st_options :: "(string \<times> string list) list"

text \<open>The senders that are registered, in this order, according to the flags.\<close>

definition register_splunk :: "('w, 'k) main_env \<Rightarrow> lookup \<Rightarrow> 'w sender list \<Rightarrow> 'w sender list" where
  "register_splunk env v registry =
     (if GetBool v ''splunk-enabled'' then
        let splunkUrl = GetString v ''splunk-url'';
            splunkToken = GetString v ''splunk-token'';
            splunkInsecureSkipVerify = GetBool v ''splunk-insecure-skip-verify''
        in if 0 < length splunkUrl \<and> 0 < length splunkToken
           then alerts_Register registry
                  (splunk_Send (me_http env) (splunk_New splunkUrl splunkToken splunkInsecureSkipVerify))
           else registry
      else registry)"

definition register_syslog ::
    "('w, 'k) main_env \<Rightarrow> lookup \<Rightarrow> deployment_data \<Rightarrow> 'w sender list \<Rightarrow> 'w sender list" where
  "register_syslog env v deploymentData registry =
     (if GetBool v ''syslog-enabled'' then
        let addr = GetString v ''syslog-host'' @ '':'' @ int_str (GetInt v ''syslog-port'')
        in alerts_Register registry
             (syslog_Send (me_dial env) (me_write env) (me_syslog env)
                (syslog_New (me_syslog env) (GetString v ''syslog-proto'') addr DefaultPriority
                   (dd_NameDeployment deploymentData @ ''.'' @ dd_NameSpace deploymentData) AppId))
      else registry)"

text \<open>Everything between the health file and \<open>graceful.Execute\<close>.\<close>

definition set_up :: "('w, 'k) main_env \<Rightarrow> lookup \<Rightarrow> ending + 'w started" where
  "set_up env v =
     (case NewStorage (me_minio_New env) (GetString v ''minio-host'') \<lparr>mv_once = False, mv_instance = None\<rparr> of
        (g, s, Some err) \<Rightarrow> Inl Fatal_Minio
      | (g, s, None) \<Rightarrow>
     (case InitKubeData (me_namespaceFile env) (me_getenv env) of
        Panic m \<Rightarrow> Inl (Crashed m)
      | Fail err \<Rightarrow> Inl Fatal_Target
      | Ok kubeData \<Rightarrow>
     (case Connect (me_InClusterConfig env) (me_NewForConfig env) of
        Panic m \<Rightarrow> Inl (Crashed m)
      | Fail err \<Rightarrow> Inl Fatal_Connect
      | Ok clientset \<Rightarrow>
     (case GetDataFromDeployment (cs_GetDeployment clientset) kubeData of
        Panic m \<Rightarrow> Inl (Crashed m)
      | Fail err \<Rightarrow> Inl Fatal_Deployment
      | Ok deploymentData \<Rightarrow>
          let registry = register_syslog env v deploymentData (register_splunk env v []) in
          (case ParseMonitoringOpts (GetString v ''monitoring-options'') of
             Panic m \<Rightarrow> Inl (Crashed m)
           | Fail err \<Rightarrow> Inl Fatal_Options
           | Ok optsMap \<Rightarrow>
               Inr \<lparr>st_storage = minio_Instance g, st_kube = kubeData, st_clientset = clientset,
                    st_deployment = deploymentData, st_senders = registry, st_options = optsMap\<rparr>)))))"

text \<open>
  What runs under \<open>graceful.Execute\<close>: the loop \<open>runCheckIntegrity\<close> over the ticks that come, and
  beside it the goroutine of \<open>Heartbeat\<close> and those that the checks start. An event is a tick of the
  loop, with the processes in the order of the map iteration, one that the heartbeat takes, or a panic
  of a goroutine other than that of \<open>main\<close>, as of the one that compares when it sends on the closed
  channel of a check that has returned (\<open>cancelled_check_hazards\<close> in Check_Cancelled); sends of
  the heartbeat that fall into a check are put before or after it. A panic of another goroutine ends the
  process at once, without the deferred calls of \<open>main\<close>.
\<close>

datatype run_event =
    CheckTick "(string \<times> string list) list"
  | Beat int
  | Goroutine_Panics string

datatype run_end =
    Running \<comment> \<open>the loop goes on\<close>
  | Returned "go_error option"
  | Died string

fun execute ::
    "('w \<Rightarrow> bool) \<Rightarrow> (string \<Rightarrow> string list \<Rightarrow> 'w \<Rightarrow> 'w \<times> go_error option) \<Rightarrow> 'w sender list \<Rightarrow> alert \<Rightarrow>
     run_event list \<Rightarrow> 'w \<Rightarrow> 'w \<times> run_end" where
  "execute ctx_done check registry hbAlert [] w = (w, Running)"
| "execute ctx_done check registry hbAlert (CheckTick tick # es) w =
     (case processes_loop ctx_done check tick w of
        (w', Some r) \<Rightarrow> (w', Returned r)
      | (w', None) \<Rightarrow> execute ctx_done check registry hbAlert es w')"
| "execute ctx_done check registry hbAlert (Beat now # es) w =
     execute ctx_done check registry hbAlert es (heartbeat registry hbAlert [Tick now] w)"
| "execute ctx_done check registry hbAlert (Goroutine_Panics m # es) w = (w, Died m)"

text \<open>
  The program, with the checks of the monitor that was set up. The outcome is how the process
  ended early, or what became of the loop. Of the events the loop's own order is that of
  \<open>Shutdown\<close>, where the processes of a tick are those of the parsed options.
\<close>

definition hb_alert :: "('w, 'k) main_env \<Rightarrow> alert" where
  "hb_alert env = alert_New (sy_now (me_syslog env)) ''health check'' HeartbeatEvent [] AppId"

text \<open>
  \<open>time.NewTicker\<close> of \<open>runCheckIntegrity\<close> panics for a duration that is not positive; that is before the
  first tick, so that only the deferred removal of the health file is still made.
\<close>

definition NewTicker_panic :: string where
  "NewTicker_panic = ''non-positive interval for NewTicker''"

definition monitor_main ::
    "('w, 'k) main_env \<Rightarrow> lookup \<Rightarrow> ('w \<Rightarrow> bool) \<Rightarrow>
     ('w started \<Rightarrow> string \<Rightarrow> string list \<Rightarrow> 'w \<Rightarrow> 'w \<times> go_error option) \<Rightarrow>
     ('w started \<Rightarrow> run_event list) \<Rightarrow> 'w \<Rightarrow> 'w \<times> (ending + run_end)" where
  "monitor_main env v ctx_done check events w =
     (case health_Set env health_file w of
        (w, Some err) \<Rightarrow> (w, Inl Fatal_Health)
      | (w, None) \<Rightarrow>
          (case set_up env v of
             Inl (Crashed m) \<Rightarrow> (fst (health_Reset env health_file w), Inl (Crashed m))
           | Inl e \<Rightarrow> (w, Inl e)
           | Inr st \<Rightarrow>
               if GetDuration v ''duration-time'' \<le> 0
               then (fst (health_Reset env health_file w), Inl (Crashed NewTicker_panic))
               else
                 (case execute ctx_done (check st) (st_senders st) (hb_alert env) (events st) w of
                    (w, Returned r) \<Rightarrow> (fst (health_Reset env health_file w), Inr (Returned r))
                  | (w, Running) \<Rightarrow> (w, Inr Running)
                  | (w, Died m) \<Rightarrow> (w, Inr (Died m)))))"

subsection \<open>The loop and the heartbeat\<close>

text \<open>Without heartbeats it is the loop of Main_Loop.\<close>

lemma execute_ticks:
  "execute ctx_done check registry hbAlert (map CheckTick ticks) w =
     (case runCheckIntegrity ctx_done check ticks w of
        (w', None) \<Rightarrow> (w', Running)
      | (w', Some r) \<Rightarrow> (w', Returned r))"
  by (induction ticks arbitrary: w) (simp_all split: prod.splits option.splits)

lemma sends_keeps:
  "(\<And>s a u. s \<in> set registry \<Longrightarrow> P (fst (s a u)) = P u) \<Longrightarrow> P (sends registry a u) = P u"
  by (induction registry arbitrary: u) auto

lemma execute_keeps:
  assumes "\<And>proc dirs u. P (fst (check proc dirs u)) = P u"
    and "\<And>s a u. s \<in> set registry \<Longrightarrow> P (fst (s a u)) = P u"
  shows "P (fst (execute ctx_done check registry hbAlert es u)) = P u"
proof (induction es arbitrary: u)
  case (Cons e es)
  have loop: "P (fst (processes_loop ctx_done check ps u)) = P u" for ps
    using assms(1) by (induction ps arbitrary: u) auto
  show ?case
  proof (cases e)
    case (CheckTick tick)
    with loop [of tick] Cons show ?thesis
      by (cases "processes_loop ctx_done check tick u"; cases "snd (processes_loop ctx_done check tick u)") auto
  next
    case (Beat now)
    with Cons sends_keeps [of registry P] assms(2) show ?thesis by (simp add: alerts_Send_eq)
  qed simp
qed simp

subsection \<open>What is needed to start\<close>

lemma storage_started:
  "NewStorage minio_New host \<lparr>mv_once = False, mv_instance = None\<rparr> = (g, s, None) \<longleftrightarrow>
   (\<exists>c. minio_New host = Inr c \<and> s = Some c \<and> g = \<lparr>mv_once = True, mv_instance = Some c\<rparr>)"
  by (auto simp: NewStorage_def NewMinIOClient_def split: sum.splits)

lemma set_up_Inr_iff:
  "set_up env v = Inr st \<longleftrightarrow>
     (\<exists>c. me_minio_New env (GetString v ''minio-host'') = Inr c \<and> st_storage st = Some c) \<and>
     InitKubeData (me_namespaceFile env) (me_getenv env) = Ok (st_kube st) \<and>
     Connect (me_InClusterConfig env) (me_NewForConfig env) = Ok (st_clientset st) \<and>
     GetDataFromDeployment (cs_GetDeployment (st_clientset st)) (st_kube st) = Ok (st_deployment st) \<and>
     st_senders st = register_syslog env v (st_deployment st) (register_splunk env v []) \<and>
     ParseMonitoringOpts (GetString v ''monitoring-options'') = Ok (st_options st)"
  (is "?l \<longleftrightarrow> ?r")
proof
  assume ?l
  then show ?r
    unfolding set_up_def
    by (auto simp: storage_started minio_Instance_def Let_def split: prod.splits option.splits result.splits)
next
  assume r: ?r
  then obtain c where "me_minio_New env (GetString v ''minio-host'') = Inr c" "st_storage st = Some c" by blast
  with r show ?l
    by (cases st) (simp add: set_up_def NewStorage_def NewMinIOClient_def minio_Instance_def Let_def)
qed

lemma GetDataFromDeployment_names:
  "GetDataFromDeployment getDeployment kd = Ok d \<Longrightarrow>
   dd_NameDeployment d = kd_TargetName kd \<and> dd_NameSpace d = kd_Namespace kd \<and> dd_NamePod d = kd_PodName kd"
  by (auto simp: GetDataFromDeployment_def bind_result_Ok_iff foldl_image Let_def split: option.splits if_splits)

text \<open>Set up, with the ticker: what is left is the loop.\<close>

definition ready :: "('w, 'k) main_env \<Rightarrow> lookup \<Rightarrow> ending + 'w started" where
  "ready env v =
     (case set_up env v of
        Inl e \<Rightarrow> Inl e
      | Inr st \<Rightarrow> if GetDuration v ''duration-time'' \<le> 0 then Inl (Crashed NewTicker_panic) else Inr st)"

lemma ready_Inr_iff: "ready env v = Inr st \<longleftrightarrow> set_up env v = Inr st \<and> 0 < GetDuration v ''duration-time''"
  by (auto simp: ready_def split: sum.splits)

lemma main_outcome:
  "monitor_main env v ctx_done check events w =
     (case health_Set env health_file w of
        (w, Some err) \<Rightarrow> (w, Inl Fatal_Health)
      | (w, None) \<Rightarrow>
          (case ready env v of
             Inl e \<Rightarrow> (if \<exists>m. e = Crashed m then fst (health_Reset env health_file w) else w, Inl e)
           | Inr st \<Rightarrow>
               (case execute ctx_done (check st) (st_senders st) (hb_alert env) (events st) w of
                  (w, r) \<Rightarrow> (if \<exists>e. r = Returned e then fst (health_Reset env health_file w) else w, Inr r))))"
  by (auto simp: monitor_main_def ready_def split: prod.splits option.splits sum.splits ending.splits run_end.splits)

text \<open>The senders of a monitor that was set up.\<close>

definition senders_of :: "('w, 'k) main_env \<Rightarrow> lookup \<Rightarrow> kube_data \<Rightarrow> 'w sender list" where
  "senders_of env v kd =
     (if GetBool v ''splunk-enabled'' \<and> GetString v ''splunk-url'' \<noteq> [] \<and> GetString v ''splunk-token'' \<noteq> []
      then [splunk_Send (me_http env) (splunk_New (GetString v ''splunk-url'') (GetString v ''splunk-token'')
              (GetBool v ''splunk-insecure-skip-verify''))] else []) @
     (if GetBool v ''syslog-enabled''
      then [syslog_Send (me_dial env) (me_write env) (me_syslog env)
              (syslog_New (me_syslog env) (GetString v ''syslog-proto'')
                (GetString v ''syslog-host'' @ '':'' @ int_str (GetInt v ''syslog-port'')) DefaultPriority
                (kd_TargetName kd @ ''.'' @ kd_Namespace kd) AppId)] else [])"

lemma set_up_senders:
  assumes "set_up env v = Inr st"
  shows "st_senders st = senders_of env v (st_kube st)"
proof -
  from assms have d: "dd_NameDeployment (st_deployment st) = kd_TargetName (st_kube st)"
    "dd_NameSpace (st_deployment st) = kd_Namespace (st_kube st)"
    and s: "st_senders st = register_syslog env v (st_deployment st) (register_splunk env v [])"
    unfolding set_up_Inr_iff using GetDataFromDeployment_names by blast+
  show ?thesis
    unfolding s register_syslog_def register_splunk_def senders_of_def alerts_Register_def Let_def d
    by simp
qed

lemma set_up_possible:
  "(\<exists>st. set_up env v = Inr st) \<longleftrightarrow> (\<exists>c. me_minio_New env (GetString v ''minio-host'') = Inr c) \<and>
     (\<exists>kubeData clientset deploymentData optsMap.
        InitKubeData (me_namespaceFile env) (me_getenv env) = Ok kubeData \<and>
        Connect (me_InClusterConfig env) (me_NewForConfig env) = Ok clientset \<and>
        GetDataFromDeployment (cs_GetDeployment clientset) kubeData = Ok deploymentData \<and>
        ParseMonitoringOpts (GetString v ''monitoring-options'') = Ok optsMap)" (is "?u \<longleftrightarrow> ?n")
proof
  assume ?u
  then show ?n unfolding set_up_Inr_iff by blast
next
  assume ?n
  then obtain c kubeData clientset deploymentData optsMap where
    "me_minio_New env (GetString v ''minio-host'') = Inr c"
    "InitKubeData (me_namespaceFile env) (me_getenv env) = Ok kubeData"
    "Connect (me_InClusterConfig env) (me_NewForConfig env) = Ok clientset"
    "GetDataFromDeployment (cs_GetDeployment clientset) kubeData = Ok deploymentData"
    "ParseMonitoringOpts (GetString v ''monitoring-options'') = Ok optsMap" by blast
  then show ?u
    unfolding set_up_Inr_iff
    by (intro exI [of _ "\<lparr>st_storage = Some c, st_kube = kubeData, st_clientset = clientset,
          st_deployment = deploymentData, st_senders = register_syslog env v deploymentData
          (register_splunk env v []), st_options = optsMap\<rparr>"]) simp
qed

lemma set_up_not_health: "ready env v \<noteq> Inl Fatal_Health"
  by (auto simp: ready_def set_up_def Let_def split: prod.splits option.splits result.splits)

lemma main_runs_iff:
  "(\<exists>r. snd (monitor_main env v ctx_done check events w) = Inr r) \<longleftrightarrow>
   snd (health_Set env health_file w) = None \<and> (\<exists>st. set_up env v = Inr st) \<and> 0 < GetDuration v ''duration-time''"
  unfolding main_outcome ready_def by (auto split: prod.splits option.splits sum.splits)

lemma main_ends_early:
  "snd (monitor_main env v ctx_done check events w) = Inl e \<Longrightarrow>
   monitor_main env v ctx_done check events w =
     (if \<exists>m. e = Crashed m then fst (health_Reset env health_file (fst (health_Set env health_file w)))
      else fst (health_Set env health_file w), Inl e)"
  unfolding main_outcome by (auto split: prod.splits option.splits sum.splits if_splits)

subsection \<open>Properties\<close>

text \<open>
  Property C31. The monitor monitors only when everything it needs is there: it runs its loop
  exactly if the health file could be created, the MinIO client made, the pod's name gives a
  deployment, the cluster and the deployment's data could be read, the options parsed and the
  duration between checks is positive;
  otherwise no check is made, and nothing is changed but the health file. When it runs, alerts
  go to Splunk if that is enabled with an address and a token, and then to syslog if that is
  enabled, under the name of the deployment.
\<close>

theorem monitor_needs_everything:
  "((\<exists>r. snd (monitor_main env v ctx_done check events w) = Inr r) \<longleftrightarrow>
      snd (health_Set env health_file w) = None \<and>
      (\<exists>c. me_minio_New env (GetString v ''minio-host'') = Inr c) \<and>
      (\<exists>kubeData clientset deploymentData optsMap.
         InitKubeData (me_namespaceFile env) (me_getenv env) = Ok kubeData \<and>
         Connect (me_InClusterConfig env) (me_NewForConfig env) = Ok clientset \<and>
         GetDataFromDeployment (cs_GetDeployment clientset) kubeData = Ok deploymentData \<and>
         ParseMonitoringOpts (GetString v ''monitoring-options'') = Ok optsMap) \<and>
      0 < GetDuration v ''duration-time'') \<and>
   (\<forall>e. snd (monitor_main env v ctx_done check events w) = Inl e \<longrightarrow>
      fst (monitor_main env v ctx_done check events w) \<in>
        {fst (health_Set env health_file w), fst (health_Reset env health_file (fst (health_Set env health_file w)))}) \<and>
   (\<forall>st. set_up env v = Inr st \<longrightarrow> st_senders st = senders_of env v (st_kube st))"
  unfolding main_runs_iff set_up_possible using main_ends_early set_up_senders by fastforce

text \<open>A machine for the witnesses; its world is whether the health file is there.\<close>

definition demo_main :: "(bool, unit) main_env" where
  "demo_main = \<lparr>me_Create = \<lambda>f w. (True, None), me_Close = \<lambda>f w. (w, None), me_Remove = \<lambda>f w. (False, None),
     me_minio_New = \<lambda>host. Inr \<lparr>PutObject = \<lambda>b n d w. (w, None), GetObject = \<lambda>b n w. (w, None),
       StatObject = \<lambda>b n w. (w, None), ReadObject = \<lambda>b n w. (w, Ok []), RemoveObject = \<lambda>b n w. (w, None),
       BucketExists = \<lambda>b w. (w, Inr True), MakeBucket = \<lambda>b w. (w, None), ListBuckets = \<lambda>w. (w, Inr [])\<rparr>,
     me_namespaceFile = Ok ''ns'', me_getenv = \<lambda>key. ''app-5d-x2'', me_InClusterConfig = Inr (),
     me_NewForConfig = \<lambda>k. Inr \<lparr>cs_GetDeployment = \<lambda>ns name. Ok \<lparr>dp_CreationTimestamp = [],
       dp_ContainerImages = [], dp_Annotations = Map.empty\<rparr>\<rparr>,
     me_http = \<lparr>ht_seconds = \<lambda>t. ''0'', ht_NewRequest = \<lambda>uri. None,
       ht_Do = \<lambda>i uri h b w. (w, Inl ErrCanceled), ht_Close = \<lambda>r w. (w, None)\<rparr>,
     me_syslog = \<lparr>sy_hostname = ''pod'', sy_arg0 = ''monitor'', sy_pid = 1, sy_now = 0, sy_stamp = \<lambda>t. [],
       sy_process_image = Map.empty, sy_pod_namespace = ''ns'', sy_cluster_name = ''local''\<rparr>,
     me_dial = \<lambda>n a w. (w, None), me_write = \<lambda>m w. (w, None)\<rparr>"

definition demo_lookup :: "string \<Rightarrow> lookup" where
  "demo_lookup opts = viper_lookup [''monitoring-options'' \<mapsto> FString opts, ''syslog-enabled'' \<mapsto> FBool True]
     (config_flags 4 @ minio_flags)"

lemma demo_options: "GetString (demo_lookup ''p=/app'') ''monitoring-options'' = ''p=/app''"
  and demo_no_options: "GetString (demo_lookup []) ''monitoring-options'' = []"
  by (simp_all add: demo_lookup_def viper_lookup_def GetString_def)

lemma demo_duration: "0 < GetDuration (demo_lookup opts) ''duration-time''"
  by (simp add: demo_lookup_def viper_lookup_def GetDuration_def config_flags_def Second_def)

lemma demo_target:
  "InitKubeData (me_namespaceFile demo_main) (me_getenv demo_main) = Ok \<lparr>kd_Namespace = ''ns'',
     kd_TargetName = ''app'', kd_TargetType = ''app-5d-x2'', kd_PodName = ''app-5d-x2'', kd_PodNamespace = ''app-5d-x2''\<rparr>"
  by code_simp

lemma demo_parse: "ParseMonitoringOpts ''p=/app'' = Ok [(''p'', [''/app''])]"
  by code_simp

theorem monitor_needs_everything_witness:
  "\<exists>r. snd (monitor_main demo_main (demo_lookup ''p=/app'') (\<lambda>w. False) (\<lambda>st p ds w. (w, None)) (\<lambda>st. []) False) = Inr r"
proof -
  have "snd (health_Set demo_main health_file False) = None"
    by (simp add: health_Set_def demo_main_def)
  moreover have "\<exists>c. me_minio_New demo_main (GetString (demo_lookup ''p=/app'') ''minio-host'') = Inr c"
    by (simp add: demo_main_def)
  moreover have "Connect (me_InClusterConfig demo_main) (me_NewForConfig demo_main) =
      Ok \<lparr>cs_GetDeployment = \<lambda>ns name. Ok \<lparr>dp_CreationTimestamp = [], dp_ContainerImages = [], dp_Annotations = Map.empty\<rparr>\<rparr>"
    by (simp add: demo_main_def Connect_def)
  ultimately show ?thesis
    using monitor_needs_everything [of demo_main "demo_lookup ''p=/app''" "\<lambda>w. False" "\<lambda>st p ds w. (w, None)" "\<lambda>st. []" False]
      demo_target demo_parse demo_options demo_duration by (simp add: GetDataFromDeployment_def Let_def)
qed

text \<open>
  Property C33. What happens to the health file. Suppose that a creation or a removal that reports
  no error has its effect, that a removal that reports one leaves the file, and that checks and senders
  leave the file alone. While the monitor runs, the file is there. When the loop has returned, or a
  panic of \<open>main\<close>'s own goroutine ends the program in its set-up or at the ticker, a removal has been
  tried, and the file is gone unless that failed, which nobody looks at. But every fatal error of the
  set-up after the file's creation leaves it behind, and so does a panic of any other goroutine,
  so that a container that is not monitoring looks healthy to a probe of the file alone.
\<close>

definition removal_tried :: "('w, 'k) main_env \<Rightarrow> ('w \<Rightarrow> bool) \<Rightarrow> 'w \<Rightarrow> bool" where
  "removal_tried env present w' \<longleftrightarrow>
     (\<exists>u e. present u \<and> me_Remove env health_file u = (w', e) \<and> (present w' \<longleftrightarrow> e \<noteq> None))"

theorem health_file_left_by_fatal_error:
  assumes "\<And>w w'. me_Create env health_file w = (w', None) \<Longrightarrow> present w'"
    and "\<And>w. present (fst (me_Close env health_file w)) = present w"
    and "\<And>w w'. me_Remove env health_file w = (w', None) \<Longrightarrow> \<not> present w'"
    and "\<And>w w' err. me_Remove env health_file w = (w', Some err) \<Longrightarrow> present w' = present w"
    and "\<And>st proc dirs w. present (fst (check st proc dirs w)) = present w"
    and "\<And>st s a w. set_up env v = Inr st \<Longrightarrow> s \<in> set (st_senders st) \<Longrightarrow> present (fst (s a w)) = present w"
    and "monitor_main env v ctx_done check events w = (w', outcome)"
  shows "case outcome of
      Inr Running \<Rightarrow> present w'
    | Inr (Returned r) \<Rightarrow> removal_tried env present w'
    | Inr (Died m) \<Rightarrow> present w'
    | Inl (Crashed m) \<Rightarrow> removal_tried env present w'
    | Inl Fatal_Health \<Rightarrow> snd (health_Set env health_file w) \<noteq> None
    | Inl e \<Rightarrow> present w'"
proof -
  let ?h = "health_Set env health_file w"
  have set: "present (fst ?h)" if "snd ?h = None"
  proof -
    from that obtain u where "me_Create env health_file w = (u, None)" "fst ?h = fst (me_Close env health_file u)"
      by (auto simp: health_Set_def split: prod.splits option.splits)
    with assms(1,2) show ?thesis by metis
  qed
  have reset: "removal_tried env present (fst (health_Reset env health_file u))" if "present u" for u
  proof -
    obtain t e where r: "me_Remove env health_file u = (t, e)" by (rule prod.exhaust)
    have "present t \<longleftrightarrow> e \<noteq> None" using assms(3,4) r that by (cases e) auto
    with r that show ?thesis by (auto simp: removal_tried_def health_Reset_def)
  qed
  have loop: "present (fst (execute ctx_done (check st) (st_senders st) (hb_alert env) (events st) u)) = present u"
    if "ready env v = Inr st" for st u
    using assms(5,6) that by (intro execute_keeps) (auto simp: ready_Inr_iff)
  show ?thesis
  proof (cases "snd ?h")
    case (Some err)
    then show ?thesis using assms(7) unfolding main_outcome by (auto split: prod.splits)
  next
    case None
    note there = set [OF None]
    show ?thesis
    proof (cases "ready env v")
      case (Inl e)
      have "outcome = Inl e" "w' = (if \<exists>m. e = Crashed m then fst (health_Reset env health_file (fst ?h)) else fst ?h)"
        using assms(7) None Inl unfolding main_outcome by (auto split: prod.splits)
      with there reset [OF there] set_up_not_health [of env v] Inl show ?thesis by (auto split: ending.splits)
    next
      case (Inr st)
      obtain u r where x: "execute ctx_done (check st) (st_senders st) (hb_alert env) (events st) (fst ?h) = (u, r)"
        by (rule prod.exhaust)
      have "outcome = Inr r" "w' = (if \<exists>e. r = Returned e then fst (health_Reset env health_file u) else u)"
        using assms(7) None Inr x unfolding main_outcome by (auto split: prod.splits)
      moreover have "present u" using loop [OF Inr, of "fst ?h"] x there by simp
      ultimately show ?thesis using reset [of u] by (cases r) auto
    qed
  qed
qed

theorem health_file_left_by_fatal_error_witness:
  "monitor_main demo_main (demo_lookup []) (\<lambda>w. False) (\<lambda>st p ds w. (w, None)) (\<lambda>st. []) False =
     (True, Inl Fatal_Options) \<and>
   monitor_main demo_main (demo_lookup ''p=/app'') (\<lambda>w. False) (\<lambda>st p ds w. (w, None))
     (\<lambda>st. [Goroutine_Panics ''send on closed channel'']) False = (True, Inr (Died ''send on closed channel''))"
proof -
  let ?m = "monitor_main demo_main (demo_lookup []) (\<lambda>w. False) (\<lambda>st p ds w. (w, None)) (\<lambda>st. []) False"
  let ?d = "monitor_main demo_main (demo_lookup ''p=/app'') (\<lambda>w. False) (\<lambda>st p ds w. (w, None))
     (\<lambda>st. [Goroutine_Panics ''send on closed channel'']) False"
  have parse: "ParseMonitoringOpts [] = Fail ErrOptsEmpty" by code_simp
  have up: "set_up demo_main (demo_lookup []) = Inl Fatal_Options"
    using demo_target
    by (simp add: set_up_def demo_no_options parse NewStorage_def NewMinIOClient_def)
      (simp add: demo_main_def Connect_def GetDataFromDeployment_def demo_no_options parse Let_def)
  have "snd ?m = Inl Fatal_Options" using up
    by (simp add: main_outcome ready_def health_Set_def demo_main_def)
  then have m: "?m = (fst ?m, Inl Fatal_Options)" by (metis prod.collapse)
  have one: "id (fst ?m)"
    using health_file_left_by_fatal_error [OF _ _ _ _ _ _ m, of id] up by (simp add: demo_main_def)
  have "\<exists>st. set_up demo_main (demo_lookup ''p=/app'') = Inr st"
    unfolding set_up_possible demo_options using demo_target demo_parse
    by (simp add: demo_main_def Connect_def GetDataFromDeployment_def Let_def)
  then obtain st where st: "set_up demo_main (demo_lookup ''p=/app'') = Inr st" by blast
  then have "ready demo_main (demo_lookup ''p=/app'') = Inr st" using demo_duration by (simp add: ready_Inr_iff)
  moreover have "health_Set demo_main health_file False = (True, None)" by (simp add: health_Set_def demo_main_def)
  ultimately have "snd ?d = Inr (Died ''send on closed channel'')" by (simp add: main_outcome)
  then have d: "?d = (fst ?d, Inr (Died ''send on closed channel''))" by (metis prod.collapse)
  have senders: "fst (s a w) = w" if "set_up demo_main (demo_lookup ''p=/app'') = Inr st" "s \<in> set (st_senders st)" for st s a w
    using that(2) unfolding set_up_senders [OF that(1)]
    by (auto simp: senders_of_def demo_main_def syslog_Send_def splunk_Send_def split: if_splits prod.splits option.splits)
  have two: "id (fst ?d)"
    using health_file_left_by_fatal_error [OF _ _ _ _ _ _ d, of id] senders by (simp add: demo_main_def)
  show ?thesis using m d one two by simp
qed

end
