(* ===== verification/Alarm.thy ===== *)
theory Alarm
  imports Detection Monitor_Start
begin

text \<open>
  The monitor from its start to the deletion of the pod: \<open>main\<close> with the check of
  integritymonitor.go, the senders that the flags ask for, and \<open>RestartPod\<close> of pkg/k8s/k8s.go on
  the data that \<open>InitKubeData\<close> made of the pod's name.
\<close>

lemma set_up_names:
  assumes "set_up env v = Inr st" and "me_getenv env ''POD_NAME'' = pod"
    and "pod = name @ ''-'' @ hash @ ''-'' @ podid" and "CHR ''-'' \<notin> set hash" and "CHR ''-'' \<notin> set podid"
  shows "kd_TargetName (st_kube st) = name" and "kd_PodName (st_kube st) = pod"
    and "dd_NamePod (st_deployment st) = pod"
    and "kd_PodNamespace (st_kube st) = me_getenv env ''POD_NAMESPACE''"
proof -
  from assms(1) have k: "InitKubeData (me_namespaceFile env) (me_getenv env) = Ok (st_kube st)"
    and d: "GetDataFromDeployment (cs_GetDeployment (st_clientset st)) (st_kube st) = Ok (st_deployment st)"
    unfolding set_up_Inr_iff by blast+
  from k assms(2) obtain t where t: "targetName pod = Ok t" and kd: "st_kube st =
      \<lparr>kd_Namespace = (case me_namespaceFile env of Ok bytes \<Rightarrow> bytes | _ \<Rightarrow> []), kd_TargetName = t,
       kd_TargetType = me_getenv env ''DEPLOYMENT_TYPE'', kd_PodName = pod,
       kd_PodNamespace = me_getenv env ''POD_NAMESPACE''\<rparr>"
    by (auto simp: InitKubeData_def bind_result_Ok_iff Let_def split: if_splits)
  show "kd_PodName (st_kube st) = pod" and "kd_PodNamespace (st_kube st) = me_getenv env ''POD_NAMESPACE''"
    and "dd_NamePod (st_deployment st) = pod"
    using GetDataFromDeployment_names [OF d] by (simp_all add: kd)
  show "kd_TargetName (st_kube st) = name" using t target_of_pod [OF assms(4,5)] assms(3) by (simp add: kd)
qed

text \<open>
  Property C4. From a changed file to the deleted pod, through the whole program. Suppose the
  monitor starts: the health file is made, everything is set up, and the pod has the name that a
  deployment gives it. If at its first tick a process with a baseline does not have exactly the
  recorded files and hashes, then an alert about a difference that is there, naming the pod, goes to the
  senders that the flags ask for, Splunk first, and the pod that runs the monitor is deleted in
  its namespace; the monitor goes on. If it has, nothing happens.
\<close>

theorem change_deletes_the_pod:
  assumes "set_up env v = Inr st" and "0 < GetDuration v ''duration-time''"
    and "health_Set env health_file w = (w1, None)" and "\<not> ctx_done w1"
    and "me_getenv env ''POD_NAME'' = pod" and "pod = name @ ''-'' @ hash @ ''-'' @ podid"
    and "CHR ''-'' \<notin> set hash" and "CHR ''-'' \<notin> set podid"
    and "watched m (config_of v) proc dirs w1 pid recorded"
    and "check_outcome m (config_of v) (st_senders st) (RestartPod deletePod (st_kube st))
      (dd_NamePod (st_deployment st)) proc dirs w1 (check st proc dirs w1)"
  shows "kd_TargetName (st_kube st) = name \<and>
    (if set (current m dirs w1 pid) = set recorded
     then monitor_main env v ctx_done check (\<lambda>st. [CheckTick [(proc, dirs)]]) w = (w1, Inr Running)
     else \<exists>now e. error_justified (map_of recorded) (current m dirs w1 pid) e \<and>
       monitor_main env v ctx_done check (\<lambda>st. [CheckTick [(proc, dirs)]]) w =
         (fst (deletePod (me_getenv env ''POD_NAMESPACE'') pod
            (sends (senders_of env v (st_kube st)) (restart_alert now pod proc e) w1)), Inr Running))"
proof -
  note names = set_up_names [OF assms(1,5-8)]
  have main: "monitor_main env v ctx_done check (\<lambda>st. [CheckTick [(proc, dirs)]]) w =
      (fst (check st proc dirs w1), Inr Running)"
    using assms(1-4) by (simp add: monitor_main_def)
  note verdict = watched_verdict [OF assms(9,10), unfolded RestartPod_def set_up_senders [OF assms(1)] names]
  show ?thesis
  proof (cases "set (current m dirs w1 pid) = set recorded")
    case True
    then show ?thesis using verdict names(1) by (simp add: main)
  next
    case False
    with verdict obtain now e where "error_justified (map_of recorded) (current m dirs w1 pid) e"
      "check st proc dirs w1 = (fst (deletePod (me_getenv env ''POD_NAMESPACE'') pod
         (sends (senders_of env v (st_kube st)) (restart_alert now pod proc e) w1)), Some (ErrIntegrity e))"
      by auto
    with False names(1) show ?thesis unfolding main by (metis fst_conv)
  qed
qed

subsection \<open>Witness\<close>

text \<open>A monitor that writes to syslog; its world is whether the pod is there with its health file.\<close>

definition alarm_lookup :: lookup where
  "alarm_lookup = viper_lookup [''monitoring-options'' \<mapsto> FString ''p=/app'', ''syslog-enabled'' \<mapsto> FBool True,
     ''process-image'' \<mapsto> FStringMap [(''p'', ''im:1'')], ''pod-namespace'' \<mapsto> FString ''ns'']
     (config_flags 4 @ minio_flags)"

definition alarm_machine :: "bool machine" where
  "alarm_machine = \<lparr>mc_pidof = \<lambda>w p. Some (pidof_output [7]), mc_lstat = \<lambda>w. demo_lstat, mc_hash = \<lambda>w f. Inr ''00'',
     mc_load = \<lambda>w b n. Ok (the (fst (CalculateAndWriteHashes demo_env demo_snapshot Map.empty) ''o''))\<rparr>"

lemma alarm_config:
  "config_of alarm_lookup = \<lparr>cfg_process_image = map_of [(''p'', ''im:1'')], cfg_pod_namespace = ''ns'',
     cfg_minio_bucket = ''integrity'', cfg_algorithm = ''SHA256'', cfg_count_workers = 4\<rparr>"
  by (simp add: config_of_def alarm_lookup_def viper_lookup_def getter_defs config_flags_def minio_flags_def)

lemma alarm_watched: "watched alarm_machine (config_of alarm_lookup) ''p'' [''/app''] w 7 [(''app/x'', ''ff'')]"
proof -
  have "CheckSumFile (config_of alarm_lookup) ''p'' ''SHA256'' = Ok ''ns/im/1.sha256''"
    unfolding alarm_config by code_simp
  moreover have "running alarm_machine ''p'' [''/app''] w 7"
    using demo_good demo_separate by (auto simp: running_def alarm_machine_def)
  ultimately show ?thesis
    using demo_taken by (simp add: watched_def) (simp add: alarm_machine_def alarm_config)
qed

lemma alarm_current: "current alarm_machine [''/app''] w 7 = [(''app/x'', ''00'')]"
  by (simp add: current_def tree_entries_def dir_entries_def alarm_machine_def dir_node_def
      List.map_filter_simps rel_path_def demo_plain)

lemma alarm_set_up: "\<exists>st. set_up demo_main alarm_lookup = Inr st"
proof -
  have "GetString alarm_lookup ''monitoring-options'' = ''p=/app''"
    by (simp add: alarm_lookup_def viper_lookup_def GetString_def)
  then show ?thesis
    unfolding set_up_possible using demo_target demo_parse
    by (simp add: demo_main_def Connect_def GetDataFromDeployment_def Let_def)
qed

theorem change_deletes_the_pod_witness:
  "\<exists>st check. set_up demo_main alarm_lookup = Inr st \<and>
     monitor_main demo_main alarm_lookup (\<lambda>w. False) check (\<lambda>st. [CheckTick [(''p'', [''/app''])]]) False =
       (False, Inr Running)"
proof -
  obtain st where st: "set_up demo_main alarm_lookup = Inr st" using alarm_set_up by blast
  let ?delete = "\<lambda>ns pod w. (False, None :: go_error option)"
  obtain check where c: "check_outcome alarm_machine (config_of alarm_lookup) (st_senders st)
      (RestartPod ?delete (st_kube st)) (dd_NamePod (st_deployment st)) ''p'' [''/app''] w (check w)" for w
    using watched_outcome_exists [OF alarm_watched, of "st_senders st" "RestartPod ?delete (st_kube st)"
        "dd_NamePod (st_deployment st)"] by metis
  have dur: "0 < GetDuration alarm_lookup ''duration-time''"
    by (simp add: alarm_lookup_def viper_lookup_def GetDuration_def config_flags_def Second_def)
  have health: "health_Set demo_main health_file False = (True, None)"
    by (simp add: health_Set_def demo_main_def)
  have pod: "me_getenv demo_main ''POD_NAME'' = ''app-5d-x2''" by (simp add: demo_main_def)
  let ?main = "monitor_main demo_main alarm_lookup (\<lambda>w. False) (\<lambda>st proc dirs. check) (\<lambda>st. [CheckTick [(''p'', [''/app''])]]) False"
  have "set (current alarm_machine [''/app''] True 7) \<noteq> set [(''app/x'', ''ff'')]" by (simp add: alarm_current)
  with change_deletes_the_pod [where ctx_done = "\<lambda>w. False" and check = "\<lambda>st proc dirs. check" and name = "''app''"
      and hash = "''5d''" and podid = "''x2''", OF st dur health _ pod _ _ _ alarm_watched c]
  have "?main = (False, Inr Running)" by simp
  with st show ?thesis by blast
qed

end
