(* ===== verification/Graceful.thy ===== *)
theory Graceful
  imports Prelude
begin

text \<open>
  The shutdown of the monitor: \<open>Execute\<close> of internal/utils/graceful/graceful.go as a step relation.
  \<open>signal.Notify\<close> puts a signal into the channel \<open>sig\<close>, which has room for one, and drops it when
  the channel is full; a watching goroutine takes it and cancels the context; the deferred
  function of \<open>Execute\<close> stops the notification and closes the channel after \<open>execute\<close> has returned.
\<close>

datatype watcher =
    WWaiting \<comment> \<open>at the receive from \<open>sig\<close>\<close>
  | WCancelling \<comment> \<open>a signal received, before \<open>cancel()\<close>\<close>
  | WGone

datatype executing =
    XRunning \<comment> \<open>in \<open>execute(ctx)\<close>\<close>
  | XStopping \<comment> \<open>at \<open>signal.Stop(sig)\<close>\<close>
  | XClosing \<comment> \<open>at \<open>close(sig)\<close>\<close>
  | XReturned

record graceful =
  gr_sig :: nat \<comment> \<open>signals in the channel\<close>
  gr_notified :: bool
  gr_closed :: bool
  gr_ctx_done :: bool
  gr_watch :: watcher
  gr_exec :: executing
  gr_parent_done :: bool
  gr_signals :: nat \<comment> \<open>signals that came while notified\<close>

definition graceful_start :: graceful where
  "graceful_start = \<lparr>gr_sig = 0, gr_notified = True, gr_closed = False, gr_ctx_done = False,
     gr_watch = WWaiting, gr_exec = XRunning, gr_parent_done = False, gr_signals = 0\<rparr>"

inductive graceful_step :: "graceful \<Rightarrow> graceful \<Rightarrow> bool" where
  watch_signal: "gr_watch s = WWaiting \<Longrightarrow> gr_sig s = Suc n \<Longrightarrow>
    graceful_step s (s\<lparr>gr_sig := n, gr_watch := WCancelling\<rparr>)"
| watch_closed: "gr_watch s = WWaiting \<Longrightarrow> gr_sig s = 0 \<Longrightarrow> gr_closed s \<Longrightarrow>
    graceful_step s (s\<lparr>gr_watch := WGone\<rparr>)"
| watch_cancel: "gr_watch s = WCancelling \<Longrightarrow>
    graceful_step s (s\<lparr>gr_ctx_done := True, gr_watch := WGone\<rparr>)"
| exec_return: "gr_exec s = XRunning \<Longrightarrow> graceful_step s (s\<lparr>gr_exec := XStopping\<rparr>)"
| exec_stop: "gr_exec s = XStopping \<Longrightarrow>
    graceful_step s (s\<lparr>gr_notified := False, gr_exec := XClosing\<rparr>)"
| exec_close: "gr_exec s = XClosing \<Longrightarrow>
    graceful_step s (s\<lparr>gr_closed := True, gr_exec := XReturned\<rparr>)"

text \<open>The environment sends signals and may cancel the parent context.\<close>

inductive graceful_env_step :: "graceful \<Rightarrow> graceful \<Rightarrow> bool" where
  own: "graceful_step s t \<Longrightarrow> graceful_env_step s t"
| signal: "gr_notified s \<Longrightarrow>
    graceful_env_step s (s\<lparr>gr_sig := (if gr_sig s = 0 then 1 else gr_sig s), gr_signals := Suc (gr_signals s)\<rparr>)"
| parent: "graceful_env_step s (s\<lparr>gr_ctx_done := True, gr_parent_done := True\<rparr>)"

inductive_cases graceful_env_stepE: "graceful_env_step s t"

definition graceful_inv :: "graceful \<Rightarrow> bool" where
  "graceful_inv s \<longleftrightarrow>
     gr_sig s \<le> 1 \<and>
     (gr_notified s \<longleftrightarrow> gr_exec s = XRunning \<or> gr_exec s = XStopping) \<and>
     (gr_closed s \<longleftrightarrow> gr_exec s = XReturned) \<and>
     (gr_parent_done s \<longrightarrow> gr_ctx_done s) \<and>
     (case gr_watch s of
        WWaiting \<Rightarrow> gr_signals s = 0 \<and> gr_sig s = 0 \<or> 0 < gr_signals s \<and> gr_sig s = 1
      | WCancelling \<Rightarrow> 0 < gr_signals s
      | WGone \<Rightarrow> gr_ctx_done s \<and> 0 < gr_signals s \<or> gr_closed s \<and> gr_signals s = 0) \<and>
     (gr_ctx_done s \<longrightarrow> gr_parent_done s \<or> gr_watch s = WGone \<and> 0 < gr_signals s)"

lemma graceful_step_inv: "graceful_inv s \<Longrightarrow> graceful_step s t \<Longrightarrow> graceful_inv t"
  by (erule graceful_step.cases) (auto simp: graceful_inv_def split: watcher.splits)

lemma graceful_env_step_inv: "graceful_inv s \<Longrightarrow> graceful_env_step s t \<Longrightarrow> graceful_inv t"
  by (erule graceful_env_stepE, erule (1) graceful_step_inv) (auto simp: graceful_inv_def split: watcher.splits)

lemma graceful_start_inv: "graceful_inv graceful_start"
  by (simp add: graceful_inv_def graceful_start_def)

interpretation shutdown: step_invariant "\<lambda>s. s = graceful_start" graceful_env_step graceful_inv
  by unfold_locales (auto intro: graceful_start_inv graceful_env_step_inv)

subsection \<open>It ends\<close>

fun watch_work :: "watcher \<Rightarrow> nat" where
  "watch_work WWaiting = 2"
| "watch_work WCancelling = 1"
| "watch_work WGone = 0"

fun exec_work :: "executing \<Rightarrow> nat" where
  "exec_work XRunning = 3"
| "exec_work XStopping = 2"
| "exec_work XClosing = 1"
| "exec_work XReturned = 0"

definition graceful_work :: "graceful \<Rightarrow> nat" where
  "graceful_work s = watch_work (gr_watch s) + exec_work (gr_exec s)"

definition graceful_over :: "graceful \<Rightarrow> bool" where
  "graceful_over s \<longleftrightarrow> gr_watch s = WGone \<and> gr_exec s = XReturned"

lemma graceful_step_work: "graceful_step s t \<Longrightarrow> graceful_work t < graceful_work s"
  by (erule graceful_step.cases) (auto simp: graceful_work_def)

lemma graceful_progress: "graceful_inv s \<Longrightarrow> \<not> graceful_over s \<Longrightarrow> \<exists>t. graceful_step s t"
  by (cases "gr_exec s"; cases "gr_watch s"; cases "gr_sig s")
    (auto simp: graceful_inv_def graceful_over_def intro: graceful_step.intros)

interpretation shutdown_ends: bounded_steps "\<lambda>s. s = graceful_start" graceful_step graceful_inv
    graceful_work graceful_over
  by unfold_locales (auto intro: graceful_start_inv graceful_step_inv graceful_step_work graceful_progress)

subsection \<open>Properties\<close>

text \<open>
  No signal is lost and none is invented: once \<open>Execute\<close> has returned and its
  goroutine has ended, which they do unless \<open>execute\<close> goes on, the context is cancelled exactly if
  a signal came or the parent was cancelled. In every state before, a signal that came has
  cancelled the context, or the goroutine can do it in at most two steps of its own, whatever
  \<open>execute\<close> does. Signals after the first have no effect beyond being taken.
\<close>

lemma signal_cancels_context:
  assumes "reach (\<lambda>s. s = graceful_start) graceful_env_step s"
  shows "(gr_ctx_done s \<longrightarrow> 0 < gr_signals s \<or> gr_parent_done s) \<and>
    (0 < gr_signals s \<longrightarrow> (\<exists>n t. n \<le> 2 \<and> run graceful_step s n t \<and> gr_ctx_done t \<and> gr_exec t = gr_exec s)) \<and>
    (graceful_over s \<longrightarrow> (gr_ctx_done s \<longleftrightarrow> 0 < gr_signals s \<or> gr_parent_done s)) \<and>
    (\<exists>n t. n \<le> graceful_work s \<and> run graceful_step s n t \<and> graceful_over t)"
proof (intro conjI impI)
  have inv: "graceful_inv s" using assms by (rule shutdown.reach_inv)
  then show "gr_ctx_done s \<Longrightarrow> 0 < gr_signals s \<or> gr_parent_done s"
    and "graceful_over s \<Longrightarrow> gr_ctx_done s \<longleftrightarrow> 0 < gr_signals s \<or> gr_parent_done s"
    by (auto simp: graceful_inv_def graceful_over_def)
  from shutdown_ends.reaches_final [OF inv] obtain n t where t: "run graceful_step s n t" "graceful_over t"
    by blast
  then show "\<exists>n t. n \<le> graceful_work s \<and> run graceful_step s n t \<and> graceful_over t"
    using shutdown_ends.run_bounded [OF t(1) inv] by (meson add_leD1)
  assume sig: "0 < gr_signals s"
  have cancel: "run graceful_step u 1 (u\<lparr>gr_ctx_done := True, gr_watch := WGone\<rparr>)" if "gr_watch u = WCancelling" for u
    using shutdown_ends.run_snoc_front [OF run_0 watch_cancel [OF that]] by simp
  show "\<exists>n t. n \<le> 2 \<and> run graceful_step s n t \<and> gr_ctx_done t \<and> gr_exec t = gr_exec s"
  proof (cases "gr_watch s")
    case WWaiting
    with inv sig have "gr_sig s = Suc 0" by (simp add: graceful_inv_def)
    from watch_signal [OF WWaiting this] have
      "graceful_step s (s\<lparr>gr_sig := 0, gr_watch := WCancelling\<rparr>)" .
    with cancel [of "s\<lparr>gr_sig := 0, gr_watch := WCancelling\<rparr>"] show ?thesis
      by (intro exI [of _ "Suc 1"] exI) (auto intro: shutdown_ends.run_snoc_front)
  next
    case WCancelling
    with cancel [OF this] show ?thesis
      by (intro exI [of _ 1] exI [of _ "s\<lparr>gr_ctx_done := True, gr_watch := WGone\<rparr>"]) simp
  next
    case WGone
    with inv sig have "gr_ctx_done s" by (auto simp: graceful_inv_def)
    then show ?thesis by (intro exI [of _ 0] exI [of _ s]) (simp add: run_0)
  qed
qed

end
