(* ===== verification/Shutdown.thy ===== *)
theory Shutdown
  imports Graceful Monitor_Start
begin

text \<open>
  The running monitor as one step relation: the loop of \<open>runCheckIntegrity\<close> and \<open>main\<close>'s end
  (cmd/k8s-integrity-sum/main.go), the goroutine of \<open>Heartbeat\<close> (pkg/alerts/alerts.go), the watching
  goroutine and the deferred function of \<open>Execute\<close> (internal/utils/graceful), in any interleaving.
  What a check does is a function of the world, which holds whatever it depends on; no goroutine
  panics here, that is an event of \<open>execute\<close>. A signal that comes after \<open>signal.Stop\<close>
  has Go's default effect, the end of the process, and is no step either. The context
  is the one that the watcher cancels. Main_Loop and \<open>execute\<close> of Monitor_Start are the loop alone,
  event by event; the invariant below relates the two.
\<close>

subsection \<open>The steps\<close>

datatype looping =
    LTick \<comment> \<open>at \<open>range t.C\<close>\<close>
  | LNext "(string \<times> string list) list" \<comment> \<open>at \<open>range optsMap\<close>, with what is left of it\<close>
  | LCheck string "string list" "(string \<times> string list) list" \<comment> \<open>in \<open>CheckIntegrity\<close>\<close>
  | LReturned "go_error option"

record 'w process =
  pr_graceful :: graceful
  pr_loop :: looping
  pr_tick :: bool \<comment> \<open>the ticker's channel holds a tick; it has room for one\<close>
  pr_beating :: bool \<comment> \<open>the goroutine of \<open>Heartbeat\<close> runs\<close>
  pr_beat :: "int option" \<comment> \<open>a tick of its ticker\<close>
  pr_world :: 'w
  pr_events :: "run_event list" \<comment> \<open>the checks and heartbeats made\<close>
  pr_ended :: bool \<comment> \<open>\<open>main\<close> has returned\<close>

definition process_start :: "'w \<Rightarrow> 'w process" where
  "process_start w = \<lparr>pr_graceful = graceful_start, pr_loop = LTick, pr_tick = False, pr_beating = True,
     pr_beat = None, pr_world = w, pr_events = [], pr_ended = False\<rparr>"

text \<open>
  \<open>reset\<close> is the deferred removal of the health file. A tick comes with some order of the map; each
  iteration looks at the context before its check. When \<open>main\<close> returns, every goroutine ends.
\<close>

inductive process_step ::
    "(string \<times> string list) list \<Rightarrow> (string \<Rightarrow> string list \<Rightarrow> 'w \<Rightarrow> 'w \<times> go_error option) \<Rightarrow>
     'w sender list \<Rightarrow> alert \<Rightarrow> ('w \<Rightarrow> 'w) \<Rightarrow> 'w process \<Rightarrow> 'w process \<Rightarrow> bool"
  for opts check registry hbAlert reset where
  take_tick: "\<not> pr_ended s \<Longrightarrow> pr_loop s = LTick \<Longrightarrow> pr_tick s \<Longrightarrow> mset order = mset opts \<Longrightarrow>
    process_step opts check registry hbAlert reset s (s\<lparr>pr_loop := LNext order, pr_tick := False\<rparr>)"
| tick_over: "\<not> pr_ended s \<Longrightarrow> pr_loop s = LNext [] \<Longrightarrow>
    process_step opts check registry hbAlert reset s (s\<lparr>pr_loop := LTick\<rparr>)"
| see_done: "\<not> pr_ended s \<Longrightarrow> pr_loop s = LNext (p # ps) \<Longrightarrow> gr_ctx_done (pr_graceful s) \<Longrightarrow>
    process_step opts check registry hbAlert reset s (s\<lparr>pr_loop := LReturned (Some ErrCanceled)\<rparr>)"
| start_check: "\<not> pr_ended s \<Longrightarrow> pr_loop s = LNext ((proc, paths) # ps) \<Longrightarrow>
    \<not> gr_ctx_done (pr_graceful s) \<Longrightarrow>
    process_step opts check registry hbAlert reset s (s\<lparr>pr_loop := LCheck proc paths ps\<rparr>)"
| end_check: "\<not> pr_ended s \<Longrightarrow> pr_loop s = LCheck proc paths ps \<Longrightarrow>
    process_step opts check registry hbAlert reset s
      (s\<lparr>pr_loop := LNext ps, pr_world := fst (check proc paths (pr_world s)),
         pr_events := pr_events s @ [CheckTick [(proc, paths)]]\<rparr>)"
| beat: "\<not> pr_ended s \<Longrightarrow> pr_beating s \<Longrightarrow> pr_beat s = Some now \<Longrightarrow>
    process_step opts check registry hbAlert reset s
      (s\<lparr>pr_beat := None, pr_world := heartbeat registry hbAlert [Tick now] (pr_world s),
         pr_events := pr_events s @ [Beat now]\<rparr>)"
| beat_done: "\<not> pr_ended s \<Longrightarrow> pr_beating s \<Longrightarrow> gr_ctx_done (pr_graceful s) \<Longrightarrow>
    process_step opts check registry hbAlert reset s (s\<lparr>pr_beating := False\<rparr>)"
| shutting_down: "\<not> pr_ended s \<Longrightarrow> graceful_step (pr_graceful s) g \<Longrightarrow>
    gr_exec (pr_graceful s) \<noteq> XRunning \<or> gr_exec g = XRunning \<Longrightarrow>
    process_step opts check registry hbAlert reset s (s\<lparr>pr_graceful := g\<rparr>)"
| executed: "\<not> pr_ended s \<Longrightarrow> pr_loop s = LReturned r \<Longrightarrow> gr_exec (pr_graceful s) = XRunning \<Longrightarrow>
    process_step opts check registry hbAlert reset s
      (s\<lparr>pr_graceful := (pr_graceful s)\<lparr>gr_exec := XStopping\<rparr>\<rparr>)"
| main_returns: "\<not> pr_ended s \<Longrightarrow> gr_exec (pr_graceful s) = XReturned \<Longrightarrow>
    process_step opts check registry hbAlert reset s
      (s\<lparr>pr_ended := True, pr_world := reset (pr_world s)\<rparr>)"

text \<open>The environment lets the tickers tick and sends signals.\<close>

inductive process_env_step ::
    "(string \<times> string list) list \<Rightarrow> (string \<Rightarrow> string list \<Rightarrow> 'w \<Rightarrow> 'w \<times> go_error option) \<Rightarrow>
     'w sender list \<Rightarrow> alert \<Rightarrow> ('w \<Rightarrow> 'w) \<Rightarrow> 'w process \<Rightarrow> 'w process \<Rightarrow> bool"
  for opts check registry hbAlert reset where
  own_step: "process_step opts check registry hbAlert reset s t \<Longrightarrow>
    process_env_step opts check registry hbAlert reset s t"
| tick_comes: "process_env_step opts check registry hbAlert reset s (s\<lparr>pr_tick := True\<rparr>)"
| beat_comes: "pr_beat s = None \<Longrightarrow>
    process_env_step opts check registry hbAlert reset s (s\<lparr>pr_beat := Some now\<rparr>)"
| signal_comes: "\<not> pr_ended s \<Longrightarrow> gr_notified (pr_graceful s) \<Longrightarrow>
    process_env_step opts check registry hbAlert reset s (s\<lparr>pr_graceful := (pr_graceful s)
      \<lparr>gr_sig := (if gr_sig (pr_graceful s) = 0 then 1 else gr_sig (pr_graceful s)),
       gr_signals := Suc (gr_signals (pr_graceful s))\<rparr>\<rparr>)"

subsection \<open>What the events come to\<close>

fun made_checks :: "run_event list \<Rightarrow> (string \<times> string list) list" where
  "made_checks [] = []"
| "made_checks (CheckTick ps # es) = ps @ made_checks es"
| "made_checks (Beat now # es) = made_checks es"
| "made_checks (Goroutine_Panics m # es) = made_checks es"

lemma made_checks_append [simp]: "made_checks (es @ fs) = made_checks es @ made_checks fs"
  by (induction es rule: made_checks.induct) simp_all

lemma execute_append:
  "execute ctx_done check registry hbAlert es w = (v, Running) \<Longrightarrow>
   execute ctx_done check registry hbAlert (es @ fs) w = execute ctx_done check registry hbAlert fs v"
  by (induction ctx_done check registry hbAlert es w rule: execute.induct) (auto split: prod.splits option.splits)

text \<open>What is left of the tick that is being worked on.\<close>

fun tick_rest :: "looping \<Rightarrow> (string \<times> string list) list \<Rightarrow> bool" where
  "tick_rest LTick rest = (rest = [])"
| "tick_rest (LNext ps) rest = (rest = ps)"
| "tick_rest (LCheck proc paths ps) rest = (rest = (proc, paths) # ps)"
| "tick_rest (LReturned r) rest = (r = Some ErrCanceled)"

definition once_per_tick ::
    "(string \<times> string list) list \<Rightarrow> run_event list \<Rightarrow> (string \<times> string list) list \<Rightarrow> bool" where
  "once_per_tick opts es rest \<longleftrightarrow>
     (\<exists>ticks. list_all (\<lambda>t. mset t = mset opts) ticks \<and> concat ticks = made_checks es @ rest)"

lemma once_per_tick_start: "once_per_tick opts [] []"
  unfolding once_per_tick_def by (intro exI [of _ "[]"]) simp

lemma once_per_tick_next:
  "once_per_tick opts es [] \<Longrightarrow> mset order = mset opts \<Longrightarrow> once_per_tick opts es order"
  unfolding once_per_tick_def
  by (elim exE conjE, rule_tac x = "ticks @ [order]" in exI) simp

lemma once_per_tick_check:
  "once_per_tick opts es (p # ps) \<Longrightarrow> once_per_tick opts (es @ [CheckTick [p]]) ps"
  by (simp add: once_per_tick_def)

lemma once_per_tick_beat [simp]: "once_per_tick opts (es @ [Beat now]) ps = once_per_tick opts es ps"
  by (simp add: once_per_tick_def)

subsection \<open>The invariant\<close>

text \<open>First the control, then what has been made of the ticks and of the world.\<close>

definition control_inv :: "'w process \<Rightarrow> bool" where
  "control_inv s \<longleftrightarrow> graceful_inv (pr_graceful s) \<and> \<not> gr_parent_done (pr_graceful s) \<and>
     (gr_exec (pr_graceful s) \<noteq> XRunning \<longrightarrow> (\<exists>r. pr_loop s = LReturned r)) \<and>
     (\<forall>r. pr_loop s = LReturned r \<longrightarrow> gr_ctx_done (pr_graceful s)) \<and>
     (\<not> pr_beating s \<longrightarrow> gr_ctx_done (pr_graceful s)) \<and>
     (pr_ended s \<longrightarrow> gr_exec (pr_graceful s) = XReturned)"

definition work_inv ::
    "(string \<times> string list) list \<Rightarrow> (string \<Rightarrow> string list \<Rightarrow> 'w \<Rightarrow> 'w \<times> go_error option) \<Rightarrow>
     'w sender list \<Rightarrow> alert \<Rightarrow> ('w \<Rightarrow> 'w) \<Rightarrow> 'w \<Rightarrow> 'w process \<Rightarrow> bool" where
  "work_inv opts check registry hbAlert reset w s \<longleftrightarrow>
     (\<exists>rest. tick_rest (pr_loop s) rest \<and> once_per_tick opts (pr_events s) rest) \<and>
     (\<exists>v. execute (\<lambda>w. False) check registry hbAlert (pr_events s) w = (v, Running) \<and>
        pr_world s = (if pr_ended s then reset v else v))"

lemma graceful_step_parent: "graceful_step g h \<Longrightarrow> gr_parent_done h = gr_parent_done g"
  by (erule graceful_step.cases) auto

lemma control_step:
  assumes "process_step opts check registry hbAlert reset s t" and "control_inv s"
  shows "control_inv t"
  using assms
proof (cases rule: process_step.cases)
  case (shutting_down g)
  have "gr_ctx_done (pr_graceful s) \<longrightarrow> gr_ctx_done g" "gr_exec (pr_graceful s) \<noteq> XRunning \<longrightarrow> gr_exec g \<noteq> XRunning"
    using shutting_down(3) by (auto elim: graceful_step.cases)
  with shutting_down assms(2) graceful_step_inv [OF _ shutting_down(3)] graceful_step_parent [OF shutting_down(3)]
  show ?thesis by (auto simp: control_inv_def)
next
  case (executed r)
  with assms(2) graceful_step_inv [OF _ exec_return [of "pr_graceful s"]] show ?thesis
    by (auto simp: control_inv_def)
qed (auto simp: control_inv_def)

lemma control_env_step:
  assumes "process_env_step opts check registry hbAlert reset s t" and "control_inv s"
  shows "control_inv t"
  using assms
proof (cases rule: process_env_step.cases)
  case own_step
  then show ?thesis using control_step assms(2) by blast
next
  case signal_comes
  with assms(2) graceful_env_step_inv [OF _ signal [of "pr_graceful s"]] show ?thesis
    by (auto simp: control_inv_def)
qed (auto simp: control_inv_def)

lemma work_step:
  assumes "process_step opts check registry hbAlert reset s t" and "work_inv opts check registry hbAlert reset w s"
  shows "work_inv opts check registry hbAlert reset w t"
  using assms
proof (cases rule: process_step.cases)
  case (end_check proc paths ps)
  then show ?thesis using assms(2)
    by (auto simp: work_inv_def execute_append once_per_tick_check)
qed (auto simp: work_inv_def execute_append intro: once_per_tick_next)

lemma work_env_step:
  assumes "process_env_step opts check registry hbAlert reset s t" and "work_inv opts check registry hbAlert reset w s"
  shows "work_inv opts check registry hbAlert reset w t"
  using assms
proof (cases rule: process_env_step.cases)
  case own_step
  then show ?thesis using assms(2) by (rule work_step)
qed (auto simp: work_inv_def)

lemma process_start_inv: "control_inv (process_start w)" "work_inv opts check registry hbAlert reset w (process_start w)"
  using graceful_start_inv
  by (simp_all add: control_inv_def work_inv_def process_start_def graceful_start_def once_per_tick_start)

interpretation process_runs: step_invariant "\<lambda>s. s = process_start w"
    "process_env_step opts check registry hbAlert reset"
    "\<lambda>s. control_inv s \<and> work_inv opts check registry hbAlert reset w s" for w opts check registry hbAlert reset
  by unfold_locales (simp add: process_start_inv, metis control_env_step work_env_step)

subsection \<open>After the context is done\<close>

fun in_check :: "looping \<Rightarrow> nat" where
  "in_check (LCheck proc paths ps) = 1"
| "in_check _ = 0"

lemma no_check_step:
  assumes "process_env_step opts check registry hbAlert reset s t" and "gr_ctx_done (pr_graceful s)"
  shows "gr_ctx_done (pr_graceful t) \<and> (\<exists>cs. made_checks (pr_events t) = made_checks (pr_events s) @ cs \<and>
    length cs + in_check (pr_loop t) \<le> in_check (pr_loop s))"
  using assms
proof (cases rule: process_env_step.cases)
  case own_step
  then show ?thesis using assms(2)
    by (cases rule: process_step.cases) (auto elim: graceful_step.cases)
qed auto

lemma no_new_checks:
  assumes "reach (\<lambda>u. u = s) (process_env_step opts check registry hbAlert reset) t" and "gr_ctx_done (pr_graceful s)"
  shows "gr_ctx_done (pr_graceful t) \<and> (\<exists>cs. made_checks (pr_events t) = made_checks (pr_events s) @ cs \<and>
    length cs + in_check (pr_loop t) \<le> in_check (pr_loop s))"
  using assms
proof (induction rule: reach.induct)
  case (reach_step t u)
  then obtain cs where t: "gr_ctx_done (pr_graceful t)" "made_checks (pr_events t) = made_checks (pr_events s) @ cs"
    "length cs + in_check (pr_loop t) \<le> in_check (pr_loop s)" by blast
  from no_check_step [OF reach_step(2) t(1)] obtain ds where
    "gr_ctx_done (pr_graceful u)" "made_checks (pr_events u) = made_checks (pr_events t) @ ds"
    "length ds + in_check (pr_loop u) \<le> in_check (pr_loop t)" by blast
  with t show ?case by (intro conjI exI [of _ "cs @ ds"]) auto
qed auto

lemma signal_came: "control_inv s \<Longrightarrow> gr_ctx_done (pr_graceful s) \<Longrightarrow> 0 < gr_signals (pr_graceful s)"
  by (auto simp: control_inv_def graceful_inv_def)

subsection \<open>Its own steps end\<close>

fun loop_work :: "looping \<Rightarrow> nat" where
  "loop_work LTick = 1"
| "loop_work (LNext ps) = 2 * length ps + 2"
| "loop_work (LCheck proc paths ps) = 2 * length ps + 3"
| "loop_work (LReturned r) = 0"

definition process_work :: "(string \<times> string list) list \<Rightarrow> 'w process \<Rightarrow> nat" where
  "process_work opts s = loop_work (pr_loop s) + (if pr_tick s then 2 * length opts + 2 else 0) +
     (if pr_beating s then 1 else 0) + (if pr_beat s = None then 0 else 1) +
     graceful_work (pr_graceful s) + (if pr_ended s then 0 else 1)"

definition waiting :: "'w process \<Rightarrow> bool" where
  "waiting s \<longleftrightarrow> \<not> pr_ended s \<and> pr_loop s = LTick \<and> \<not> pr_tick s"

lemma process_step_work:
  assumes "process_step opts check registry hbAlert reset s t"
  shows "process_work opts t < process_work opts s"
  using assms
proof (cases rule: process_step.cases)
  case (take_tick order)
  then have "length order = length opts" by (metis size_mset)
  with take_tick show ?thesis by (simp add: process_work_def)
next
  case (shutting_down g)
  then show ?thesis using graceful_step_work by (fastforce simp: process_work_def)
qed (simp_all add: process_work_def graceful_work_def)

lemma process_progress:
  assumes "control_inv s" and "\<not> (pr_ended s \<or> waiting s)"
  shows "\<exists>t. process_step opts check registry hbAlert reset s t"
proof (cases "pr_loop s")
  case LTick
  then show ?thesis using assms(2) by (auto simp: waiting_def intro: take_tick [where order = opts])
next
  case (LNext ps)
  then show ?thesis using assms(2) by (cases ps) (auto intro: tick_over see_done start_check)
next
  case LCheck
  then show ?thesis using assms(2) by (auto intro: end_check)
next
  case (LReturned r)
  show ?thesis
  proof (cases "gr_exec (pr_graceful s)")
    case XRunning
    then show ?thesis using assms(2) LReturned by (auto intro: executed)
  next
    case XStopping
    then show ?thesis using assms(2) shutting_down [OF _ exec_stop [OF XStopping], of opts check registry hbAlert reset]
      by auto
  next
    case XClosing
    then show ?thesis using assms(2) shutting_down [OF _ exec_close [OF XClosing], of opts check registry hbAlert reset]
      by auto
  next
    case XReturned
    then show ?thesis using assms(2) by (auto intro: main_returns)
  qed
qed

interpretation process_ends: bounded_steps "\<lambda>s. s = process_start w"
    "process_step opts check registry hbAlert reset" control_inv "process_work opts"
    "\<lambda>s. pr_ended s \<or> waiting s" for w opts check registry hbAlert reset
  by unfold_locales (auto simp: process_start_inv intro: control_step process_step_work process_progress)

text \<open>A process that no step of its own changes has seen every signal.\<close>

lemma stuck_saw_signal:
  assumes inv: "control_inv t" and "0 < gr_signals (pr_graceful t)" and "\<not> pr_ended t"
    and stuck: "\<And>u. \<not> process_step opts check registry hbAlert reset t u"
  shows "gr_ctx_done (pr_graceful t)"
proof -
  have g: "graceful_inv (pr_graceful t)" using inv by (simp add: control_inv_def)
  have no: "\<not> graceful_step (pr_graceful t) h" if "gr_exec h = gr_exec (pr_graceful t)" for h
    using stuck shutting_down [OF assms(3), of h] that by metis
  have "gr_watch (pr_graceful t) = WGone"
  proof (cases "gr_watch (pr_graceful t)")
    case WWaiting
    with g assms(2) have "gr_sig (pr_graceful t) = Suc 0" by (simp add: graceful_inv_def)
    from watch_signal [OF WWaiting this] no show ?thesis by fastforce
  next
    case WCancelling
    from watch_cancel [OF this] no show ?thesis by fastforce
  qed
  with g assms(2) show ?thesis by (auto simp: graceful_inv_def)
qed

lemma run_keeps:
  assumes "run step s n t" and "P s" and "\<And>u v. step u v \<Longrightarrow> P u \<Longrightarrow> P v"
  shows "P t"
  using assms by (induction rule: run.induct) blast+

lemma signals_kept: "process_step opts check registry hbAlert reset s t \<Longrightarrow>
    gr_signals (pr_graceful t) = gr_signals (pr_graceful s)"
  by (erule process_step.cases) (auto elim: graceful_step.cases)

text \<open>With a tick at hand and a cancelled context, the loop is bound to return.\<close>

definition returning :: "'w process \<Rightarrow> bool" where
  "returning s \<longleftrightarrow> gr_ctx_done (pr_graceful s) \<and>
     (case pr_loop s of LTick \<Rightarrow> pr_tick s | LNext ps \<Rightarrow> ps \<noteq> [] | LCheck proc paths ps \<Rightarrow> False | LReturned r \<Rightarrow> True)"

lemma returning_step:
  assumes "process_step opts check registry hbAlert reset s t" and "returning s" and "opts \<noteq> []"
  shows "returning t"
  using assms
proof (cases rule: process_step.cases)
  case (take_tick order)
  then have "order \<noteq> []" using assms(3) by auto
  with take_tick assms(2) show ?thesis by (simp add: returning_def)
next
  case (shutting_down g)
  then have "gr_ctx_done (pr_graceful s) \<Longrightarrow> gr_ctx_done g" by (auto elim: graceful_step.cases)
  with shutting_down assms(2) show ?thesis by (simp add: returning_def split: looping.splits)
qed (auto simp: returning_def split: looping.splits)

lemma waiting_step:
  assumes "process_step opts check registry hbAlert reset s t" and "waiting s \<and> control_inv s"
  shows "waiting t \<and> control_inv t"
  using control_step [OF assms(1)] assms
  by (auto simp: waiting_def control_inv_def elim: process_step.cases)

subsection \<open>Properties\<close>

text \<open>
  Property C7. The monitor ends for a signal and for nothing else, and does its work until then.
  In every interleaving of its goroutines: whatever checks return, each process is checked once
  per tick; the world is what these checks and the heartbeats made of it, in their order, as
  the sequential loop makes it, with the removal of the health file as the last thing that
  happens; the loop returns only the context's error, and only after a signal. Once the context is
  cancelled no check starts: at most the one that is under way is finished.
\<close>

theorem monitor_works_until_signal:
  assumes "reach (\<lambda>s. s = process_start w) (process_env_step opts check registry hbAlert reset) s"
  shows "(\<exists>ticks rest. list_all (\<lambda>t. mset t = mset opts) ticks \<and> concat ticks = made_checks (pr_events s) @ rest) \<and>
    (\<exists>v. execute (\<lambda>w. False) check registry hbAlert (pr_events s) w = (v, Running) \<and>
       pr_world s = (if pr_ended s then reset v else v)) \<and>
    (\<forall>r. pr_loop s = LReturned r \<longrightarrow> r = Some ErrCanceled \<and> 0 < gr_signals (pr_graceful s)) \<and>
    (pr_ended s \<longrightarrow> (\<exists>r. pr_loop s = LReturned r)) \<and>
    (gr_ctx_done (pr_graceful s) \<longrightarrow>
       (\<forall>t. reach (\<lambda>u. u = s) (process_env_step opts check registry hbAlert reset) t \<longrightarrow>
          (\<exists>cs. made_checks (pr_events t) = made_checks (pr_events s) @ cs \<and> length cs \<le> in_check (pr_loop s))))"
proof -
  have c: "control_inv s" and k: "work_inv opts check registry hbAlert reset w s"
    using process_runs.reach_inv [OF assms] by simp_all
  from k obtain rest where r: "tick_rest (pr_loop s) rest" "once_per_tick opts (pr_events s) rest"
    unfolding work_inv_def by blast
  then have "\<exists>ticks rest. list_all (\<lambda>t. mset t = mset opts) ticks \<and> concat ticks = made_checks (pr_events s) @ rest"
    unfolding once_per_tick_def by blast
  moreover have "\<forall>r. pr_loop s = LReturned r \<longrightarrow> r = Some ErrCanceled \<and> 0 < gr_signals (pr_graceful s)"
    using r(1) signal_came [OF c] c by (auto simp: control_inv_def)
  moreover have "pr_ended s \<longrightarrow> (\<exists>r. pr_loop s = LReturned r)" using c by (auto simp: control_inv_def)
  moreover have "\<exists>cs. made_checks (pr_events t) = made_checks (pr_events s) @ cs \<and> length cs \<le> in_check (pr_loop s)"
    if "gr_ctx_done (pr_graceful s)" "reach (\<lambda>u. u = s) (process_env_step opts check registry hbAlert reset) t" for t
    using no_new_checks [OF that(2,1)] by fastforce
  ultimately show ?thesis using k unfolding work_inv_def by blast
qed

text \<open>
  Property C8. A signal ends a monitor with accepted options, but not before the next tick. After a signal, a run of the
  monitor's own steps is bounded, and where it can go no further the process has ended, or it waits for a
  tick with its context cancelled. While it waits, no step of its own ends it, so that a shutdown
  can take a whole period of the ticker; when a tick has come, every run of its own steps that goes
  on as long as it can ends it.
\<close>

theorem signal_ends_monitor_at_tick:
  assumes "reach (\<lambda>s. s = process_start w) (process_env_step opts check registry hbAlert reset) s"
    and parsed: "ParseMonitoringOpts text = Ok opts" and "0 < gr_signals (pr_graceful s)"
  shows "(\<forall>n t. run (process_step opts check registry hbAlert reset) s n t \<longrightarrow> n \<le> process_work opts s \<and>
       ((\<nexists>u. process_step opts check registry hbAlert reset t u) \<longrightarrow>
          pr_ended t \<or> waiting t \<and> gr_ctx_done (pr_graceful t))) \<and>
    (waiting s \<longrightarrow> (\<forall>n t. run (process_step opts check registry hbAlert reset) s n t \<longrightarrow> waiting t)) \<and>
    (waiting s \<longrightarrow> gr_ctx_done (pr_graceful s) \<longrightarrow>
       (\<forall>n t. run (process_step opts check registry hbAlert reset) (s\<lparr>pr_tick := True\<rparr>) n t \<longrightarrow>
          n \<le> process_work opts (s\<lparr>pr_tick := True\<rparr>) \<and>
          ((\<nexists>u. process_step opts check registry hbAlert reset t u) \<longrightarrow> pr_ended t)))"
proof -
  let ?step = "process_step opts check registry hbAlert reset"
  have c: "control_inv s" using process_runs.reach_inv [OF assms(1)] by simp
  have bounded: "n \<le> process_work opts u" if "run ?step u n t" "control_inv u" for u n t
    using process_ends.run_bounded [OF that] by simp
  have ends: "pr_ended t \<or> waiting t" if "run ?step u n t" "control_inv u" "\<nexists>v. ?step t v" for u n t
    using process_progress [of t opts check registry hbAlert reset] process_ends.run_inv [OF that(1,2)] that(3) by blast
  have "gr_ctx_done (pr_graceful t)" if r: "run ?step s n t" and "waiting t" "\<nexists>u. ?step t u" for n t
  proof (rule stuck_saw_signal)
    show "control_inv t" using process_ends.run_inv [OF r c] .
    show "0 < gr_signals (pr_graceful t)"
      by (rule run_keeps [where P = "\<lambda>u. 0 < gr_signals (pr_graceful u)", OF r assms(3)]) (simp add: signals_kept)
  qed (use that in \<open>auto simp: waiting_def\<close>)
  moreover have "waiting t" if "waiting s" "run ?step s n t" for n t
    using run_keeps [where P = "\<lambda>u. waiting u \<and> control_inv u", OF that(2)] that(1) c waiting_step by blast
  moreover have "n \<le> process_work opts (s\<lparr>pr_tick := True\<rparr>) \<and> ((\<nexists>u. ?step t u) \<longrightarrow> pr_ended t)"
    if w: "waiting s" and d: "gr_ctx_done (pr_graceful s)" and r: "run ?step (s\<lparr>pr_tick := True\<rparr>) n t" for n t
  proof -
    have c': "control_inv (s\<lparr>pr_tick := True\<rparr>)" using c by (simp add: control_inv_def)
    have "returning t"
    proof (rule run_keeps [where P = returning, OF r])
      show "returning (s\<lparr>pr_tick := True\<rparr>)" using w d by (simp add: waiting_def returning_def)
    qed (use options_nonempty [OF parsed] returning_step in blast)
    then have "\<not> waiting t" by (auto simp: waiting_def returning_def)
    with bounded [OF r c'] ends [OF r c'] show ?thesis by blast
  qed
  ultimately show ?thesis using bounded [OF _ c] ends [OF _ c] by blast
qed

subsection \<open>Witnesses\<close>

abbreviation demo_opts :: "(string \<times> string list) list" where
  "demo_opts \<equiv> [(''p'', [''/app''])]"

definition demo_check :: "string \<Rightarrow> string list \<Rightarrow> string list \<Rightarrow> string list \<times> go_error option" where
  "demo_check proc paths w = (proc # w, Some ErrCanceled)"

abbreviation demo_alert :: alert where
  "demo_alert \<equiv> alert_New 0 [] [] [] []"

abbreviation demo_reset :: "string list \<Rightarrow> string list" where
  "demo_reset \<equiv> \<lambda>w. ''reset'' # w"

abbreviation demo_step :: "string list process \<Rightarrow> string list process \<Rightarrow> bool" where
  "demo_step \<equiv> process_step demo_opts demo_check [] demo_alert demo_reset"

abbreviation demo_env_step :: "string list process \<Rightarrow> string list process \<Rightarrow> bool" where
  "demo_env_step \<equiv> process_env_step demo_opts demo_check [] demo_alert demo_reset"

definition demo_checking :: "string list process" where
  "demo_checking = (process_start [])\<lparr>pr_loop := LCheck ''p'' [''/app''] []\<rparr>"

lemma demo_checking_reached: "reach (\<lambda>s. s = process_start []) demo_env_step demo_checking"
proof -
  let ?s = "process_start [] :: string list process"
  have "reach (\<lambda>s. s = process_start []) demo_env_step (?s\<lparr>pr_tick := True\<rparr>)"
    by (rule reach_step [OF reach_init]) (rule refl, rule tick_comes)
  moreover have "demo_step (?s\<lparr>pr_tick := True\<rparr>) (?s\<lparr>pr_loop := LNext demo_opts\<rparr>)"
    using take_tick [where s = "?s\<lparr>pr_tick := True\<rparr>" and order = demo_opts and
        opts = demo_opts and check = demo_check and registry = "[]" and hbAlert = demo_alert and reset = demo_reset] by (simp add: process_start_def)
  moreover have "demo_step (?s\<lparr>pr_loop := LNext demo_opts\<rparr>) demo_checking"
    using start_check [where s = "?s\<lparr>pr_loop := LNext demo_opts\<rparr>" and proc = "''p''" and paths = "[''/app'']"
        and ps = "[]" and opts = demo_opts and check = demo_check and registry = "[]" and hbAlert = demo_alert and reset = demo_reset]
    by (simp add: process_start_def demo_checking_def graceful_start_def)
  ultimately show ?thesis by (blast intro: reach_step own_step)
qed

theorem monitor_works_until_signal_witness:
  "\<exists>s :: string list process. pr_events s = [CheckTick demo_opts] \<and> pr_world s = [''p''] \<and>
     (\<exists>v. execute (\<lambda>w. False) demo_check [] demo_alert (pr_events s) [] = (v, Running) \<and> pr_world s = v)"
proof -
  let ?s = "demo_checking\<lparr>pr_loop := LNext [], pr_world := [''p''], pr_events := [CheckTick demo_opts]\<rparr>"
  have "demo_step demo_checking ?s"
    using end_check [where s = demo_checking and proc = "''p''" and paths = "[''/app'']" and ps = "[]" and
        opts = demo_opts and check = demo_check and registry = "[]" and hbAlert = demo_alert and reset = demo_reset]
    by (simp add: demo_checking_def process_start_def demo_check_def)
  then have "reach (\<lambda>s. s = process_start []) demo_env_step ?s"
    using demo_checking_reached by (blast intro: reach_step own_step)
  from monitor_works_until_signal [OF this, THEN conjunct2, THEN conjunct1] obtain v where
    "execute (\<lambda>w. False) demo_check [] demo_alert (pr_events ?s) [] = (v, Running)" "pr_world ?s = v"
    by (auto simp: demo_checking_def process_start_def)
  then show ?thesis by (intro exI [of _ ?s] conjI exI [of _ v]) simp_all
qed

lemma longest_run: "\<exists>n t. run (process_step opts check registry hbAlert reset) s n t \<and>
    (\<nexists>u. process_step opts check registry hbAlert reset t u)"
proof (induction "process_work opts s" arbitrary: s rule: less_induct)
  case less
  show ?case
  proof (cases "\<exists>u. process_step opts check registry hbAlert reset s u")
    case True
    then obtain u where u: "process_step opts check registry hbAlert reset s u" by blast
    from less [OF process_step_work [OF u]] process_ends.run_snoc_front [OF _ u] show ?thesis by blast
  qed (blast intro: run_0)
qed

definition demo_signalled :: "string list process" where
  "demo_signalled = (process_start [])\<lparr>pr_graceful := graceful_start
     \<lparr>gr_signals := 1, gr_ctx_done := True, gr_watch := WGone\<rparr>\<rparr>"

lemma demo_signalled_reached: "reach (\<lambda>s. s = process_start []) demo_env_step demo_signalled"
proof -
  let ?s = "process_start [] :: string list process" and ?g = "graceful_start\<lparr>gr_sig := 1, gr_signals := 1\<rparr>"
  have start: "reach (\<lambda>s. s = process_start []) demo_env_step ?s" by (rule reach_init) simp
  moreover have "demo_env_step ?s (?s\<lparr>pr_graceful := ?g\<rparr>)"
    using signal_comes [where s = ?s and opts = demo_opts and check = demo_check and registry = "[]" and hbAlert = demo_alert and reset = demo_reset]
    by (simp add: process_start_def graceful_start_def)
  moreover have "demo_step (?s\<lparr>pr_graceful := ?g\<rparr>) (?s\<lparr>pr_graceful := ?g\<lparr>gr_sig := 0, gr_watch := WCancelling\<rparr>\<rparr>)"
    using shutting_down [where s = "?s\<lparr>pr_graceful := ?g\<rparr>" and g = "?g\<lparr>gr_sig := 0, gr_watch := WCancelling\<rparr>"
        and opts = demo_opts and check = demo_check and registry = "[]" and hbAlert = demo_alert and reset = demo_reset]
      watch_signal [of ?g 0]
    by (simp add: process_start_def graceful_start_def)
  moreover have "demo_step (?s\<lparr>pr_graceful := ?g\<lparr>gr_sig := 0, gr_watch := WCancelling\<rparr>\<rparr>) demo_signalled"
    using shutting_down [where s = "?s\<lparr>pr_graceful := ?g\<lparr>gr_sig := 0, gr_watch := WCancelling\<rparr>\<rparr>"
        and g = "?g\<lparr>gr_sig := 0, gr_ctx_done := True, gr_watch := WGone\<rparr>"
        and opts = demo_opts and check = demo_check and registry = "[]" and hbAlert = demo_alert and reset = demo_reset]
      watch_cancel [of "?g\<lparr>gr_sig := 0, gr_watch := WCancelling\<rparr>"]
    by (simp add: process_start_def graceful_start_def demo_signalled_def)
  ultimately show ?thesis by (blast intro: reach_step own_step)
qed

theorem signal_ends_monitor_at_tick_witness:
  "\<exists>n t. run demo_step (demo_signalled\<lparr>pr_tick := True\<rparr>) n t \<and> pr_ended t"
proof -
  have w: "waiting demo_signalled" "gr_ctx_done (pr_graceful demo_signalled)" "0 < gr_signals (pr_graceful demo_signalled)"
    by (simp_all add: waiting_def demo_signalled_def process_start_def)
  obtain n t where t: "run demo_step (demo_signalled\<lparr>pr_tick := True\<rparr>) n t" "\<nexists>u. demo_step t u"
    using longest_run by blast
  with signal_ends_monitor_at_tick [OF demo_signalled_reached demo_parse w(3)] w show ?thesis by blast
qed

end
