(* ===== verification/Bee2.thy ===== *)
theory Bee2
  imports Go_Errors "HOL-Library.Signed_Division"
begin

text \<open>
  The binding of the bee2 library: internal/ffi/bee2/bee2.go (the object that implements Go's
  \<open>hash.Hash\<close>) and internal/ffi/bee2/wrapper.go (the calls into C and the C function
  \<open>bsumHashFile\<close>). The library itself is not part of the repository: its functions are the
  fields of \<open>bee2_lib\<close>, and what the code relies on is \<open>bash_lib\<close>.

  A C buffer is the list of its bytes. A call that would read or write beyond a buffer is
  undefined in C; here it is the result \<open>Panic\<close>.
\<close>

record bee2_lib =
  bashHashStart :: "string \<Rightarrow> nat \<Rightarrow> string" \<comment> \<open>state, level; the new state\<close>
  bashHashStepH :: "string \<Rightarrow> string \<Rightarrow> string" \<comment> \<open>data, state; the new state\<close>
  bashHashStepG :: "nat \<Rightarrow> string \<Rightarrow> string" \<comment> \<open>\<open>hash_len\<close>, state; the hash\<close>
  beltHashStart :: "string \<Rightarrow> string"
  beltHashStepH :: "string \<Rightarrow> string \<Rightarrow> string"
  beltHashStepG :: "string \<Rightarrow> string"

definition HID :: int where "HID = 256"
definition HASHSIZE :: nat where "HASHSIZE = 32"
definition BLOCKSIZE :: nat where "BLOCKSIZE = 4096"

lemmas bee2_sizes = HID_def HASHSIZE_def BLOCKSIZE_def

text \<open>Go's \<open>copy\<close>, and the conversions of an \<open>int\<close> to \<open>C.ulong\<close> and \<open>C.int\<close>, of 64 and 32 bits.\<close>

definition go_copy :: "string \<Rightarrow> string \<Rightarrow> string" where
  "go_copy dst src = take (length dst) src @ drop (length src) dst"

definition c_ulong :: "int \<Rightarrow> nat" where "c_ulong i = nat (i mod 2 ^ 64)"

definition c_int :: "int \<Rightarrow> int" where "c_int i = (i + 2 ^ 31) mod 2 ^ 32 - 2 ^ 31"

lemma c_int_small [simp]: "- (2 ^ 31) \<le> i \<Longrightarrow> i < 2 ^ 31 \<Longrightarrow> c_int i = i"
  by (simp add: c_int_def)

definition zeros :: "nat \<Rightarrow> string" where "zeros n = replicate n (CHR 0x00)"

lemma length_go_copy [simp]: "length (go_copy dst src) = length dst"
  by (simp add: go_copy_def)

lemma go_copy_same [simp]: "length src = length dst \<Longrightarrow> go_copy dst src = src"
  by (simp add: go_copy_def)

lemma length_zeros [simp]: "length (zeros n) = n"
  by (simp add: zeros_def)

subsection \<open>The object\<close>

record bee2 =
  b_hid :: int
  b_hashSize :: int
  b_state :: string
  b_hash :: string
  b_data :: string
  b_n :: nat

definition go_bashHashStart :: "bee2_lib \<Rightarrow> bee2 \<Rightarrow> bee2" where
  "go_bashHashStart lib a =
     (let stateC = bashHashStart lib (b_state a) (c_ulong (b_hid a sdiv 2)) in
      a\<lparr>b_state := go_copy (b_state a) (take BLOCKSIZE stateC)\<rparr>)"

definition go_bashHashStepH :: "bee2_lib \<Rightarrow> bee2 \<Rightarrow> bee2" where
  "go_bashHashStepH lib a =
     (let bufC = take (b_n a) (b_data a); stateC = bashHashStepH lib bufC (b_state a) in
      a\<lparr>b_state := go_copy (b_state a) (take BLOCKSIZE stateC)\<rparr>)"

definition go_bashHashStepG :: "bee2_lib \<Rightarrow> bee2 \<Rightarrow> bee2 result" where
  "go_bashHashStepG lib a =
     (let hash_len = c_ulong (b_hid a sdiv 8) in
      if length (b_hash a) < hash_len then Panic ''write beyond the hash buffer''
      else let hashC = bashHashStepG lib hash_len (b_state a) @ drop hash_len (b_hash a);
               size = c_int (b_hashSize a) in
        if size < 0 then Panic ''gobytes: length out of range''
        else if length (b_hash a) < nat size then Panic ''read beyond the hash buffer''
        else Ok (a\<lparr>b_hash := go_copy (b_hash a) (take (nat size) hashC)\<rparr>))"

datatype bee2_option = WithHid int | WithHashSize int

fun apply_option :: "bee2_option \<Rightarrow> bee2 \<Rightarrow> bee2" where
  "apply_option (WithHid hid) o' = o'\<lparr>b_hid := hid\<rparr>"
| "apply_option (WithHashSize hs) o' = o'\<lparr>b_hashSize := hs\<rparr>"

definition bee2_New :: "bee2_lib \<Rightarrow> bee2_option list \<Rightarrow> bee2" where
  "bee2_New lib opts =
     (let objRef = \<lparr>b_hid = HID, b_hashSize = int HASHSIZE, b_state = zeros BLOCKSIZE,
                    b_hash = zeros HASHSIZE, b_data = zeros BLOCKSIZE, b_n = 0\<rparr> in
      go_bashHashStart lib (foldl (\<lambda>obj opt. apply_option opt obj) objRef opts))"

definition NewDefault :: "bee2_lib \<Rightarrow> bee2" where
  "NewDefault lib = bee2_New lib []"

text \<open>
  The loop of \<open>Write\<close>. It ends because the buffer \<open>data\<close> is never empty; that is a property of
  the objects \<open>New\<close> makes, so the loop itself is a partial function.
\<close>

partial_function (option) Write_loop ::
    "bee2_lib \<Rightarrow> bee2 \<Rightarrow> string \<Rightarrow> nat \<Rightarrow> nat \<Rightarrow> (bee2 \<times> nat) option" where
  "Write_loop lib a p takeFrom takeTo =
     (if takeFrom < length p
      then let takeTo = (if takeTo > length p then length p else takeTo);
               piece = take (takeTo - takeFrom) (drop takeFrom p);
               a = a\<lparr>b_data := go_copy (b_data a) piece,
                     b_n := min (length (b_data a)) (length piece)\<rparr>;
               takeFrom = takeFrom + b_n a;
               takeTo = takeFrom + BLOCKSIZE
           in Write_loop lib (go_bashHashStepH lib a) p takeFrom takeTo
      else Some (a, takeFrom))"

definition bee2_Write :: "bee2_lib \<Rightarrow> bee2 \<Rightarrow> string \<Rightarrow> (bee2 \<times> nat) option" where
  "bee2_Write lib a p = Write_loop lib a p 0 BLOCKSIZE"

definition bee2_Sum :: "bee2_lib \<Rightarrow> bee2 \<Rightarrow> string \<Rightarrow> (bee2 \<times> string) result" where
  "bee2_Sum lib a inp = bind_result (go_bashHashStepG lib a) (\<lambda>a. Ok (a, inp @ b_hash a))"

definition bee2_Reset :: "bee2_lib \<Rightarrow> bee2 \<Rightarrow> bee2" where
  "bee2_Reset lib a =
     (let a = a\<lparr>b_hash := go_copy (b_hash a) (zeros HASHSIZE)\<rparr>;
          a = a\<lparr>b_state := go_copy (b_state a) (zeros BLOCKSIZE)\<rparr>
      in go_bashHashStart lib a)"

definition bee2_Size :: "bee2 \<Rightarrow> int" where "bee2_Size a = b_hashSize a"
definition bee2_BlockSize :: "bee2 \<Rightarrow> nat" where "bee2_BlockSize a = BLOCKSIZE"

subsection \<open>The C function\<close>

text \<open>
  An open file: its bytes, and whether reading fails after them. \<open>fopen\<close> is \<open>None\<close> if it
  returns a null pointer. \<open>junk\<close> is what the uninitialised array \<open>state\<close> holds.
\<close>

function fread_loop :: "bee2_lib \<Rightarrow> nat \<Rightarrow> string \<Rightarrow> bool \<Rightarrow> string \<Rightarrow> string option" where
  "fread_loop lib hid rest ferr state =
     (let buf = take BLOCKSIZE rest in
      if length buf = 0 then (if ferr then None else Some state)
      else fread_loop lib hid (drop BLOCKSIZE rest) ferr
             (if hid \<noteq> 0 then bashHashStepH lib buf state else beltHashStepH lib buf state))"
  by pat_completeness auto
termination
  by (relation "measure (\<lambda>(lib, hid, rest, ferr, state). length rest)")
    (auto simp: BLOCKSIZE_def)

declare fread_loop.simps [simp del]

definition bsumHashFile ::
    "bee2_lib \<Rightarrow> string \<Rightarrow> (string \<Rightarrow> (string \<times> bool) option) \<Rightarrow> string \<Rightarrow> nat \<Rightarrow> string \<Rightarrow>
     (int \<times> string) result" where
  "bsumHashFile lib junk fopen hash hid filename =
     (case fopen filename of
        None \<Rightarrow> Ok (- 1, hash)
      | Some (content, ferr) \<Rightarrow>
          let state = (if hid \<noteq> 0 then bashHashStart lib junk (hid div 2) else beltHashStart lib junk) in
          case fread_loop lib hid content ferr state of
            None \<Rightarrow> Ok (- 1, hash)
          | Some state \<Rightarrow>
              let out = (if hid \<noteq> 0 then bashHashStepG lib (hid div 8) state else beltHashStepG lib state) in
              if length hash < length out then Panic ''write beyond the hash buffer''
              else Ok (0, out @ drop (length out) hash))"

definition Bee2HashFile ::
    "bee2_lib \<Rightarrow> string \<Rightarrow> (string \<Rightarrow> (string \<times> bool) option) \<Rightarrow> string \<Rightarrow> string result" where
  "Bee2HashFile lib junk fopen fname =
     bind_result (bsumHashFile lib junk fopen (zeros HASHSIZE) (c_ulong HID) fname)
       (\<lambda>(errCode, arr).
          if errCode \<noteq> 0 then Fail (ErrNew ''file not found'')
          else Ok (hex_encode (take HASHSIZE arr)))"

subsection \<open>What the code relies on\<close>

text \<open>
  From the library's documentation: the state is the first \<open>bashHash_keep()\<close> octets of the
  buffer it is given; the functions read and write nothing else, so two buffers that agree
  there behave alike; \<open>bashHashStepG\<close> writes \<open>hash_len\<close> octets.
\<close>

definition same_state :: "nat \<Rightarrow> string \<Rightarrow> string \<Rightarrow> bool" where
  "same_state keep s t \<longleftrightarrow> length s = BLOCKSIZE \<and> length t = BLOCKSIZE \<and> take keep s = take keep t"

definition bash_lib :: "bee2_lib \<Rightarrow> nat \<Rightarrow> bool" where
  "bash_lib lib keep \<longleftrightarrow>
     (\<forall>s t l. length s = BLOCKSIZE \<longrightarrow> length t = BLOCKSIZE \<longrightarrow>
        same_state keep (bashHashStart lib s l) (bashHashStart lib t l)) \<and>
     (\<forall>d s t. same_state keep s t \<longrightarrow>
        same_state keep (bashHashStepH lib d s) (bashHashStepH lib d t)) \<and>
     (\<forall>n s t. same_state keep s t \<longrightarrow> bashHashStepG lib n s = bashHashStepG lib n t) \<and>
     (\<forall>n s. length (bashHashStepG lib n s) = n)"

lemma bash_lib_start: "bash_lib lib keep \<Longrightarrow> length s = BLOCKSIZE \<Longrightarrow> length t = BLOCKSIZE \<Longrightarrow>
    same_state keep (bashHashStart lib s l) (bashHashStart lib t l)"
  and bash_lib_step: "bash_lib lib keep \<Longrightarrow> same_state keep s t \<Longrightarrow>
    same_state keep (bashHashStepH lib d s) (bashHashStepH lib d t)"
  and bash_lib_hash: "bash_lib lib keep \<Longrightarrow> same_state keep s t \<Longrightarrow>
    bashHashStepG lib n s = bashHashStepG lib n t"
  and bash_lib_length: "bash_lib lib keep \<Longrightarrow> length (bashHashStepG lib n s) = n"
  by (auto simp: bash_lib_def)

lemma same_state_refl: "length s = BLOCKSIZE \<Longrightarrow> same_state keep s s"
  by (simp add: same_state_def)

lemma same_state_length: "same_state keep s t \<Longrightarrow> length s = BLOCKSIZE \<and> length t = BLOCKSIZE"
  by (simp add: same_state_def)

lemma bash_step_length:
  "bash_lib lib keep \<Longrightarrow> length s = BLOCKSIZE \<Longrightarrow> length (bashHashStepH lib d s) = BLOCKSIZE"
  using bash_lib_step same_state_refl same_state_length by blast

lemma bash_start_length:
  "bash_lib lib keep \<Longrightarrow> length s = BLOCKSIZE \<Longrightarrow> length (bashHashStart lib s l) = BLOCKSIZE"
  using bash_lib_start same_state_length by blast

subsection \<open>Absorbing data block by block\<close>

function absorb :: "bee2_lib \<Rightarrow> string \<Rightarrow> string \<Rightarrow> string" where
  "absorb lib state data =
     (if data = [] then state
      else absorb lib (bashHashStepH lib (take BLOCKSIZE data) state) (drop BLOCKSIZE data))"
  by pat_completeness auto
termination
  by (relation "measure (\<lambda>(lib, state, data). length data)") (auto simp: BLOCKSIZE_def)

declare absorb.simps [simp del]

lemma absorb_Nil [simp]: "absorb lib state [] = state"
  by (simp add: absorb.simps)

lemma absorb_same:
  "bash_lib lib keep \<Longrightarrow> same_state keep s t \<Longrightarrow>
   same_state keep (absorb lib s data) (absorb lib t data)"
proof (induction lib s data arbitrary: t rule: absorb.induct)
  case (1 lib state data)
  then show ?case
    using absorb.simps [of lib state data] absorb.simps [of lib t data] bash_lib_step by auto
qed

lemma absorb_length:
  "bash_lib lib keep \<Longrightarrow> length s = BLOCKSIZE \<Longrightarrow> length (absorb lib s data) = BLOCKSIZE"
  using absorb_same [of lib keep s s] by (simp add: same_state_refl same_state_def)

lemma fread_loop_absorb:
  "hid \<noteq> 0 \<Longrightarrow> fread_loop lib hid rest ferr state = (if ferr then None else Some (absorb lib state rest))"
proof (induction lib hid rest ferr state rule: fread_loop.induct)
  case (1 lib hid rest ferr state)
  then show ?case
    by (subst fread_loop.simps, subst absorb.simps) (auto simp: BLOCKSIZE_def)
qed

text \<open>An object as \<open>NewDefault\<close> makes it and as all its methods keep it.\<close>

definition bee2_ok :: "bee2 \<Rightarrow> bool" where
  "bee2_ok a \<longleftrightarrow> b_hid a = HID \<and> b_hashSize a = int HASHSIZE \<and> length (b_state a) = BLOCKSIZE \<and>
     length (b_hash a) = HASHSIZE \<and> length (b_data a) = BLOCKSIZE"

lemma start_ok:
  "bash_lib lib keep \<Longrightarrow> bee2_ok a \<Longrightarrow>
   go_bashHashStart lib a = a\<lparr>b_state := bashHashStart lib (b_state a) 128\<rparr>"
  using bash_start_length [of lib keep "b_state a" 128]
  by (simp add: go_bashHashStart_def bee2_ok_def Let_def c_ulong_def HID_def signed_divide_int_def)

lemma step_ok:
  "bash_lib lib keep \<Longrightarrow> length (b_state a) = BLOCKSIZE \<Longrightarrow>
   go_bashHashStepH lib a =
     a\<lparr>b_state := bashHashStepH lib (take (b_n a) (b_data a)) (b_state a)\<rparr>"
  using bash_step_length [of lib keep "b_state a"]
  by (simp add: go_bashHashStepH_def Let_def)

lemma Write_loop_step:
  assumes "takeFrom < length p"
  shows "Write_loop lib a p takeFrom (takeFrom + BLOCKSIZE) =
    (let piece = take BLOCKSIZE (drop takeFrom p);
         n = min (length (b_data a)) (length piece);
         b = a\<lparr>b_data := go_copy (b_data a) piece, b_n := n\<rparr>
     in Write_loop lib (go_bashHashStepH lib b) p (takeFrom + n) (takeFrom + n + BLOCKSIZE))"
proof -
  let ?to = "if takeFrom + BLOCKSIZE > length p then length p else takeFrom + BLOCKSIZE"
  have piece: "take (?to - takeFrom) (drop takeFrom p) = take BLOCKSIZE (drop takeFrom p)" by auto
  show ?thesis
    by (subst Write_loop.simps) (simp only: assms if_True Let_def piece, simp)
qed

lemma Write_loop_absorb:
  assumes lib: "bash_lib lib keep"
  shows "length (b_state a) = BLOCKSIZE \<Longrightarrow> length (b_data a) = BLOCKSIZE \<Longrightarrow> takeFrom \<le> length p \<Longrightarrow>
    \<exists>d n. Write_loop lib a p takeFrom (takeFrom + BLOCKSIZE) =
        Some (a\<lparr>b_state := absorb lib (b_state a) (drop takeFrom p), b_data := d, b_n := n\<rparr>, length p) \<and>
      length d = BLOCKSIZE"
proof (induction "length p - takeFrom" arbitrary: a takeFrom rule: less_induct)
  case less
  show ?case
  proof (cases "takeFrom < length p")
    case False
    with less.prems show ?thesis
      by (subst Write_loop.simps) (auto intro!: exI [of _ "b_data a"] exI [of _ "b_n a"])
  next
    case True
    let ?piece = "take BLOCKSIZE (drop takeFrom p)"
    have np: "0 < length ?piece" "length ?piece \<le> BLOCKSIZE" using True by (auto simp: BLOCKSIZE_def)
    let ?d = "go_copy (b_data a) ?piece"
    let ?a = "a\<lparr>b_data := ?d, b_n := length ?piece\<rparr>"
    have n: "min (length (b_data a)) (length ?piece) = length ?piece" using np less.prems(2) by simp
    have pd: "take (length ?piece) ?d = ?piece"
      using np less.prems(2) unfolding go_copy_def
      by (metis append_eq_conv_conj take_all)
    let ?b = "?a\<lparr>b_state := bashHashStepH lib ?piece (b_state a)\<rparr>"
    have b: "go_bashHashStepH lib ?a = ?b"
      using step_ok [OF lib, of ?a] less.prems(1) pd by simp
    have step: "Write_loop lib a p takeFrom (takeFrom + BLOCKSIZE) =
        Write_loop lib ?b p (takeFrom + length ?piece) (takeFrom + length ?piece + BLOCKSIZE)"
      unfolding Write_loop_step [OF True] Let_def n b ..
    have "length ?piece = min BLOCKSIZE (length p - takeFrom)" by simp
    then have le: "takeFrom + length ?piece \<le> length p" using True by linarith
    have "length p - (takeFrom + length ?piece) < length p - takeFrom" using np(1) True by linarith
    from less.hyps [OF this, of ?b] less.prems le bash_step_length [OF lib] obtain d n where
      r: "Write_loop lib ?b p (takeFrom + length ?piece) (takeFrom + length ?piece + BLOCKSIZE) =
        Some (?b\<lparr>b_state := absorb lib (b_state ?b) (drop (takeFrom + length ?piece) p),
                b_data := d, b_n := n\<rparr>, length p)" "length d = BLOCKSIZE"
      by fastforce
    have "drop (takeFrom + length ?piece) p = drop BLOCKSIZE (drop takeFrom p)"
      by (cases "length p - takeFrom < BLOCKSIZE") (auto simp: min_def add.commute)
    then have "absorb lib (b_state ?b) (drop (takeFrom + length ?piece) p) =
        absorb lib (b_state a) (drop takeFrom p)"
      using True by (subst (2) absorb.simps) simp
    with step r show ?thesis by auto
  qed
qed

subsection \<open>The hash of some data\<close>

definition bee2_digest :: "bee2_lib \<Rightarrow> string \<Rightarrow> string" where
  "bee2_digest lib data =
     bashHashStepG lib 32 (absorb lib (bashHashStart lib (zeros BLOCKSIZE) 128) data)"

lemma NewDefault_ok:
  assumes "bash_lib lib keep"
  shows "bee2_ok (NewDefault lib)"
proof -
  let ?o = "\<lparr>b_hid = HID, b_hashSize = int HASHSIZE, b_state = zeros BLOCKSIZE,
      b_hash = zeros HASHSIZE, b_data = zeros BLOCKSIZE, b_n = 0\<rparr>"
  have "bee2_ok ?o" by (simp add: bee2_ok_def)
  with start_ok [OF assms this] bash_start_length [OF assms, of "zeros BLOCKSIZE" 128] show ?thesis
    by (simp add: NewDefault_def bee2_New_def Let_def bee2_ok_def)
qed

lemma Reset_ok:
  assumes "bash_lib lib keep" and "bee2_ok a"
  shows "bee2_ok (bee2_Reset lib a) \<and>
    b_state (bee2_Reset lib a) = bashHashStart lib (zeros BLOCKSIZE) 128"
proof -
  let ?a = "a\<lparr>b_hash := zeros HASHSIZE, b_state := zeros BLOCKSIZE\<rparr>"
  have ok: "bee2_ok ?a" using assms(2) by (simp add: bee2_ok_def)
  have "bee2_Reset lib a = go_bashHashStart lib ?a"
    using assms(2) by (simp add: bee2_Reset_def Let_def bee2_ok_def)
  with start_ok [OF assms(1) ok] ok bash_start_length [OF assms(1), of "zeros BLOCKSIZE" 128]
  show ?thesis by (simp add: bee2_ok_def)
qed

lemma Write_ok:
  assumes "bash_lib lib keep" and "bee2_ok a"
  shows "\<exists>b. bee2_Write lib a p = Some (b, length p) \<and> bee2_ok b \<and>
    b_state b = absorb lib (b_state a) p"
proof -
  from Write_loop_absorb [OF assms(1), of a 0 p] assms(2) obtain d n where
    w: "bee2_Write lib a p =
      Some (a\<lparr>b_state := absorb lib (b_state a) p, b_data := d, b_n := n\<rparr>, length p)"
      "length d = BLOCKSIZE"
    by (auto simp: bee2_Write_def bee2_ok_def)
  with absorb_length [OF assms(1), of "b_state a" p] assms(2) show ?thesis
    by (simp add: bee2_ok_def)
qed

lemma Sum_ok:
  assumes "bash_lib lib keep" and "bee2_ok a"
  shows "\<exists>b. bee2_Sum lib a inp = Ok (b, inp @ bashHashStepG lib 32 (b_state a)) \<and>
    bee2_ok b \<and> b_state b = b_state a"
proof -
  have l: "length (bashHashStepG lib 32 (b_state a)) = 32" using assms(1) by (rule bash_lib_length)
  then have "go_bashHashStepG lib a = Ok (a\<lparr>b_hash := bashHashStepG lib 32 (b_state a)\<rparr>)"
    using assms(2)
    by (simp add: go_bashHashStepG_def Let_def bee2_ok_def c_ulong_def bee2_sizes signed_divide_int_def)
  with l assms(2) show ?thesis by (simp add: bee2_Sum_def bee2_ok_def bee2_sizes)
qed

text \<open>What the C function computes for a file is the digest of its bytes.\<close>

lemma Bee2HashFile_digest:
  assumes "bash_lib lib keep" and "length junk = BLOCKSIZE"
  shows "Bee2HashFile lib junk fopen fname =
    (case fopen fname of
       Some (content, False) \<Rightarrow> Ok (hex_encode (bee2_digest lib content))
     | _ \<Rightarrow> Fail (ErrNew ''file not found''))"
proof -
  let ?st = "\<lambda>content. absorb lib (bashHashStart lib junk 128) content"
  have same: "bashHashStepG lib 32 (?st content) = bee2_digest lib content" for content
    unfolding bee2_digest_def
    using bash_lib_start [OF assms(1,2), of "zeros BLOCKSIZE"]
    by (intro bash_lib_hash [OF assms(1)] absorb_same [OF assms(1)]) simp
  have l: "length (bee2_digest lib content) = 32" for content
    unfolding bee2_digest_def using assms(1) by (rule bash_lib_length)
  have "c_ulong HID = 256" by (simp add: c_ulong_def HID_def)
  then show ?thesis
    by (auto simp: Bee2HashFile_def bsumHashFile_def fread_loop_absorb same l bee2_sizes
        split: option.splits)
qed

subsection \<open>Properties\<close>

text \<open>A small library for the witnesses: its state is the last octet absorbed.\<close>

definition tiny_lib :: bee2_lib where
  "tiny_lib = \<lparr>bashHashStart = \<lambda>s l. s[0 := CHR 0x00],
     bashHashStepH = \<lambda>d s. (if d = [] then s else s[0 := last d]),
     bashHashStepG = \<lambda>n s. replicate n (if s = [] then CHR 0x00 else hd s),
     beltHashStart = \<lambda>s. s, beltHashStepH = \<lambda>d s. s, beltHashStepG = \<lambda>s. replicate 32 (CHR 0x00)\<rparr>"

lemma tiny_lib: "bash_lib tiny_lib 1"
proof -
  have t: "take 1 s = take 1 t \<longleftrightarrow> (s = [] \<and> t = []) \<or> (s \<noteq> [] \<and> t \<noteq> [] \<and> hd s = hd t)" for s t :: string
    by (cases s; cases t) auto
  have u: "hd (s[0 := c]) = c" if "s \<noteq> []" for s :: string and c using that by (cases s) auto
  have ne: "s \<noteq> []" if "length s = 4096" for s :: string using that by auto
  show ?thesis
    unfolding bash_lib_def same_state_def t
    by (auto simp: tiny_lib_def u ne BLOCKSIZE_def)
qed

text \<open>
  Property C12. The C function that hashes a file and Go's \<open>hash.Hash\<close> methods of the same
  package compute the same hash: resetting any object the package can have made by default,
  writing the file's bytes to it in one call and taking the sum gives the octets whose
  hexadecimal text \<open>Bee2HashFile\<close> returns, whatever the C array held before. \<open>Write\<close> returns,
  reports all bytes as written, and \<open>Sum\<close> does not change the running state.
\<close>

theorem bee2_file_and_interface_agree:
  assumes "bash_lib lib keep" and "length junk = BLOCKSIZE" and "bee2_ok a"
    and "fopen fname = Some (content, False)"
  shows "\<exists>b c h. bee2_Write lib (bee2_Reset lib a) content = Some (b, length content) \<and>
    bee2_Sum lib b [] = Ok (c, h) \<and> Bee2HashFile lib junk fopen fname = Ok (hex_encode h) \<and>
    bee2_ok c \<and> b_state c = b_state b"
proof -
  note r = Reset_ok [OF assms(1,3)]
  from r Write_ok [OF assms(1), of "bee2_Reset lib a" content] obtain b where
    w: "bee2_Write lib (bee2_Reset lib a) content = Some (b, length content)" "bee2_ok b"
      "b_state b = absorb lib (bashHashStart lib (zeros BLOCKSIZE) 128) content"
    by auto
  from Sum_ok [OF assms(1) w(2), of "[]"] obtain c where
    "bee2_Sum lib b [] = Ok (c, bee2_digest lib content)" "bee2_ok c" "b_state c = b_state b"
    by (auto simp: bee2_digest_def w(3))
  with w Bee2HashFile_digest [OF assms(1,2), of fopen fname] assms(4) show ?thesis by auto
qed

theorem bee2_file_and_interface_agree_witness:
  "\<exists>b c h. bee2_Write tiny_lib (bee2_Reset tiny_lib (NewDefault tiny_lib)) ''data'' = Some (b, length ''data'') \<and>
    bee2_Sum tiny_lib b [] = Ok (c, h) \<and>
    Bee2HashFile tiny_lib (zeros BLOCKSIZE) (\<lambda>_. Some (''data'', False)) ''f'' = Ok (hex_encode h)"
  using bee2_file_and_interface_agree [OF tiny_lib, of "zeros BLOCKSIZE" "NewDefault tiny_lib"
      "\<lambda>_. Some (''data'', False)" "''f''"] NewDefault_ok [OF tiny_lib] by fastforce

text \<open>
  Property C40. The option \<open>WithHid\<close> does not resize the hash buffer: with a level whose hash is
  longer than the default one, taking the sum writes beyond the C buffer, for every library.
\<close>

theorem bee2_option_overflows:
  assumes "264 \<le> hid" and "hid < 2 ^ 63"
  shows "bee2_Sum lib (bee2_New lib [WithHid hid]) inp = Panic ''write beyond the hash buffer''"
proof -
  have "hid sdiv 8 = hid div 8" using assms by (simp add: signed_divide_int_def)
  moreover have "hid div 8 \<ge> 33" "hid div 8 < 2 ^ 64" using assms by auto
  ultimately have "33 \<le> c_ulong (hid sdiv 8)" by (simp add: c_ulong_def nat_le_iff le_nat_iff)
  then show ?thesis
    by (simp add: bee2_Sum_def go_bashHashStepG_def bee2_New_def go_bashHashStart_def Let_def HASHSIZE_def)
qed

theorem bee2_option_overflows_witness:
  "bee2_Sum tiny_lib (bee2_New tiny_lib [WithHid 512]) [] = Panic ''write beyond the hash buffer''"
  by (rule bee2_option_overflows) simp_all

end
