(* ===== verification/Hasher.thy ===== *)
theory Hasher
  imports Bee2 Worker_Pool
begin

text \<open>
  The hashers: pkg/hasher/hasher.go, and the function that a worker of internal/worker/workers.go
  applies to each file name with the one hasher it makes. The registry maps lower-case names to
  constructors. A hasher holds a value of Go's interface \<open>hash.Hash\<close>: an object of the standard
  library, or of the bee2 package, which also hashes files by itself.

  The digest functions of the standard library are arguments. Its objects behave as documented:
  \<open>Sum\<close> gives the digest of what was written since the last \<open>Reset\<close> and changes nothing,
  \<open>Write\<close> never returns an error.
\<close>

datatype std_alg = MD5 | SHA1 | SHA224 | SHA256 | SHA384 | SHA512

datatype hash_obj =
    StdHash std_alg string \<comment> \<open>the bytes written since the last \<open>Reset\<close>\<close>
  | Bee2Hash bee2

datatype init_func = StdNew std_alg | Bee2NewDefault

record hash_env =
  he_digest :: "std_alg \<Rightarrow> string \<Rightarrow> string"
  he_lib :: bee2_lib
  he_junk :: string
  he_file :: "string \<Rightarrow> string option" \<comment> \<open>the file's bytes, if it can be read\<close>

text \<open>\<open>os.ReadFile\<close>, and \<open>fopen\<close> with the reads of the C function, on the same files.\<close>

definition ReadFile :: "hash_env \<Rightarrow> string \<Rightarrow> string result" where
  "ReadFile env f =
     (case he_file env f of
        None \<Rightarrow> Fail (ErrWrap (''open '' @ f) (ErrNew ''no such file or directory''))
      | Some content \<Rightarrow> Ok content)"

definition fopen_file :: "hash_env \<Rightarrow> string \<Rightarrow> (string \<times> bool) option" where
  "fopen_file env f = map_option (\<lambda>content. (content, False)) (he_file env f)"

subsection \<open>The interface \<open>hash.Hash\<close>\<close>

fun hash_Reset :: "hash_env \<Rightarrow> hash_obj \<Rightarrow> hash_obj" where
  "hash_Reset env (StdHash alg written) = StdHash alg []"
| "hash_Reset env (Bee2Hash a) = Bee2Hash (bee2_Reset (he_lib env) a)"

text \<open>\<open>None\<close>: the call does not return.\<close>

fun hash_Write :: "hash_env \<Rightarrow> hash_obj \<Rightarrow> string \<Rightarrow> (hash_obj \<times> nat) option" where
  "hash_Write env (StdHash alg written) p = Some (StdHash alg (written @ p), length p)"
| "hash_Write env (Bee2Hash a) p = map_option (\<lambda>(a, n). (Bee2Hash a, n)) (bee2_Write (he_lib env) a p)"

fun hash_Sum :: "hash_env \<Rightarrow> hash_obj \<Rightarrow> string \<Rightarrow> (hash_obj \<times> string) result" where
  "hash_Sum env (StdHash alg written) inp = Ok (StdHash alg written, inp @ he_digest env alg written)"
| "hash_Sum env (Bee2Hash a) inp =
     bind_result (bee2_Sum (he_lib env) a inp) (\<lambda>(a, h). Ok (Bee2Hash a, h))"

subsection \<open>The hasher\<close>

text \<open>
  \<open>io.Copy(fh.h, r)\<close> with a \<open>bytes.Reader\<close>: its \<open>WriteTo\<close> makes one call of \<open>Write\<close> with all the
  bytes, none if there are none, and reports a short write.
\<close>

definition io_Copy :: "hash_env \<Rightarrow> hash_obj \<Rightarrow> string \<Rightarrow> (hash_obj \<times> go_error option) option" where
  "io_Copy env h data =
     (if data = [] then Some (h, None)
      else map_option (\<lambda>(h, n). (h, if n = length data then None else Some (ErrNew ''short write'')))
             (hash_Write env h data))"

definition HashData :: "hash_env \<Rightarrow> hash_obj \<Rightarrow> string \<Rightarrow> (hash_obj \<times> string result) option" where
  "HashData env h data =
     (case io_Copy env (hash_Reset env h) data of
        None \<Rightarrow> None
      | Some (h, Some err) \<Rightarrow> Some (h, Fail err)
      | Some (h, None) \<Rightarrow>
          (case hash_Sum env h [] of
             Ok (h', hsum) \<Rightarrow> Some (h', Ok (hex_encode hsum))
           | Fail err \<Rightarrow> Some (h, Fail err)
           | Panic m \<Rightarrow> Some (h, Panic m)))"

fun HashFile :: "hash_env \<Rightarrow> hash_obj \<Rightarrow> string \<Rightarrow> (hash_obj \<times> string result) option" where
  "HashFile env (Bee2Hash a) fullFileName =
     Some (Bee2Hash a, Bee2HashFile (he_lib env) (he_junk env) (fopen_file env) fullFileName)"
| "HashFile env (StdHash alg written) fullFileName =
     (case ReadFile env fullFileName of
        Ok data \<Rightarrow> HashData env (StdHash alg written) data
      | Fail err \<Rightarrow> Some (StdHash alg written, Fail err)
      | Panic m \<Rightarrow> Some (StdHash alg written, Panic m))"

subsection \<open>The registry\<close>

type_synonym registry = "string \<Rightarrow> init_func option"

definition RegisterAlg :: "registry \<Rightarrow> string \<Rightarrow> init_func \<Rightarrow> registry \<times> bool" where
  "RegisterAlg algs algName f = (algs(to_lower algName \<mapsto> f), True)"

definition hasher_init :: registry where
  "hasher_init =
     foldl (\<lambda>algs (name, f). fst (RegisterAlg algs name f)) Map.empty
       [(''md5'', StdNew MD5), (''sha1'', StdNew SHA1), (''sha224'', StdNew SHA224),
        (''sha256'', StdNew SHA256), (''sha384'', StdNew SHA384), (''sha512'', StdNew SHA512)]"

text \<open>The build with the tag \<open>bee2\<close> runs the \<open>init\<close> of that package as well.\<close>

definition bee2_init :: "registry \<Rightarrow> registry" where
  "bee2_init algs = fst (RegisterAlg algs ''bee2'' Bee2NewDefault)"

fun call_init :: "hash_env \<Rightarrow> init_func \<Rightarrow> hash_obj" where
  "call_init env (StdNew alg) = StdHash alg []"
| "call_init env Bee2NewDefault = Bee2Hash (NewDefault (he_lib env))"

definition newHasherInstance :: "hash_env \<Rightarrow> registry \<Rightarrow> string \<Rightarrow> hash_obj" where
  "newHasherInstance env algs algName =
     (case algs (to_lower algName) of
        None \<Rightarrow> StdHash SHA256 []
      | Some initFunc \<Rightarrow> call_init env initFunc)"

definition NewFileHasher :: "hash_env \<Rightarrow> registry \<Rightarrow> string \<Rightarrow> hash_obj" where
  "NewFileHasher env algs algName = newHasherInstance env algs algName"

subsection \<open>A hash object's contract\<close>

text \<open>
  What \<open>HashData\<close> needs of the interface: after \<open>Reset\<close>, writing some bytes returns, and the sum
  is the digest of those bytes, whatever the object did before; every call keeps the object
  valid.
\<close>

locale hash_object =
  fixes env :: hash_env
    and valid :: "hash_obj \<Rightarrow> bool"
    and digest :: "string \<Rightarrow> string"
  assumes reset_valid: "valid h \<Longrightarrow> valid (hash_Reset env h)"
    and write_sum: "valid h \<Longrightarrow> \<exists>g. (if data = [] then g = hash_Reset env h
      else hash_Write env (hash_Reset env h) data = Some (g, length data)) \<and>
      valid g \<and> (\<exists>g'. hash_Sum env g [] = Ok (g', digest data) \<and> valid g')"
begin

lemma HashData_digest:
  assumes "valid h"
  shows "\<exists>g. HashData env h data = Some (g, Ok (hex_encode (digest data))) \<and> valid g"
proof -
  from write_sum [OF assms, of data] obtain g g' where
    g: "if data = [] then g = hash_Reset env h
        else hash_Write env (hash_Reset env h) data = Some (g, length data)"
      "hash_Sum env g [] = Ok (g', digest data)" "valid g'"
    by blast
  then show ?thesis by (cases "data = []") (auto simp: HashData_def io_Copy_def)
qed

end

fun is_std :: "std_alg \<Rightarrow> hash_obj \<Rightarrow> bool" where
  "is_std alg (StdHash a w) = (a = alg)"
| "is_std alg (Bee2Hash a) = False"

fun is_bee2 :: "hash_obj \<Rightarrow> bool" where
  "is_bee2 (StdHash a w) = False"
| "is_bee2 (Bee2Hash a) = bee2_ok a"

interpretation std_object: hash_object env "is_std alg" "he_digest env alg" for env alg
proof unfold_locales
  fix h data
  assume "is_std alg h"
  then obtain w where "h = StdHash alg w" by (cases h) auto
  then show "\<exists>g. (if data = [] then g = hash_Reset env h
      else hash_Write env (hash_Reset env h) data = Some (g, length data)) \<and>
      is_std alg g \<and> (\<exists>g'. hash_Sum env g [] = Ok (g', he_digest env alg data) \<and> is_std alg g')"
    by (intro exI [of _ "StdHash alg data"]) auto
next
  fix h assume "is_std alg h"
  then show "is_std alg (hash_Reset env h)" by (cases h) auto
qed

lemma bee2_object:
  assumes lib: "bash_lib (he_lib env) keep"
  shows "hash_object env is_bee2 (bee2_digest (he_lib env))"
proof unfold_locales
  fix h assume "is_bee2 h"
  then show "is_bee2 (hash_Reset env h)" using Reset_ok [OF lib] by (cases h) auto
next
  fix h data assume "is_bee2 h"
  then obtain a where a: "h = Bee2Hash a" "bee2_ok a" by (cases h) auto
  note r = Reset_ok [OF lib a(2)]
  from r Write_ok [OF lib, of "bee2_Reset (he_lib env) a" data] obtain b where
    w: "bee2_Write (he_lib env) (bee2_Reset (he_lib env) a) data = Some (b, length data)" "bee2_ok b"
      "b_state b = absorb (he_lib env) (b_state (bee2_Reset (he_lib env) a)) data" by blast
  let ?g = "if data = [] then bee2_Reset (he_lib env) a else b"
  have g: "bee2_ok ?g" "bashHashStepG (he_lib env) 32 (b_state ?g) = bee2_digest (he_lib env) data"
    using w r by (auto simp: bee2_digest_def)
  from Sum_ok [OF lib g(1), of "[]"] g(2) obtain c where
    c: "bee2_Sum (he_lib env) ?g [] = Ok (c, bee2_digest (he_lib env) data)" "bee2_ok c" by auto
  show "\<exists>g. (if data = [] then g = hash_Reset env h
      else hash_Write env (hash_Reset env h) data = Some (g, length data)) \<and>
      is_bee2 g \<and> (\<exists>g'. hash_Sum env g [] = Ok (g', bee2_digest (he_lib env) data) \<and> is_bee2 g')"
    by (rule exI [of _ "Bee2Hash ?g"]) (use a g c w in auto)
qed

subsection \<open>A worker's hasher\<close>

text \<open>The hasher of one worker over the files it receives, one after the other.\<close>

fun hash_seq :: "hash_env \<Rightarrow> hash_obj \<Rightarrow> string list \<Rightarrow> (hash_obj \<times> string result list) option" where
  "hash_seq env h [] = Some (h, [])"
| "hash_seq env h (f # fs) =
     (case HashFile env h f of
        None \<Rightarrow> None
      | Some (h', r) \<Rightarrow> map_option (\<lambda>(h'', rs). (h'', r # rs)) (hash_seq env h' fs))"

text \<open>The digest that an algorithm's name stands for.\<close>

definition alg_digest :: "hash_env \<Rightarrow> registry \<Rightarrow> string \<Rightarrow> string \<Rightarrow> string" where
  "alg_digest env algs algName =
     (case algs (to_lower algName) of
        Some (StdNew alg) \<Rightarrow> he_digest env alg
      | Some Bee2NewDefault \<Rightarrow> bee2_digest (he_lib env)
      | None \<Rightarrow> he_digest env SHA256)"

text \<open>Which objects a worker's hasher can have become.\<close>

definition alg_valid :: "registry \<Rightarrow> string \<Rightarrow> hash_obj \<Rightarrow> bool" where
  "alg_valid algs algName =
     (case algs (to_lower algName) of
        Some (StdNew alg) \<Rightarrow> is_std alg
      | Some Bee2NewDefault \<Rightarrow> is_bee2
      | None \<Rightarrow> is_std SHA256)"

definition good_env :: "hash_env \<Rightarrow> bool" where
  "good_env env \<longleftrightarrow> (\<exists>keep. bash_lib (he_lib env) keep) \<and> length (he_junk env) = BLOCKSIZE"

definition right_result :: "hash_env \<Rightarrow> (string \<Rightarrow> string) \<Rightarrow> string \<Rightarrow> string result \<Rightarrow> bool" where
  "right_result env digest f r =
     (case he_file env f of
        None \<Rightarrow> (case r of Fail e \<Rightarrow> True | _ \<Rightarrow> False)
      | Some content \<Rightarrow> r = Ok (hex_encode (digest content)))"

lemma HashFile_std:
  assumes "is_std alg h"
  shows "\<exists>g r. HashFile env h f = Some (g, r) \<and> is_std alg g \<and> right_result env (he_digest env alg) f r"
proof (cases "he_file env f")
  case None
  with assms show ?thesis by (cases h) (auto simp: ReadFile_def right_result_def)
next
  case (Some content)
  with assms std_object.HashData_digest [OF assms, of env content] show ?thesis
    by (cases h) (auto simp: ReadFile_def right_result_def)
qed

lemma HashFile_bee2:
  assumes "is_bee2 h" and "good_env env"
  shows "\<exists>g r. HashFile env h f = Some (g, r) \<and> is_bee2 g \<and>
    right_result env (bee2_digest (he_lib env)) f r"
proof -
  from assms(2) obtain keep where "bash_lib (he_lib env) keep" "length (he_junk env) = BLOCKSIZE"
    by (auto simp: good_env_def)
  from Bee2HashFile_digest [OF this, of "fopen_file env" f] assms(1) show ?thesis
    by (cases h) (auto simp: right_result_def fopen_file_def split: option.splits)
qed

lemma HashFile_valid:
  assumes "good_env env" and "alg_valid algs algName h"
  shows "\<exists>g r. HashFile env h f = Some (g, r) \<and> alg_valid algs algName g \<and>
    right_result env (alg_digest env algs algName) f r"
  using assms HashFile_std [of _ h env f] HashFile_bee2 [of h env f]
  by (auto simp: alg_valid_def alg_digest_def split: option.splits init_func.splits)

lemma NewFileHasher_valid:
  assumes "good_env env"
  shows "alg_valid algs algName (NewFileHasher env algs algName)"
  using assms NewDefault_ok
  by (auto simp: good_env_def alg_valid_def NewFileHasher_def newHasherInstance_def
      split: option.splits init_func.splits)

lemma hash_seq_valid:
  "good_env env \<Longrightarrow> alg_valid algs algName h \<Longrightarrow>
   \<exists>g rs. hash_seq env h fs = Some (g, rs) \<and> list_all2 (right_result env (alg_digest env algs algName)) fs rs"
proof (induction fs arbitrary: h)
  case (Cons f fs)
  from HashFile_valid [OF Cons.prems, of f] obtain g r where
    g: "HashFile env h f = Some (g, r)" "alg_valid algs algName g"
      "right_result env (alg_digest env algs algName) f r" by blast
  from Cons.IH [OF Cons.prems(1) g(2)] g show ?case by auto
qed simp

text \<open>The hash of a file as a worker computes it, the argument of the pipeline.\<close>

definition worker_hash :: "hash_env \<Rightarrow> registry \<Rightarrow> string \<Rightarrow> string \<Rightarrow> go_error + string" where
  "worker_hash env algs algName f =
     (case HashFile env (NewFileHasher env algs algName) f of
        Some (h, Ok hsum) \<Rightarrow> Inr hsum
      | Some (h, Fail e) \<Rightarrow> Inl e
      | _ \<Rightarrow> Inl (ErrNew ''hash''))"

text \<open>
  Property C11. One hasher serves any number of files: for every registered algorithm, and the
  default one for an unregistered name, the hasher a worker makes returns for each file of any
  sequence the hexadecimal digest of exactly that file's bytes, and an error for a file that
  cannot be read; no earlier file or error has an effect on a later result, and no call hangs
  or panics.
\<close>

theorem hasher_results_independent:
  assumes "good_env env"
  shows "\<exists>g rs. hash_seq env (NewFileHasher env algs algName) fs = Some (g, rs) \<and>
    list_all2 (right_result env (alg_digest env algs algName)) fs rs"
  using hash_seq_valid [OF assms NewFileHasher_valid [OF assms]] .

abbreviation demo_hash_env :: hash_env where
  "demo_hash_env \<equiv> \<lparr>he_digest = \<lambda>alg data. rev data, he_lib = tiny_lib, he_junk = zeros BLOCKSIZE,
     he_file = Map.empty(''f'' \<mapsto> ''ab'', ''g'' \<mapsto> ''c'')\<rparr>"

theorem hasher_results_independent_witness:
  "\<exists>g rs. hash_seq demo_hash_env (NewFileHasher demo_hash_env (bee2_init hasher_init) ''BEE2'') [''f'', ''x'', ''g''] =
     Some (g, rs) \<and>
   list_all2 (right_result demo_hash_env (alg_digest demo_hash_env (bee2_init hasher_init) ''BEE2''))
     [''f'', ''x'', ''g''] rs"
  by (rule hasher_results_independent) (use tiny_lib in \<open>auto simp: good_env_def\<close>)

text \<open>
  Registering an algorithm changes exactly the names that equal it in lower case;
  the registry of the program's start knows the six standard algorithms, under their names in
  any case, and every other name, \<open>bee2\<close> in a build without its tag included, selects SHA-256
  without an error.
\<close>

lemma registry_lookup:
  "NewFileHasher env (fst (RegisterAlg algs name f)) m =
     (if to_lower m = to_lower name then call_init env f else NewFileHasher env algs m) \<and>
   NewFileHasher env hasher_init m = StdHash
     (if to_lower m = ''md5'' then MD5 else if to_lower m = ''sha1'' then SHA1
      else if to_lower m = ''sha224'' then SHA224 else if to_lower m = ''sha384'' then SHA384
      else if to_lower m = ''sha512'' then SHA512 else SHA256) []"
proof -
  have l: "to_lower ''md5'' = ''md5''" "to_lower ''sha1'' = ''sha1''" "to_lower ''sha224'' = ''sha224''"
    "to_lower ''sha256'' = ''sha256''" "to_lower ''sha384'' = ''sha384''" "to_lower ''sha512'' = ''sha512''"
    by code_simp+
  show ?thesis
    by (simp add: NewFileHasher_def newHasherInstance_def RegisterAlg_def hasher_init_def l)
qed

end
