(* ===== verification/Controller_History.thy ===== *)
theory Controller_History
  imports Controller_Settles
begin

text \<open>
  Histories of the cluster: reconciliations of any resources, with failing calls of the store, among
  what users do to the resources. As long as no status update is lost, what the status of a resource
  says is true at every moment unless its image or algorithm was edited meanwhile; a lost status update
  can be hidden by a second edit.
\<close>

subsection \<open>The steps of a history\<close>

text \<open>A call of the store, failed or not, changes at most the object that it names.\<close>

definition own_object_only :: "'w minio_client \<Rightarrow> 'w oview \<Rightarrow> bool" where
  "own_object_only c oview \<longleftrightarrow>
     (\<forall>b n d w k. k \<noteq> (b, n) \<longrightarrow> oview (fst (PutObject c b n d w)) k = oview w k) \<and>
     (\<forall>b n w k. k \<noteq> (b, n) \<longrightarrow> oview (fst (RemoveObject c b n w)) k = oview w k)"

definition object_of :: "snapshot \<Rightarrow> string result" where
  "object_of obj = BuildObjectName (sn_Namespace obj) (sn_Image obj) (sn_Algorithm obj)"

text \<open>The resource shares its object with no other.\<close>

definition own_object :: "(request \<Rightarrow> snapshot option) \<Rightarrow> snapshot \<Rightarrow> bool" where
  "own_object rs obj \<longleftrightarrow>
     (\<forall>q b n. rs q = Some b \<longrightarrow> q \<noteq> sn_key obj \<longrightarrow> object_of b = Ok n \<longrightarrow> object_of obj \<noteq> Ok n)"

text \<open>
  Beside the world a history keeps a set of resources, for the statements alone: those whose image or
  algorithm a user has edited since the controller last changed the resource.
\<close>

definition still_edited :: "'w sview \<Rightarrow> request \<Rightarrow> 'w \<Rightarrow> 'w \<Rightarrow> request set \<Rightarrow> request set" where
  "still_edited sview req w w' E = (if sview w' req = sview w req then E else E - {req})"

text \<open>
  Users may edit everything in the specification of any resource, uploaded or not, as long as no two
  resources come to share an object; the status is a subresource that they do not write.
\<close>

inductive cluster_step ::
    "'w ctrl_env \<Rightarrow> 'w minio_client \<Rightarrow> 'w sview \<Rightarrow> 'w oview \<Rightarrow> 'w \<times> request set \<Rightarrow> 'w \<times> request set \<Rightarrow> bool"
  for env c sview oview where
  reconciled: "reconcile_with env (Some c) req w = (w', r) \<Longrightarrow>
    cluster_step env c sview oview (w, E) (w', still_edited sview req w w' E)"
| created: "sview w (sn_key obj) = None \<Longrightarrow> own_object (sview w) obj \<Longrightarrow> \<not> sn_IsUploaded obj \<Longrightarrow>
    sview w' = (sview w)(sn_key obj \<mapsto> obj) \<Longrightarrow> oview w' = oview w \<Longrightarrow>
    cluster_step env c sview oview (w, E) (w', E)"
| hashes_edited: "sview w req = Some obj \<Longrightarrow>
    sview w' = (sview w)(req \<mapsto> obj\<lparr>sn_Base64Hashes := h\<rparr>) \<Longrightarrow> oview w' = oview w \<Longrightarrow>
    cluster_step env c sview oview (w, E) (w', E)"
| image_edited: "sview w req = Some obj \<Longrightarrow>
    own_object (sview w) (obj\<lparr>sn_Base64Hashes := h, sn_Image := i, sn_Algorithm := a\<rparr>) \<Longrightarrow>
    sview w' = (sview w)(req \<mapsto> obj\<lparr>sn_Base64Hashes := h, sn_Image := i, sn_Algorithm := a\<rparr>) \<Longrightarrow>
    oview w' = oview w \<Longrightarrow> cluster_step env c sview oview (w, E) (w', insert req E)"
| deletion_requested: "sview w req = Some obj \<Longrightarrow>
    sview w' = (sview w)(req \<mapsto> obj\<lparr>sn_Deleting := True\<rparr>) \<Longrightarrow> oview w' = oview w \<Longrightarrow>
    cluster_step env c sview oview (w, E) (w', E)"
| vanished: "sview w' = (sview w)(req := None) \<Longrightarrow> oview w' = oview w \<Longrightarrow>
    cluster_step env c sview oview (w, E) (w', E)"

inductive_cases cluster_stepE: "cluster_step env c sview oview s t"

text \<open>What a status says, up to a collision of md5: the hashes with the control hash are in the store.\<close>

definition truthful :: "'w ctrl_env \<Rightarrow> (string \<times> string \<Rightarrow> string option) \<Rightarrow> snapshot \<Rightarrow> bool" where
  "truthful env os obj \<longleftrightarrow>
     (\<exists>name data h. object_of obj = Ok name \<and> base64_DecodeString h = Ok data \<and>
        md5hash env h = sn_ControlHash obj \<and> os (DefaultBucketName, name) = Some data)"

text \<open>No two resources share an object.\<close>

definition objects_apart :: "(request \<Rightarrow> snapshot option) \<Rightarrow> bool" where
  "objects_apart rs \<longleftrightarrow>
     (\<forall>p q a b n. rs p = Some a \<longrightarrow> rs q = Some b \<longrightarrow> object_of a = Ok n \<longrightarrow> object_of b = Ok n \<longrightarrow> p = q)"

lemma objects_apartD:
  "objects_apart rs \<Longrightarrow> rs p = Some a \<Longrightarrow> rs q = Some b \<Longrightarrow> object_of a = Ok n \<Longrightarrow> object_of b = Ok n \<Longrightarrow> p = q"
  unfolding objects_apart_def by blast

lemma objects_apart_new:
  assumes "objects_apart rs" and "own_object rs obj" and "sn_key obj = req"
  shows "objects_apart (rs(req \<mapsto> obj))"
proof -
  have "object_of b \<noteq> Ok n" if "rs q = Some b" "q \<noteq> req" "object_of obj = Ok n" for q b n
    using assms(2,3) that unfolding own_object_def by metis
  then show ?thesis
    unfolding objects_apart_def using objects_apartD [OF assms(1)] by (metis fun_upd_apply option.inject)
qed

lemma objects_apart_same:
  assumes "objects_apart rs" and "rs req = Some old" and "object_of obj = object_of old"
  shows "objects_apart (rs(req \<mapsto> obj))"
  unfolding objects_apart_def using objects_apartD [OF assms(1)] assms(2,3) by (metis fun_upd_apply option.inject)

lemma objects_apart_gone: "objects_apart rs \<Longrightarrow> objects_apart (rs(req := None))"
  unfolding objects_apart_def by (metis fun_upd_apply option.distinct(1))

definition cluster_inv :: "'w ctrl_env \<Rightarrow> 'w sview \<Rightarrow> 'w oview \<Rightarrow> 'w \<times> request set \<Rightarrow> bool" where
  "cluster_inv env sview oview s \<longleftrightarrow> objects_apart (sview (fst s)) \<and>
     (\<forall>req obj. sview (fst s) req = Some obj \<longrightarrow> sn_key obj = req \<and>
        (\<not> sn_Deleting obj \<longrightarrow> sn_IsUploaded obj \<longrightarrow> req \<notin> snd s \<longrightarrow> truthful env (oview (fst s)) obj))"

lemma truthful_other:
  "truthful env os obj \<Longrightarrow> (\<And>name. object_of obj = Ok name \<Longrightarrow> os' (DefaultBucketName, name) = os (DefaultBucketName, name)) \<Longrightarrow>
   truthful env os' obj"
  unfolding truthful_def by metis

text \<open>One resource changes or goes, and at most its own object changes.\<close>

lemma cluster_inv_change:
  assumes inv: "cluster_inv env sview oview (w, E)" and s: "sview w' = (sview w)(req := new)"
    and apart: "objects_apart ((sview w)(req := new))" and E: "E - {req} \<subseteq> E'"
    and others: "\<And>k q b. k \<noteq> req \<Longrightarrow> sview w k = Some b \<Longrightarrow> object_of b = Ok q \<Longrightarrow>
      oview w' (DefaultBucketName, q) = oview w (DefaultBucketName, q)"
    and own: "\<And>obj. new = Some obj \<Longrightarrow> sn_key obj = req \<and>
      (\<not> sn_Deleting obj \<longrightarrow> sn_IsUploaded obj \<longrightarrow> req \<notin> E' \<longrightarrow> truthful env (oview w') obj)"
  shows "cluster_inv env sview oview (w', E')"
proof -
  have "sn_key b = k \<and> (\<not> sn_Deleting b \<longrightarrow> sn_IsUploaded b \<longrightarrow> k \<notin> E' \<longrightarrow> truthful env (oview w') b)"
    if b: "sview w' k = Some b" for k b
  proof (cases "k = req")
    case True
    with own b s show ?thesis by simp
  next
    case False
    with b s have old: "sview w k = Some b" by simp
    have "k \<notin> E' \<Longrightarrow> k \<notin> E" using E False by blast
    with inv old have "sn_key b = k" "\<not> sn_Deleting b \<longrightarrow> sn_IsUploaded b \<longrightarrow> k \<notin> E' \<longrightarrow> truthful env (oview w) b"
      unfolding cluster_inv_def by auto
    with truthful_other [of env "oview w" b "oview w'"] others [OF False old] show ?thesis by blast
  qed
  with apart show ?thesis unfolding cluster_inv_def by (simp add: s)
qed

lemma cluster_inv_same_object:
  assumes inv: "cluster_inv env sview oview (w, E)" and obj: "sview w req = Some obj"
    and s: "sview w' = (sview w)(req := new)" and E: "E - {req} \<subseteq> E'"
    and o: "\<And>q. object_of obj \<noteq> Ok q \<Longrightarrow> oview w' (DefaultBucketName, q) = oview w (DefaultBucketName, q)"
    and new: "\<And>x. new = Some x \<Longrightarrow> object_of x = object_of obj \<and> sn_key x = req \<and>
      (\<not> sn_Deleting x \<longrightarrow> sn_IsUploaded x \<longrightarrow> req \<notin> E' \<longrightarrow> truthful env (oview w') x)"
  shows "cluster_inv env sview oview (w', E')"
proof (rule cluster_inv_change [OF inv s _ E])
  have apart: "objects_apart (sview w)" using inv by (simp add: cluster_inv_def)
  show "objects_apart ((sview w)(req := new))"
    using objects_apart_gone [OF apart] objects_apart_same [OF apart obj] new by (cases new) auto
  show "oview w' (DefaultBucketName, q) = oview w (DefaultBucketName, q)"
    if "k \<noteq> req" "sview w k = Some b" "object_of b = Ok q" for k q b
    using objects_apartD [OF apart that(2) obj that(3)] that(1) by (intro o) auto
qed (use new in blast)

lemma cluster_inv_cong:
  "sview w' = sview w \<Longrightarrow> oview w' = oview w \<Longrightarrow>
   cluster_inv env sview oview (w', E) = cluster_inv env sview oview (w, E)"
  by (simp add: cluster_inv_def)

lemma still_edited_covers: "E - {req} \<subseteq> still_edited sview req w w' E"
  and still_edited_same: "sview w' = sview w \<Longrightarrow> still_edited sview req w w' E = E"
  and still_edited_none: "still_edited sview req w w' {} = {}"
  by (auto simp: still_edited_def)

subsection \<open>What one reconciliation does\<close>

lemma with_storage_world: "fst (with_storage (Some c) f w) = fst (f c w)"
  by (auto simp: with_storage_def split: prod.splits option.splits)

lemma storage_world:
  "fst (storage_Save c b n d w) = fst (PutObject c b n d w)"
  "fst (storage_Remove c b n w) = fst (RemoveObject c b n w)"
  by (auto simp: storage_Save_def storage_Remove_def split: prod.splits option.splits)

lemma store_local:
  assumes "own_object_only c oview" and "k \<noteq> (b, n)"
  shows "oview (fst (storage_Save c b n d w)) k = oview w k"
    and "oview (fst (storage_Remove c b n w)) k = oview w k"
  using assms unfolding own_object_only_def storage_world by blast+

lemma upload_local:
  assumes "own_object_only c oview" and "sn_Namespace obj = rq_Namespace req" and "object_of obj \<noteq> Ok q"
  shows "oview (fst (uploadSnapshot (Some c) obj req w)) (DefaultBucketName, q) = oview w (DefaultBucketName, q)"
  using assms
  by (auto simp: uploadSnapshot_def object_of_def with_storage_world store_local split: result.splits)

lemma remove_local:
  assumes "own_object_only c oview" and "object_of obj \<noteq> Ok q"
  shows "oview (fst (removeSnapshot (Some c) obj w)) (DefaultBucketName, q) = oview w (DefaultBucketName, q)"
  using assms
  by (auto simp: removeSnapshot_def object_of_def with_storage_world store_local split: result.splits)

lemma upload_panic: "uploadSnapshot (Some c) obj req w = (w', Panic m) \<Longrightarrow> w' = w"
  by (auto simp: uploadSnapshot_def with_storage_def split: result.splits prod.splits option.splits)

text \<open>The controller in a cluster whose status updates take effect.\<close>

locale controller_world =
  fixes env :: "'w ctrl_env" and c :: "'w minio_client" and sview :: "'w sview" and oview :: "'w oview"
  assumes client: "client_ok c oview" and resources: "keeps_resources c sview"
    and local: "own_object_only c oview" and kube: "kube_ok (ce_kube env) sview oview"
    and status: "snd (kb_StatusUpdate (ce_kube env) obj w) = None"
begin

lemma status_update: "kb_StatusUpdate (ce_kube env) obj w = (w', e) \<Longrightarrow>
    e = None \<and> oview w' = oview w \<and> sview w' = (sview w)(sn_key obj \<mapsto> obj)"
  using status [of obj w] kube_status [OF kube, of obj w w' e] by simp

text \<open>A reconciliation changes nothing, or the one resource as follows, and at most its object.\<close>

lemma deletion_local:
  assumes "sview w req = Some obj" and "sn_key obj = req" and "sn_Deleting obj"
    and "deleteSnapshot env (Some c) obj w = (w', r)"
  shows "\<exists>new. sview w' = (sview w)(req := new) \<and> new \<in> {None, Some obj, Some (RemoveFinalizer obj finalizerName)} \<and>
    (\<forall>q. object_of obj \<noteq> Ok q \<longrightarrow> oview w' (DefaultBucketName, q) = oview w (DefaultBucketName, q))"
proof -
  obtain v r2 where rm: "removeSnapshot (Some c) obj w = (v, r2)" by (rule prod.exhaust)
  have v: "sview v = sview w" "\<And>q. object_of obj \<noteq> Ok q \<Longrightarrow> oview v (DefaultBucketName, q) = oview w (DefaultBucketName, q)"
    using remove_effect [OF client resources rm] remove_local [OF local, of obj _ w] rm by auto
  have same: "(sview w)(req := Some obj) = sview w" using assms(1) by (simp add: fun_upd_idem)
  show ?thesis
  proof (cases r2)
    case (Ok u)
    obtain v' e where up: "kb_Update (ce_kube env) (RemoveFinalizer obj finalizerName) v = (v', e)" by (rule prod.exhaust)
    have "sn_key (RemoveFinalizer obj finalizerName) = req" using assms(2) by (simp add: RemoveFinalizer_def sn_key_def)
    moreover have "w' = v'" using assms(4) rm Ok up by (auto simp: deleteSnapshot_def split: option.splits)
    ultimately show ?thesis using kube_update [OF kube up] v same
      by (cases e) (auto intro: exI [of _ "Some obj"])
  qed (use assms(4) rm v same in \<open>auto simp: deleteSnapshot_def intro: exI [of _ "Some obj"]\<close>)
qed

lemma upload_stored:
  assumes "sview w req = Some obj" and "sn_key obj = req" and "uploadSnapshot (Some c) obj req w = (w', Ok u)"
  shows "sview w' = sview w \<and>
    truthful env (oview w') (obj\<lparr>sn_ControlHash := md5hash env (sn_Base64Hashes obj), sn_IsUploaded := True\<rparr>)"
proof -
  have "rq_Namespace req = sn_Namespace obj" using assms(2) by (auto simp: sn_key_def)
  with upload_effect [OF client resources, of obj req w w' "Ok ()"] assms(3) show ?thesis
    by (auto simp: truthful_def stored_for_def object_of_def)
qed

lemma reconcile_inv:
  assumes inv: "cluster_inv env sview oview (w, E)" and r: "reconcile_with env (Some c) req w = (w', r)"
  shows "cluster_inv env sview oview (w', still_edited sview req w w' E)"
proof -
  let ?E = "still_edited sview req w w' E"
  obtain v x where g: "kb_Get (ce_kube env) req w = (v, x)" by (rule prod.exhaust)
  have inv: "cluster_inv env sview oview (v, E)"
    using kube_get [OF kube g] inv by (simp add: cluster_inv_cong [of sview v w])
  have unchanged: "cluster_inv env sview oview (w', ?E)" if "w' = v"
    using inv that kube_get [OF kube g] by (simp add: still_edited_same)
  show ?thesis
  proof (cases x)
    case (Inl err)
    then show ?thesis using r g by (intro unchanged) (simp add: reconcile_with_def)
  next
    case (Inr obj)
    note found = kube_found [OF kube g [unfolded Inr]]
    have obj: "sview v req = Some obj" "sn_key obj = req" using found kube_get [OF kube g] by simp_all
    have ns: "sn_Namespace obj = rq_Namespace req" using obj(2) by (auto simp: sn_key_def)
    consider (deleting) "sn_Deleting obj"
      | (settled) "\<not> sn_Deleting obj" "sn_IsUploaded obj \<and> sn_ControlHash obj = md5hash env (sn_Base64Hashes obj)"
      | (upload) "\<not> sn_Deleting obj" "\<not> (sn_IsUploaded obj \<and> sn_ControlHash obj = md5hash env (sn_Base64Hashes obj))"
      by blast
    then show ?thesis
    proof cases
      case deleting
      then have d: "deleteSnapshot env (Some c) obj v = (w', r)" using r g Inr by (simp add: reconcile_with_def)
      obtain new where n: "sview w' = (sview v)(req := new)"
        "new \<in> {None, Some obj, Some (RemoveFinalizer obj finalizerName)}"
        "\<And>q. object_of obj \<noteq> Ok q \<Longrightarrow> oview w' (DefaultBucketName, q) = oview v (DefaultBucketName, q)"
        using deletion_local [OF obj deleting d] by blast
      show ?thesis
        by (rule cluster_inv_same_object [OF inv obj(1) n(1) still_edited_covers n(3)])
          (use n(2) deleting obj in \<open>auto simp: RemoveFinalizer_def object_of_def sn_key_def\<close>)
    next
      case settled
      then show ?thesis using r g Inr by (intro unchanged) (simp add: reconcile_with_def)
    next
      case upload
      obtain u y where up: "uploadSnapshot (Some c) obj req v = (u, y)" by (rule prod.exhaust)
      note rec = reconcile_unsettled [OF g [unfolded Inr] upload up]
      have su: "sview u = sview v" using upload_effect [OF client resources up] by simp
      have ou: "oview u (DefaultBucketName, q) = oview v (DefaultBucketName, q)" if "object_of obj \<noteq> Ok q" for q
        using upload_local [OF local ns that, of v] up by simp
      have written: "cluster_inv env sview oview (t, still_edited sview req w t E)"
        if "sview t = (sview u)(req \<mapsto> z)" "oview t = oview u" "object_of z = object_of obj" "sn_key z = req"
          "sn_IsUploaded z \<longrightarrow> truthful env (oview u) z" for t z
        by (rule cluster_inv_same_object [OF inv obj(1) _ still_edited_covers, where new = "Some z"]) (use that su ou in auto)
      show ?thesis
      proof (cases y)
        case (Panic m)
        then show ?thesis using rec r upload_panic [of c obj req v u m] up by (intro unchanged) simp
      next
        case (Fail err)
        obtain t e where st: "kb_StatusUpdate (ce_kube env) (obj\<lparr>sn_IsUploaded := False\<rparr>) u = (t, e)" by (rule prod.exhaust)
        have "w' = t" using rec r Fail st by simp
        then show ?thesis
          using written [of t "obj\<lparr>sn_IsUploaded := False\<rparr>"] status_update [OF st] obj(2)
          by (simp add: object_of_def sn_key_def)
      next
        case (Ok _)
        let ?z = "obj\<lparr>sn_ControlHash := md5hash env (sn_Base64Hashes obj), sn_IsUploaded := True\<rparr>"
        obtain t e where st: "kb_StatusUpdate (ce_kube env) ?z u = (t, e)" by (rule prod.exhaust)
        have "w' = t" using rec r Ok st status_update [OF st] by simp
        then show ?thesis
          using written [of t ?z] status_update [OF st] obj(2) upload_stored [OF obj] up Ok
          by (simp add: object_of_def sn_key_def)
      qed
    qed
  qed
qed

lemma step_inv:
  assumes step: "cluster_step env c sview oview s t" and "cluster_inv env sview oview s"
  shows "cluster_inv env sview oview t"
  using step
proof (cases rule: cluster_step.cases)
  case (reconciled req w w' r E)
  then show ?thesis using reconcile_inv assms(2) by simp
next
  case (created w obj w' E)
  with assms(2) have inv: "cluster_inv env sview oview (w, E)" by simp
  show ?thesis unfolding created(2)
    by (rule cluster_inv_change [OF inv created(6)])
      (use created inv objects_apart_new in \<open>auto simp: cluster_inv_def\<close>)
next
  case (hashes_edited w req obj w' h E)
  with assms(2) have inv: "cluster_inv env sview oview (w, E)" by simp
  show ?thesis unfolding hashes_edited(2)
    by (rule cluster_inv_same_object [OF inv hashes_edited(3,4)])
      (use hashes_edited inv in \<open>auto simp: cluster_inv_def object_of_def sn_key_def truthful_def\<close>)
next
  case (image_edited w req obj a i h w' E)
  with assms(2) have inv: "cluster_inv env sview oview (w, E)" by simp
  let ?new = "obj\<lparr>sn_Base64Hashes := h, sn_Image := i, sn_Algorithm := a\<rparr>"
  have "sn_key ?new = req" using inv image_edited(3) by (auto simp: cluster_inv_def sn_key_def)
  moreover have "objects_apart (sview w)" using inv by (simp add: cluster_inv_def)
  ultimately show ?thesis unfolding image_edited(2)
    by (intro cluster_inv_change [OF inv image_edited(5)]) (use objects_apart_new image_edited in auto)
next
  case (deletion_requested w req obj w' E)
  with assms(2) have inv: "cluster_inv env sview oview (w, E)" by simp
  show ?thesis unfolding deletion_requested(2)
    by (rule cluster_inv_same_object [OF inv deletion_requested(3,4)])
      (use deletion_requested inv in \<open>auto simp: cluster_inv_def object_of_def sn_key_def\<close>)
next
  case (vanished w' w req E)
  with assms(2) have inv: "cluster_inv env sview oview (w, E)" by simp
  show ?thesis unfolding vanished(2)
    by (rule cluster_inv_change [OF inv vanished(3)])
      (use vanished inv objects_apart_gone in \<open>auto simp: cluster_inv_def\<close>)
qed

end

sublocale controller_world \<subseteq> history: step_invariant "\<lambda>s. sview (fst s) = Map.empty"
    "cluster_step env c sview oview" "cluster_inv env sview oview"
  by unfold_locales (simp add: cluster_inv_def objects_apart_def, rule step_inv)

context controller_world begin

lemma history_inv:
  "reach (\<lambda>s. sview (fst s) = Map.empty) (cluster_step env c sview oview) s \<Longrightarrow> cluster_inv env sview oview s"
  by (rule history.reach_inv)

end

interpretation demo_history: controller_world maps_env maps_client fst snd
  by unfold_locales (use maps_client_ok maps_keeps maps_kube_ok in
    \<open>auto simp: own_object_only_def maps_client_def map_client_def maps_env_def maps_kube_def\<close>)

subsection \<open>Properties\<close>

text \<open>
  Property C22. What the status of a resource says is true in every history, except after an edit of its image
  or algorithm. Start with no resources and let, in any order, users create resources, edit hashes, images
  and algorithms of any of them, uploaded or not, and ask for deletions, and the controller reconcile any
  resources, with uploads and removals that may fail in any way; but let no two resources share an
  object, and let status updates take effect. Then at every moment, whenever a resource that is not
  being deleted says that it is uploaded, and its image and algorithm were not edited since the
  controller last changed it, the store holds under the name of its image the decoded form of hashes
  with the resource's control hash. All three conditions are needed: an edit of the image alone is
  never taken up (\<open>edited_status_false\<close>), and \<open>reverted_edit_not_uploaded\<close> and \<open>shared_object_lost\<close>
  (Tenants) show the other two.
\<close>

theorem status_true_in_every_history:
  assumes "client_ok c oview" and "keeps_resources c sview" and "own_object_only c oview"
    and "kube_ok (ce_kube env) sview oview"
    and "\<And>obj w. snd (kb_StatusUpdate (ce_kube env) obj w) = None"
    and "reach (\<lambda>s. sview (fst s) = Map.empty) (cluster_step env c sview oview) (w, edited)"
    and "sview w req = Some obj" and "\<not> sn_Deleting obj" and "sn_IsUploaded obj" and "req \<notin> edited"
  shows "\<exists>name data h. BuildObjectName (rq_Namespace req) (sn_Image obj) (sn_Algorithm obj) = Ok name \<and>
    base64_DecodeString h = Ok data \<and> md5hash env h = sn_ControlHash obj \<and>
    oview w (DefaultBucketName, name) = Some data"
proof -
  have "controller_world env c sview oview" using assms(1-5) by (rule controller_world.intro)
  from controller_world.history_inv [OF this assms(6)] have "cluster_inv env sview oview (w, edited)" .
  with assms(7-10) have "sn_key obj = req" "truthful env (oview w) obj" unfolding cluster_inv_def by auto
  then show ?thesis by (auto simp: truthful_def object_of_def sn_key_def)
qed

text \<open>
  Property C23. A lost status update can be hidden. Suppose the hashes of a settled resource were edited,
  and the reconciliation that follows returns an error (its status update failed after the upload, as
  when the controller is ended there). If the edit is taken back before the next one, the resource
  looks settled again, and no number of reconciliations touches it; but the store keeps the
  hashes of the edit.
\<close>

theorem reverted_edit_not_uploaded:
  assumes "client_ok c oview" and "keeps_resources c sview" and "kube_ok (ce_kube env) sview oview"
    and get: "\<And>w obj. sview w req = Some obj \<Longrightarrow> sn_key obj = req \<Longrightarrow>
      snd (kb_Get (ce_kube env) req w) = Inr obj"
    and obj: "sn_key obj = req" "\<not> sn_Deleting obj" "sn_IsUploaded obj"
      "sn_ControlHash obj = md5hash env (sn_Base64Hashes obj)"
    and edited: "sview w req = Some (obj\<lparr>sn_Base64Hashes := h\<rparr>)" "md5hash env h \<noteq> sn_ControlHash obj"
    and data: "base64_DecodeString h = Ok data"
    and "reconcile_with env (Some c) req w = (w', Fail err)"
    and reverted: "sview u = (sview w')(req \<mapsto> obj)" "oview u = oview w'"
  shows "\<exists>name. BuildObjectName (rq_Namespace req) (sn_Image obj) (sn_Algorithm obj) = Ok name \<and>
    (\<forall>n. let v = ((\<lambda>v. fst (reconcile_with env (Some c) req v)) ^^ n) u in
       sview v req = Some obj \<and> oview v (DefaultBucketName, name) = Some data)"
proof -
  let ?e = "obj\<lparr>sn_Base64Hashes := h\<rparr>"
  have "sn_key ?e = req" using obj(1) by (simp add: sn_key_def)
  from get [OF edited(1) this] obtain v where g: "kb_Get (ce_kube env) req w = (v, Inr ?e)" by (metis prod.collapse)
  obtain t y where up: "uploadSnapshot (Some c) ?e req v = (t, y)" by (rule prod.exhaust)
  have "\<not> sn_Deleting ?e" "\<not> (sn_IsUploaded ?e \<and> sn_ControlHash ?e = md5hash env (sn_Base64Hashes ?e))"
    using obj(2) edited(2) by auto
  note rec = reconcile_unsettled [OF g this up]
  let ?z = "?e\<lparr>sn_ControlHash := md5hash env (sn_Base64Hashes ?e), sn_IsUploaded := True\<rparr>"
  obtain x e where st: "kb_StatusUpdate (ce_kube env) ?z t = (x, e)" by (rule prod.exhaust)
  have y: "y = Ok ()" and "w' = x" using rec assms(12) st by (auto split: result.splits option.splits)
  then have o: "oview w' = oview t" using kube_status [OF assms(3) st] by simp
  from upload_effect [OF assms(1,2) up] y data obtain name where
    name: "BuildObjectName (rq_Namespace req) (sn_Image obj) (sn_Algorithm obj) = Ok name"
      "oview t (DefaultBucketName, name) = Some data" by (auto simp: stored_for_def)
  have s: "sview u req = Some obj" using reverted(1) by simp
  from settled_iterates [OF assms(3) get s obj, where ms = "Some c"] name o reverted(2) s show ?thesis
    by (intro exI [of _ name]) (simp add: Let_def)
qed

subsection \<open>Witnesses\<close>

definition demo_begin :: maps where
  "demo_begin = (Map.empty(demo_req \<mapsto> demo_snap ''im:1'' False [] False), Map.empty)"

definition demo_later :: maps where
  "demo_later = fst (reconcile_with maps_env (Some maps_client) demo_req demo_begin)"

lemma demo_later_uploaded: "fst demo_later demo_req = Some (demo_snap ''im:1'' True ''5951'' False)"
  by code_simp

lemma demo_later_reached:
  "reach (\<lambda>s. fst (fst s) = Map.empty) (cluster_step maps_env maps_client fst snd) (demo_later, {})"
proof (rule reach_step [OF reach_step [OF reach_init]])
  show "fst (fst ((Map.empty, Map.empty), {})) = Map.empty" by simp
  show "cluster_step maps_env maps_client fst snd ((Map.empty, Map.empty), {}) (demo_begin, {})"
    by (rule cluster_step.created [where obj = "demo_snap ''im:1'' False [] False"])
      (simp_all add: own_object_def demo_begin_def demo_snap_def sn_key_def)
  show "cluster_step maps_env maps_client fst snd (demo_begin, {}) (demo_later, {})"
    using cluster_step.reconciled [of maps_env maps_client demo_req demo_begin demo_later
        "snd (reconcile_with maps_env (Some maps_client) demo_req demo_begin)" fst snd "{}"]
    by (simp add: still_edited_none) (simp add: demo_later_def)
qed

theorem status_true_in_every_history_witness:
  "\<exists>name data h. BuildObjectName ''ns'' ''im:1'' ''SHA256'' = Ok name \<and> base64_DecodeString h = Ok data \<and>
     md5hash maps_env h = ''5951'' \<and> snd demo_later (DefaultBucketName, name) = Some data"
  using status_true_in_every_history [OF maps_client_ok maps_keeps demo_history.local _ _ demo_later_reached
      demo_later_uploaded] demo_history.kube demo_history.status
  by (simp add: demo_snap_def)

text \<open>After an edit of the image alone a resource says that it is uploaded and has no object, reconciled or not.\<close>

definition demo_edited :: maps where
  "demo_edited = ((fst demo_later)(demo_req \<mapsto> demo_snap ''im:2'' True ''5951'' False), snd demo_later)"

lemma edited_status_false:
  "reach (\<lambda>s. fst (fst s) = Map.empty) (cluster_step maps_env maps_client fst snd) (demo_edited, {demo_req}) \<and>
   BuildObjectName ''ns'' ''im:2'' ''SHA256'' = Ok ''ns/im/2.sha256'' \<and>
   snd demo_edited (DefaultBucketName, ''ns/im/2.sha256'') = None \<and>
   snd (fst (reconcile_with maps_env (Some maps_client) demo_req demo_edited)) (DefaultBucketName, ''ns/im/2.sha256'') = None"
proof (intro conjI)
  have only: "fst demo_later q = None" if "q \<noteq> demo_req" for q
  proof -
    let ?obj = "demo_snap ''im:1'' False [] False"
    have get: "snd (kb_Get (ce_kube maps_env) demo_req demo_begin) = Inr ?obj"
      by (simp add: maps_env_def maps_kube_def demo_begin_def demo_snap_def sn_key_def)
    have put: "snd (PutObject maps_client DefaultBucketName ''ns/im/1.sha256'' ''a'' u) = None" for u
      by (simp add: maps_client_def map_client_def)
    have name: "BuildObjectName (rq_Namespace demo_req) (sn_Image ?obj) (sn_Algorithm ?obj) = Ok ''ns/im/1.sha256''"
      "base64_DecodeString (sn_Base64Hashes ?obj) = Ok ''a''" by code_simp+
    have "\<not> sn_Deleting ?obj" "\<not> (sn_IsUploaded ?obj \<and> sn_ControlHash ?obj = md5hash maps_env (sn_Base64Hashes ?obj))"
      by (simp_all add: demo_snap_def)
    from reconcile_uploads [OF maps_client_ok maps_keeps demo_history.kube get demo_history.status put this name]
    have "\<exists>x. fst demo_later = (fst demo_begin)(demo_req \<mapsto> x)" unfolding demo_later_def by force
    with that show ?thesis by (auto simp: demo_begin_def)
  qed
  show "reach (\<lambda>s. fst (fst s) = Map.empty) (cluster_step maps_env maps_client fst snd) (demo_edited, {demo_req})"
  proof (rule reach_step [OF demo_later_reached])
    show "cluster_step maps_env maps_client fst snd (demo_later, {}) (demo_edited, {demo_req})"
      using cluster_step.image_edited [where env = maps_env and c = maps_client and sview = fst and oview = snd and
          w = demo_later and req = demo_req and obj = "demo_snap ''im:1'' True ''5951'' False" and w' = demo_edited and
          E = "{}" and h = "''YQ==''" and i = "''im:2''" and a = "''SHA256''"] demo_later_uploaded only
      by (fastforce simp: demo_edited_def demo_snap_def own_object_def sn_key_def)
  qed
qed code_simp+

definition lost_status_env :: "maps ctrl_env" where
  "lost_status_env = maps_env\<lparr>ce_kube := maps_kube\<lparr>kb_StatusUpdate := \<lambda>obj w. (w, Some ErrCanceled)\<rparr>\<rparr>"

theorem reverted_edit_not_uploaded_witness:
  "let obj = demo_snap ''im:1'' True ''5951'' False;
       w = reconcile_with lost_status_env (Some maps_client) demo_req
         (Map.empty(demo_req \<mapsto> obj\<lparr>sn_Base64Hashes := ''Yg==''\<rparr>), Map.empty((DefaultBucketName, ''ns/im/1.sha256'') \<mapsto> ''a''))
   in \<forall>n. snd (((\<lambda>v. fst (reconcile_with lost_status_env (Some maps_client) demo_req v)) ^^ n)
        ((fst (fst w))(demo_req \<mapsto> obj), snd (fst w))) (DefaultBucketName, ''ns/im/1.sha256'') = Some ''b''"
proof -
  let ?obj = "demo_snap ''im:1'' True ''5951'' False"
  let ?w = "(Map.empty(demo_req \<mapsto> ?obj\<lparr>sn_Base64Hashes := ''Yg==''\<rparr>),
    Map.empty((DefaultBucketName, ''ns/im/1.sha256'') \<mapsto> ''a'')) :: maps"
  let ?r = "reconcile_with lost_status_env (Some maps_client) demo_req ?w"
  have k: "kube_ok (ce_kube lost_status_env) fst snd"
    using maps_kube_ok by (simp add: lost_status_env_def kube_ok_def)
  have get: "snd (kb_Get (ce_kube lost_status_env) demo_req w) = Inr obj"
    if "fst w demo_req = Some obj" "sn_key obj = demo_req" for w obj
    using that by (simp add: lost_status_env_def maps_kube_def)
  have md5: "md5hash lost_status_env ''YQ=='' = ''5951''" "md5hash lost_status_env ''Yg=='' = ''5967''"
    and data: "base64_DecodeString ''Yg=='' = Ok ''b''"
    and name: "BuildObjectName ''ns'' ''im:1'' ''SHA256'' = Ok ''ns/im/1.sha256''"
    and fail: "snd ?r = Fail ErrCanceled" by code_simp+
  have r: "?r = (fst ?r, Fail ErrCanceled)" using fail by (metis prod.collapse)
  show ?thesis
    using reverted_edit_not_uploaded [where c = maps_client and oview = snd and sview = fst
        and env = lost_status_env and req = demo_req and obj = ?obj
        and h = "''Yg==''" and w = ?w and w' = "fst ?r" and err = ErrCanceled and data = "''b''"
        and u = "((fst (fst ?r))(demo_req \<mapsto> ?obj), snd (fst ?r))", OF maps_client_ok maps_keeps k get _ _ _ _ _ _ data r]
      md5 name
    by (simp add: demo_snap_def sn_key_def Let_def)
qed

end
