(* ===== verification/Controller_Main.thy ===== *)
theory Controller_Main
  imports Controller Configs
begin

text \<open>
  The controller's program: snapshot-controller/main.go and \<open>SetupWithManager\<close> of
  controllers/snapshot_controller.go, with the registration of the API's types in api/v1. The
  manager and the schemes are the controller framework's: their calls are fields of \<open>manager_env\<close>
  and \<open>scheme_env\<close>; \<open>'m\<close> are the managers, \<open>'b\<close> the scheme builders and \<open>'s\<close> the schemes. The logger
  is not modelled.
\<close>

subsection \<open>The types of the API\<close>

record group_version =
  gv_Group :: string
  gv_Version :: string

definition GroupVersion :: group_version where
  "GroupVersion = \<lparr>gv_Group = ''integrity.snapshot'', gv_Version = ''v1''\<rparr>"

record ('b, 's) scheme_env =
  sc_Builder :: "group_version \<Rightarrow> 'b"
  sc_Register :: "string list \<Rightarrow> 'b \<Rightarrow> 'b" \<comment> \<open>the types of the objects\<close>
  sc_AddToScheme :: "'b \<Rightarrow> 's \<Rightarrow> 's \<times> go_error option"
  sc_clientgo_AddToScheme :: "'s \<Rightarrow> 's \<times> go_error option"
  sc_NewScheme :: 's

definition SchemeBuilder :: "('b, 's) scheme_env \<Rightarrow> 'b" where
  "SchemeBuilder env = sc_Builder env GroupVersion"

text \<open>\<open>init\<close> of the package changes the builder.\<close>

definition init_types :: "('b, 's) scheme_env \<Rightarrow> 'b \<Rightarrow> 'b" where
  "init_types env b = sc_Register env [''Snapshot'', ''SnapshotList''] b"

text \<open>\<open>AddToScheme\<close> is a method of the builder, which it refers to as it then is.\<close>

definition AddToScheme :: "('b, 's) scheme_env \<Rightarrow> 'b \<Rightarrow> 's \<Rightarrow> 's \<times> go_error option" where
  "AddToScheme env b s = sc_AddToScheme env b s"

text \<open>\<open>utilruntime.Must\<close> panics with an error.\<close>

definition must :: "'s \<times> go_error option \<Rightarrow> 's result" where
  "must r = (case r of (s, Some err) \<Rightarrow> Panic (error_text err) | (s, None) \<Rightarrow> Ok s)"

text \<open>\<open>init\<close> of the program, after that of the package it imports.\<close>

definition init_scheme :: "('b, 's) scheme_env \<Rightarrow> 's result" where
  "init_scheme env =
     (let builder = init_types env (SchemeBuilder env) in
      bind_result (must (sc_clientgo_AddToScheme env (sc_NewScheme env)))
        (\<lambda>scheme. must (AddToScheme env builder scheme)))"

subsection \<open>The program\<close>

definition controller_flags :: flags where
  "controller_flags =
     [(''metrics-bind-address'', FString '':8080''),
      (''health-probe-bind-address'', FString '':8081''),
      (''leader-elect'', FBool False),
      (''minio-host'', FString ''minio.minio.svc.cluster.local:9000''),
      (''v'', FInt 0)]"

record 's manager_options =
  mo_Scheme :: 's
  mo_MetricsBindAddress :: string
  mo_Port :: int
  mo_HealthProbeBindAddress :: string
  mo_LeaderElection :: bool
  mo_LeaderElectionID :: string

record ('w, 'm, 's) manager_env =
  ge_GetConfig :: "go_error option"
  ge_NewManager :: "'s manager_options \<Rightarrow> 'w \<Rightarrow> 'w \<times> (go_error + 'm)"
  ge_Complete :: "'m \<Rightarrow> string \<Rightarrow> 'w \<Rightarrow> 'w \<times> go_error option" \<comment> \<open>the builder, with the type it watches\<close>
  ge_AddHealthzCheck :: "'m \<Rightarrow> string \<Rightarrow> 'w \<Rightarrow> 'w \<times> go_error option"
  ge_AddReadyzCheck :: "'m \<Rightarrow> string \<Rightarrow> 'w \<Rightarrow> 'w \<times> go_error option"
  ge_Start :: "'m \<Rightarrow> string \<Rightarrow> 'w \<Rightarrow> 'w \<times> go_error option" \<comment> \<open>with the MinIO host that viper holds then\<close>

definition SetupWithManager :: "('w, 'm, 's) manager_env \<Rightarrow> 'm \<Rightarrow> 'w \<Rightarrow> 'w \<times> go_error option" where
  "SetupWithManager env mgr w = ge_Complete env mgr ''Snapshot'' w"

definition manager_options_of :: "'s \<Rightarrow> lookup \<Rightarrow> 's manager_options" where
  "manager_options_of scheme v =
     \<lparr>mo_Scheme = scheme, mo_MetricsBindAddress = GetString v ''metrics-bind-address'', mo_Port = 9443,
      mo_HealthProbeBindAddress = GetString v ''health-probe-bind-address'',
      mo_LeaderElection = GetBool v ''leader-elect'', mo_LeaderElectionID = ''8c851b39.integrity''\<rparr>"

text \<open>The world when the process ends, and its exit status; a panic gives status 2.\<close>

definition controller_main ::
    "('b, 's) scheme_env \<Rightarrow> ('w, 'm, 's) manager_env \<Rightarrow> lookup \<Rightarrow> 'w \<Rightarrow> 'w \<times> int" where
  "controller_main schemes env v w =
     (case init_scheme schemes of
        Panic m \<Rightarrow> (w, 2)
      | Fail err \<Rightarrow> (w, 2)
      | Ok scheme \<Rightarrow>
     (let minioHost = GetString v ''minio-host'' in
      case ge_GetConfig env of
        Some err \<Rightarrow> (w, 1)
      | None \<Rightarrow>
     (case ge_NewManager env (manager_options_of scheme v) w of
        (w, Inl err) \<Rightarrow> (w, 1)
      | (w, Inr mgr) \<Rightarrow>
     (case SetupWithManager env mgr w of
        (w, Some err) \<Rightarrow> (w, 1)
      | (w, None) \<Rightarrow>
     (case ge_AddHealthzCheck env mgr ''healthz'' w of
        (w, Some err) \<Rightarrow> (w, 1)
      | (w, None) \<Rightarrow>
     (case ge_AddReadyzCheck env mgr ''readyz'' w of
        (w, Some err) \<Rightarrow> (w, 1)
      | (w, None) \<Rightarrow>
     (case ge_Start env mgr minioHost w of
        (w, Some err) \<Rightarrow> (w, 1)
      | (w, None) \<Rightarrow> (w, 0))))))))"

lemma must_Ok_iff: "must r = Ok s \<longleftrightarrow> r = (s, None)"
  by (auto simp: must_def split: prod.splits option.splits)

text \<open>
  The process ends well exactly if every step did; nothing is reconciled (the manager is not
  started) unless the scheme knows the cluster's types and then those of the API, and the
  controller and both checks are registered with the manager.
\<close>

lemma controller_main_ends_well:
  "snd (controller_main schemes env v w) = 0 \<longleftrightarrow>
     (\<exists>base scheme mgr w1 w2 w3 w4 w5.
        sc_clientgo_AddToScheme schemes (sc_NewScheme schemes) = (base, None) \<and>
        sc_AddToScheme schemes (sc_Register schemes [''Snapshot'', ''SnapshotList'']
          (sc_Builder schemes \<lparr>gv_Group = ''integrity.snapshot'', gv_Version = ''v1''\<rparr>)) base = (scheme, None) \<and>
        ge_GetConfig env = None \<and>
        ge_NewManager env (manager_options_of scheme v) w = (w1, Inr mgr) \<and>
        SetupWithManager env mgr w1 = (w2, None) \<and>
        ge_AddHealthzCheck env mgr ''healthz'' w2 = (w3, None) \<and>
        ge_AddReadyzCheck env mgr ''readyz'' w3 = (w4, None) \<and>
        ge_Start env mgr (GetString v ''minio-host'') w4 = (w5, None))"
proof -
  have init: "init_scheme schemes = Ok scheme \<longleftrightarrow> (\<exists>base.
      sc_clientgo_AddToScheme schemes (sc_NewScheme schemes) = (base, None) \<and>
      sc_AddToScheme schemes (sc_Register schemes [''Snapshot'', ''SnapshotList'']
        (sc_Builder schemes \<lparr>gv_Group = ''integrity.snapshot'', gv_Version = ''v1''\<rparr>)) base = (scheme, None))" for scheme
    by (simp add: init_scheme_def Let_def bind_result_Ok_iff must_Ok_iff AddToScheme_def init_types_def
        SchemeBuilder_def GroupVersion_def)
  have "snd (controller_main schemes env v w) = 0 \<longleftrightarrow>
      (\<exists>scheme mgr w1 w2 w3 w4 w5. init_scheme schemes = Ok scheme \<and> ge_GetConfig env = None \<and>
        ge_NewManager env (manager_options_of scheme v) w = (w1, Inr mgr) \<and>
        SetupWithManager env mgr w1 = (w2, None) \<and>
        ge_AddHealthzCheck env mgr ''healthz'' w2 = (w3, None) \<and>
        ge_AddReadyzCheck env mgr ''readyz'' w3 = (w4, None) \<and>
        ge_Start env mgr (GetString v ''minio-host'') w4 = (w5, None))"
    by (auto simp: controller_main_def Let_def split: result.splits option.splits prod.splits sum.splits)
  then show ?thesis unfolding init by blast
qed

text \<open>
  Both programs read the MinIO host from a flag of the same name and with the same default, so that
  an installation that sets neither has monitor and controller at the same store.
\<close>

lemma same_default_host:
  assumes "given ''minio-host'' = None"
  shows "GetString (viper_lookup given controller_flags) ''minio-host'' =
    GetString (viper_lookup given (config_flags numCPU @ minio_flags)) ''minio-host''"
  using assms by (simp add: GetString_def lookup_default controller_flags_def config_flags_def minio_flags_def)

end
