(* ===== verification/Logger.thy ===== *)
theory Logger
  imports Configs Go_Errors
begin

text \<open>
  The log level: \<open>Init\<close> of internal/logger/logger.go, which the monitor uses, and \<open>initLog\<close> of
  cmd/snapshot/main.go. \<open>logrus.ParseLevel\<close> is third-party code and an argument; like other Go
  functions it returns a level also beside an error. What is logged is not modelled.
\<close>

datatype level = PanicLevel | FatalLevel | ErrorLevel | WarnLevel | InfoLevel | DebugLevel | TraceLevel

type_synonym parse_level = "string \<Rightarrow> level \<times> go_error option"

definition logger_Init :: "parse_level \<Rightarrow> string \<Rightarrow> level" where
  "logger_Init parseLevel ll = (if 0 < length ll then fst (parseLevel ll) else InfoLevel)"

definition initLog :: "parse_level \<Rightarrow> lookup \<Rightarrow> level" where
  "initLog parseLevel v =
     (case parseLevel (GetString v ''verbose'') of
        (lvl, Some err) \<Rightarrow> InfoLevel
      | (lvl, None) \<Rightarrow> lvl)"

text \<open>
  The two programs agree on every level that can be parsed. On one that cannot, the snapshot tool
  falls back to the info level, the monitor takes the level that came with the error, by Go's
  convention the zero value, which silences everything but panics.
\<close>

lemma levels_agree:
  assumes "GetString v ''verbose'' \<noteq> []"
  shows "logger_Init parseLevel (GetString v ''verbose'') = initLog parseLevel v \<longleftrightarrow>
    snd (parseLevel (GetString v ''verbose'')) = None \<or> fst (parseLevel (GetString v ''verbose'')) = InfoLevel"
  using assms by (auto simp: logger_Init_def initLog_def split: prod.splits option.splits)

lemma unknown_level_silences:
  "ll \<noteq> [] \<Longrightarrow> parseLevel ll = (PanicLevel, Some err) \<Longrightarrow> logger_Init parseLevel ll = PanicLevel"
  by (simp add: logger_Init_def)

end
