(* ===== verification/Snapshot_Main.thy ===== *)
theory Snapshot_Main
  imports Snapshot Configs
begin

text \<open>
  The snapshot program: cmd/snapshot/main.go, which reads its flags, runs
  \<open>CalculateAndWriteHashes\<close> and logs its error, and the timeout of \<open>HashDir\<close>. The log level that
  \<open>initLog\<close> sets changes nothing else.
\<close>

definition snapshot_config_of :: "lookup \<Rightarrow> snapshot_config" where
  "snapshot_config_of v =
     \<lparr>sc_root_fs = GetString v ''root-fs'', sc_dir = GetStringSlice v ''dir'', sc_out = GetString v ''out'',
      sc_algorithm = GetString v ''algorithm''\<rparr>"

text \<open>The files afterwards and the exit status of the process.\<close>

definition snapshot_main ::
    "snapshot_env \<Rightarrow> lookup \<Rightarrow> (string \<Rightarrow> string option) \<Rightarrow> (string \<Rightarrow> string option) \<times> int" where
  "snapshot_main env v files =
     (case CalculateAndWriteHashes env (snapshot_config_of v) files of
        (files', Some err) \<Rightarrow> (files', 0) \<comment> \<open>the error is logged\<close>
      | (files', None) \<Rightarrow> (files', 0))"

text \<open>
  What a run of the pipeline can hand to its consumer when the timeout may end it: the context is
  then done, and the channel is closed all the same.
\<close>

definition timed_output ::
    "(string \<Rightarrow> go_error + string) \<Rightarrow> nat \<Rightarrow> string list list \<Rightarrow> file_hash list \<Rightarrow> bool" where
  "timed_output hash n names hashes \<longleftrightarrow>
     (\<exists>s. reach (pool_init n names) (pool_env_step hash) s \<and> p_hash_closed s \<and> p_buf s = [] \<and>
        p_received s = hashes)"

lemma timed_out_empty: "timed_output hash n names []"
proof -
  obtain p where p: "pool_init n names p" by (auto simp: pool_init_def WorkersPool_def)
  let ?c = "p\<lparr>p_cancelled := True\<rparr>"
  have idle: "pool_idle ?c"
    using p by (auto simp: pool_init_def WorkersPool_def pool_idle_def list_all_iff)
  from idle.reaches_final [OF idle] obtain k q where
    run: "run (idle_step hash) ?c k q" and closed: "p_hash_closed q" by blast
  have q: "pool_idle q" using idle.run_inv [OF run idle] .
  have "reach (pool_init n names) (pool_env_step hash) p" using p by (rule reach_init)
  then have "reach (pool_init n names) (pool_env_step hash) ?c" by (rule reach_step) (rule env_cancel)
  moreover have "run (pool_env_step hash) ?c k q"
    using run by (induction rule: run.induct)
      (auto intro: run.intros env_step simp: idle_step_def quiet_step_def)
  ultimately have "reach (pool_init n names) (pool_env_step hash) q" by (rule reach_run)
  with closed q show ?thesis by (auto simp: timed_output_def pool_idle_def)
qed

lemma hash_dirs_empty:
  "list_all (\<lambda>v. se_stat env (rootPath @ v) = None) dirs \<Longrightarrow> se_pool env alg = (\<lambda>names. []) \<Longrightarrow>
   hash_dirs env rootPath alg dirs hashes = Inr hashes"
  by (induction dirs arbitrary: hashes) (simp_all add: HashDir_def)

text \<open>
  A scan that takes longer than \<open>scan-dir-timeout\<close> goes unnoticed: for every tree there
  is a run of the pipeline, ended by the timeout, that hands over no hash, and if that happens the
  tool writes an empty baseline, reports no error and exits with status 0, as it does after any
  error. The monitor will then take every file for a new one.
\<close>

lemma timeout_truncates_silently:
  assumes "se_create env (sc_out (snapshot_config_of v)) = None"
    and "list_all (\<lambda>dir. se_stat env ((sc_root_fs (snapshot_config_of v) @ ''/'') @ dir) = None)
      (sc_dir (snapshot_config_of v))"
  shows "\<exists>deliver. (\<forall>names. timed_output hash n names (deliver names)) \<and>
    CalculateAndWriteHashes (env\<lparr>se_pool := \<lambda>alg. deliver\<rparr>) (snapshot_config_of v) files =
      (files(sc_out (snapshot_config_of v) \<mapsto> []), None) \<and>
    snapshot_main (env\<lparr>se_pool := \<lambda>alg. deliver\<rparr>) v files =
      (files(sc_out (snapshot_config_of v) \<mapsto> []), 0)"
proof -
  let ?env = "env\<lparr>se_pool := \<lambda>alg names. []\<rparr>"
  have "hash_dirs ?env (sc_root_fs (snapshot_config_of v) @ ''/'') alg (sc_dir (snapshot_config_of v)) [] = Inr []" for alg
    using assms(2) by (intro hash_dirs_empty) simp_all
  with assms(1) have c: "CalculateAndWriteHashes ?env (snapshot_config_of v) files =
      (files(sc_out (snapshot_config_of v) \<mapsto> []), None)"
    by (simp add: CalculateAndWriteHashes_def Let_def)
  then show ?thesis
    by (intro exI [of _ "\<lambda>names. []"]) (simp add: timed_out_empty snapshot_main_def)
qed

end
