(* ===== verification/Line_Breaks.thy ===== *)
theory Line_Breaks
  imports Snapshot Compare Alerts
begin

text \<open>
  Names with line breaks, which a file system allows. The baseline that internal/integritymonitor/snapshot.go
  writes and the record that pkg/alerts/syslog/syslog.go sends are lines of text, and neither
  quotes the name: who chooses a file's name writes lines of the baseline and of the log.
\<close>

definition forging_name :: "string \<Rightarrow> string \<Rightarrow> string \<Rightarrow> string" where
  "forging_name name hash forged = name @ [newline] @ hash @ ''  '' @ forged"

lemma render_forged:
  "render (us @ [\<lparr>fh_Path = forging_name a g b, fh_Hash = h\<rparr>] @ ws) =
   render (us @ [\<lparr>fh_Path = a, fh_Hash = h\<rparr>, \<lparr>fh_Path = b, fh_Hash = g\<rparr>] @ ws)"
  by (simp add: render_def hash_line_def forging_name_def)

text \<open>
  Property C27. A file name with a line break forges a record: the baseline of an image that has a
  file with such a name is read as one that has two files instead, the second with the path and
  the hash that the name gives. The monitor then expects that file, with that hash, although the
  image has none, and takes the file that is there for a new one.
\<close>

theorem line_break_forges_record:
  assumes "list_all line_safe (us @ [\<lparr>fh_Path = a, fh_Hash = h\<rparr>, \<lparr>fh_Path = b, fh_Hash = g\<rparr>] @ ws)"
    and "b \<notin> fh_Path ` set ws"
  shows "\<exists>records. checksums_Get (render (us @ [\<lparr>fh_Path = forging_name a g b, fh_Hash = h\<rparr>] @ ws)) = Ok records \<and>
    baseline records b = Some g \<and> baseline records (forging_name a g b) = None"
proof -
  let ?vs = "us @ [\<lparr>fh_Path = a, fh_Hash = h\<rparr>, \<lparr>fh_Path = b, fh_Hash = g\<rparr>] @ ws"
  have get: "checksums_Get (render ?vs) = Ok (map record_of ?vs)" by (rule Get_render [OF assms(1)])
  have base: "baseline (map record_of ?vs) = map_of (rev (map (\<lambda>v. (fh_Path v, fh_Hash v)) ?vs))"
    by (simp add: baseline_def rev_map record_entry_def record_of_def comp_def)
  have safe: "newline \<notin> set (fh_Path v)" if "v \<in> set ?vs" for v
    using assms(1) that by (auto simp: list_all_iff line_safe_def record_safe_def newline_def)
  have "forging_name a g b \<notin> fh_Path ` set ?vs"
  proof
    assume "forging_name a g b \<in> fh_Path ` set ?vs"
    then obtain v where v: "v \<in> set ?vs" "forging_name a g b = fh_Path v" by (rule imageE)
    have "newline \<in> set (forging_name a g b)" by (simp add: forging_name_def)
    with safe [OF v(1)] v(2) show False by simp
  qed
  then have none: "map_of (rev (map (\<lambda>v. (fh_Path v, fh_Hash v)) ?vs)) (forging_name a g b) = None"
    by (simp only: map_of_eq_None_iff set_rev set_map image_image fst_conv not_False_eq_True)
  have some: "map_of (rev (map (\<lambda>v. (fh_Path v, fh_Hash v)) ?vs)) b = Some g"
  proof -
    have "map_of (rev (map (\<lambda>v. (fh_Path v, fh_Hash v)) ws)) b = None"
      using assms(2) by (simp add: map_of_eq_None_iff image_image)
    then show ?thesis by (simp add: map_add_def)
  qed
  show ?thesis
    unfolding render_forged by (rule exI [of _ "map record_of ?vs"]) (simp only: get base none some simp_thms)
qed

subsection \<open>The log\<close>

lemma record_around_path:
  "\<exists>pre post. syslog_record env sl (alert\<lparr>al_Path := path\<rparr>) = pre @ path @ post"
proof -
  let ?pn = "al_ProcessName alert" and ?a = "alert\<lparr>al_Path := path\<rparr>"
  define m where "m = ''time='' @ sy_stamp env (al_Time alert) @
       '' event-type='' @ pad4 (map_get ErrToType 0 (al_Reason alert)) @
       '' service='' @ ?pn @ '' pod='' @ sy_hostname env @ '' image='' @ map_get (sy_process_image env) [] ?pn @
       '' namespace='' @ sy_pod_namespace env @ '' cluster='' @ sy_cluster_name env @
       '' message='' @ al_Message alert @ '' file=''"
  define h where "h = ''<'' @ nat_str (unat (sl_priority sl)) @ ''>'' @ sy_stamp env (sy_now env) @ '' '' @
       sl_hostname sl @ '' '' @ sl_tag sl @ ''['' @ nat_str (sy_pid env) @ '']:'' @ '' ''"
  have "syslogMessage env ?a = m @ path @ '' reason='' @ al_Reason alert"
    by (simp add: syslogMessage_def Let_def m_def)
  moreover obtain nl where "syslog_record env sl ?a = h @ syslogMessage env ?a @ nl"
    by (simp add: syslog_record_def Let_def h_def)
  ultimately show ?thesis
    by (intro exI [of _ "h @ m"] exI [of _ "'' reason='' @ al_Reason alert @ nl"]) simp
qed

text \<open>
  Property C28. A file name with a line break forges a log record: for every alert whose record is
  one line there is a path such that the record sent for any alert about that path, read line by
  line as a collector does, contains that other alert's record as a line of its own.
\<close>

theorem syslog_record_forgeable:
  assumes "syslog_record env sl forged = line @ [newline]" and "newline \<notin> set line"
  shows "\<exists>path. \<forall>alert. line \<in> set (split (syslog_record env sl (alert\<lparr>al_Path := path\<rparr>)) [newline])"
proof -
  let ?path = "newline # line @ [newline]"
  have "line \<in> set (split (syslog_record env sl (alert\<lparr>al_Path := ?path\<rparr>)) [newline])" for alert
  proof -
    obtain pre post where "syslog_record env sl (alert\<lparr>al_Path := ?path\<rparr>) = pre @ newline # line @ newline # post"
      using record_around_path [where path = "?path" and alert = alert and env = env and sl = sl] by auto
    then show ?thesis using assms(2) by (simp add: split_char_append split_plain)
  qed
  then show ?thesis by blast
qed

subsection \<open>Witnesses\<close>

theorem line_break_forges_record_witness:
  "\<exists>records. checksums_Get (render [\<lparr>fh_Path = forging_name ''app/x'' ''00'' ''bin/y'', fh_Hash = ''ff''\<rparr>]) = Ok records \<and>
     baseline records ''bin/y'' = Some ''00''"
proof -
  have "list_all line_safe [\<lparr>fh_Path = ''app/x'', fh_Hash = ''ff''\<rparr>, \<lparr>fh_Path = ''bin/y'', fh_Hash = ''00''\<rparr>]"
  proof -
    have "trimmed ''ff''" "trimmed ''00''" "trimmed ''app/x''" "trimmed ''bin/y''"
      "\<not> has_double_blank ''app/x''" "\<not> has_double_blank ''bin/y''" by code_simp+
    then show ?thesis by (simp add: line_safe_def record_safe_def newline_def max_token_def)
  qed
  with line_break_forges_record [of "[]" "''app/x''" "''ff''" "''bin/y''" "''00''" "[]"] show ?thesis by auto
qed

definition demo_syslog :: syslog_env where
  "demo_syslog = \<lparr>sy_hostname = ''pod'', sy_arg0 = ''monitor'', sy_pid = 1, sy_now = 0, sy_stamp = \<lambda>t. ''now'',
     sy_process_image = Map.empty, sy_pod_namespace = ''ns'', sy_cluster_name = ''local''\<rparr>"

theorem syslog_record_forgeable_witness:
  "\<exists>path. \<forall>alert.
     butlast (syslog_record demo_syslog (syslog_New demo_syslog ''tcp'' ''log:514'' DefaultPriority ''app.ns'' ''im'')
       (alert_New 0 ''health check'' HeartbeatEvent [] ''im'')) \<in>
     set (split (syslog_record demo_syslog (syslog_New demo_syslog ''tcp'' ''log:514'' DefaultPriority ''app.ns'' ''im'')
       (alert\<lparr>al_Path := path\<rparr>)) [newline])"
proof -
  let ?sl = "syslog_New demo_syslog ''tcp'' ''log:514'' DefaultPriority ''app.ns'' ''im''"
  let ?r = "syslog_record demo_syslog ?sl (alert_New 0 ''health check'' HeartbeatEvent [] ''im'')"
  have "?r = butlast ?r @ [newline]" and "newline \<notin> set (butlast ?r)" by code_simp+
  then show ?thesis by (rule syslog_record_forgeable)
qed

end
