(* ===== verification/Deep_Copy.thy ===== *)
theory Deep_Copy
  imports Go_Errors
begin

text \<open>
  The copies of API objects: snapshot-controller/api/v1/zz_generated.deepcopy.go with the types of
  snapshot_types.go, over a memory with variables and arrays, so that aliasing is visible. The
  controller's cache hands out such copies, which \<open>Reconcile\<close> then changes. The metadata of
  Kubernetes are a third-party type: \<open>'m\<close> and \<open>'l\<close> are their values, which may refer to a part \<open>'g\<close> of
  the memory, and their own \<open>DeepCopyInto\<close> is a parameter.
\<close>

subsection \<open>Types and memory\<close>

record type_meta =
  tm_Kind :: string
  tm_APIVersion :: string

record snapshot_spec =
  spec_Image :: string
  spec_Base64Hashes :: string
  spec_Algorithm :: string

record snapshot_status =
  status_IsUploaded :: bool
  status_ControlHash :: string

record 'm api_snapshot =
  api_TypeMeta :: type_meta
  api_ObjectMeta :: 'm
  api_Spec :: snapshot_spec
  api_Status :: snapshot_status

text \<open>A slice is a part of an array; the nil slice is \<open>None\<close>.\<close>

record slice =
  sl_array :: nat
  sl_offset :: nat
  sl_len :: nat

record 'l api_list =
  list_TypeMeta :: type_meta
  list_ListMeta :: 'l
  list_Items :: "slice option"

record ('m, 'l, 'g) memory =
  mem_snapshots :: "'m api_snapshot list"
  mem_arrays :: "'m api_snapshot list list"
  mem_lists :: "'l api_list list"
  mem_specs :: "snapshot_spec list"
  mem_statuses :: "snapshot_status list"
  mem_meta :: 'g

record ('m, 'l, 'g) meta_ops =
  ObjectMeta_DeepCopyInto :: "'m \<Rightarrow> 'g \<Rightarrow> 'm \<times> 'g"
  ListMeta_DeepCopyInto :: "'l \<Rightarrow> 'g \<Rightarrow> 'l \<times> 'g"
  zero_ObjectMeta :: 'm
  zero_ListMeta :: 'l

text \<open>A variable of type \<open>Snapshot\<close>, or an element of an array of them.\<close>

datatype place = Var nat | Elem nat nat

fun read_snapshot :: "('m, 'l, 'g) memory \<Rightarrow> place \<Rightarrow> 'm api_snapshot option" where
  "read_snapshot mem (Var a) = (if a < length (mem_snapshots mem) then Some (mem_snapshots mem ! a) else None)"
| "read_snapshot mem (Elem a i) =
     (if a < length (mem_arrays mem) \<and> i < length (mem_arrays mem ! a) then Some (mem_arrays mem ! a ! i) else None)"

fun write_snapshot :: "('m, 'l, 'g) memory \<Rightarrow> place \<Rightarrow> 'm api_snapshot \<Rightarrow> ('m, 'l, 'g) memory" where
  "write_snapshot mem (Var a) v = mem\<lparr>mem_snapshots := (mem_snapshots mem)[a := v]\<rparr>"
| "write_snapshot mem (Elem a i) v = mem\<lparr>mem_arrays := (mem_arrays mem)[a := (mem_arrays mem ! a)[i := v]]\<rparr>"

definition zero_snapshot :: "('m, 'l, 'g) meta_ops \<Rightarrow> 'm api_snapshot" where
  "zero_snapshot ops =
     \<lparr>api_TypeMeta = \<lparr>tm_Kind = [], tm_APIVersion = []\<rparr>, api_ObjectMeta = zero_ObjectMeta ops,
      api_Spec = \<lparr>spec_Image = [], spec_Base64Hashes = [], spec_Algorithm = []\<rparr>,
      api_Status = \<lparr>status_IsUploaded = False, status_ControlHash = []\<rparr>\<rparr>"

definition zero_list :: "('m, 'l, 'g) meta_ops \<Rightarrow> 'l api_list" where
  "zero_list ops =
     \<lparr>list_TypeMeta = \<lparr>tm_Kind = [], tm_APIVersion = []\<rparr>, list_ListMeta = zero_ListMeta ops,
      list_Items = None\<rparr>"

definition nil_dereference :: string where
  "nil_dereference = ''invalid memory address or nil pointer dereference''"

subsection \<open>Copies of a snapshot\<close>

text \<open>The assignments one after the other, each reading \<open>in\<close> as it then is.\<close>

definition Snapshot_DeepCopyInto ::
    "('m, 'l, 'g) meta_ops \<Rightarrow> place \<Rightarrow> place \<Rightarrow> ('m, 'l, 'g) memory \<Rightarrow> ('m, 'l, 'g) memory result" where
  "Snapshot_DeepCopyInto ops from to mem =
     (if read_snapshot mem from = None \<or> read_snapshot mem to = None then Panic nil_dereference
      else
        let get = (\<lambda>mem p. the (read_snapshot mem p));
            mem = write_snapshot mem to (get mem from);
            mem = write_snapshot mem to ((get mem to)\<lparr>api_TypeMeta := api_TypeMeta (get mem from)\<rparr>);
            (meta, g) = ObjectMeta_DeepCopyInto ops (api_ObjectMeta (get mem from)) (mem_meta mem);
            mem = (write_snapshot mem to ((get mem to)\<lparr>api_ObjectMeta := meta\<rparr>))\<lparr>mem_meta := g\<rparr>;
            mem = write_snapshot mem to ((get mem to)\<lparr>api_Spec := api_Spec (get mem from)\<rparr>);
            mem = write_snapshot mem to ((get mem to)\<lparr>api_Status := api_Status (get mem from)\<rparr>)
        in Ok mem)"

text \<open>A pointer is a place or nil.\<close>

definition Snapshot_DeepCopy ::
    "('m, 'l, 'g) meta_ops \<Rightarrow> place option \<Rightarrow> ('m, 'l, 'g) memory \<Rightarrow>
     (('m, 'l, 'g) memory \<times> place option) result" where
  "Snapshot_DeepCopy ops from mem =
     (case from of
        None \<Rightarrow> Ok (mem, None)
      | Some p \<Rightarrow>
          let to = Var (length (mem_snapshots mem));
              mem = mem\<lparr>mem_snapshots := mem_snapshots mem @ [zero_snapshot ops]\<rparr>
          in bind_result (Snapshot_DeepCopyInto ops p to mem) (\<lambda>mem. Ok (mem, Some to)))"

text \<open>An interface value of type \<open>runtime.Object\<close>.\<close>

datatype runtime_object = Nil_Object | Object_Snapshot "place option" | Object_List "nat option"

definition Snapshot_DeepCopyObject ::
    "('m, 'l, 'g) meta_ops \<Rightarrow> place option \<Rightarrow> ('m, 'l, 'g) memory \<Rightarrow>
     (('m, 'l, 'g) memory \<times> runtime_object) result" where
  "Snapshot_DeepCopyObject ops from mem =
     bind_result (Snapshot_DeepCopy ops from mem) (\<lambda>(mem, c).
       Ok (mem, if c \<noteq> None then Object_Snapshot c else Nil_Object))"

subsection \<open>Copies of a list\<close>

definition elem_place :: "slice option \<Rightarrow> nat \<Rightarrow> place option" where
  "elem_place s i =
     (case s of
        None \<Rightarrow> None
      | Some s \<Rightarrow> if i < sl_len s then Some (Elem (sl_array s) (sl_offset s + i)) else None)"

text \<open>\<open>n\<close> iterations from index \<open>i\<close>; both slices are read through the pointers each time.\<close>

fun copy_items ::
    "('m, 'l, 'g) meta_ops \<Rightarrow> nat \<Rightarrow> nat \<Rightarrow> nat \<Rightarrow> nat \<Rightarrow> ('m, 'l, 'g) memory \<Rightarrow> ('m, 'l, 'g) memory result" where
  "copy_items ops from to i 0 mem = Ok mem"
| "copy_items ops from to i (Suc n) mem =
     (case (elem_place (list_Items (mem_lists mem ! from)) i, elem_place (list_Items (mem_lists mem ! to)) i) of
        (Some p, Some q) \<Rightarrow>
          bind_result (Snapshot_DeepCopyInto ops p q mem) (copy_items ops from to (Suc i) n)
      | _ \<Rightarrow> Panic ''index out of range'')"

definition set_list :: "('m, 'l, 'g) memory \<Rightarrow> nat \<Rightarrow> 'l api_list \<Rightarrow> ('m, 'l, 'g) memory" where
  "set_list mem a v = mem\<lparr>mem_lists := (mem_lists mem)[a := v]\<rparr>"

definition slice_len :: "slice option \<Rightarrow> nat" where
  "slice_len s = (case s of None \<Rightarrow> 0 | Some s \<Rightarrow> sl_len s)"

definition SnapshotList_DeepCopyInto ::
    "('m, 'l, 'g) meta_ops \<Rightarrow> nat \<Rightarrow> nat \<Rightarrow> ('m, 'l, 'g) memory \<Rightarrow> ('m, 'l, 'g) memory result" where
  "SnapshotList_DeepCopyInto ops from to mem =
     (if length (mem_lists mem) \<le> from \<or> length (mem_lists mem) \<le> to then Panic nil_dereference
      else
        let get = (\<lambda>mem a. mem_lists mem ! a);
            mem = set_list mem to (get mem from);
            mem = set_list mem to ((get mem to)\<lparr>list_TypeMeta := list_TypeMeta (get mem from)\<rparr>);
            (meta, g) = ListMeta_DeepCopyInto ops (list_ListMeta (get mem from)) (mem_meta mem);
            mem = (set_list mem to ((get mem to)\<lparr>list_ListMeta := meta\<rparr>))\<lparr>mem_meta := g\<rparr>
        in if list_Items (get mem from) = None then Ok mem
           else
             let n = slice_len (list_Items (get mem from));
                 new = length (mem_arrays mem);
                 mem = mem\<lparr>mem_arrays := mem_arrays mem @ [replicate n (zero_snapshot ops)]\<rparr>;
                 mem = set_list mem to
                   ((get mem to)\<lparr>list_Items := Some \<lparr>sl_array = new, sl_offset = 0, sl_len = n\<rparr>\<rparr>)
             in copy_items ops from to 0 (slice_len (list_Items (get mem from))) mem)"

definition SnapshotList_DeepCopy ::
    "('m, 'l, 'g) meta_ops \<Rightarrow> nat option \<Rightarrow> ('m, 'l, 'g) memory \<Rightarrow>
     (('m, 'l, 'g) memory \<times> nat option) result" where
  "SnapshotList_DeepCopy ops from mem =
     (case from of
        None \<Rightarrow> Ok (mem, None)
      | Some a \<Rightarrow>
          let to = length (mem_lists mem);
              mem = mem\<lparr>mem_lists := mem_lists mem @ [zero_list ops]\<rparr>
          in bind_result (SnapshotList_DeepCopyInto ops a to mem) (\<lambda>mem. Ok (mem, Some to)))"

definition SnapshotList_DeepCopyObject ::
    "('m, 'l, 'g) meta_ops \<Rightarrow> nat option \<Rightarrow> ('m, 'l, 'g) memory \<Rightarrow>
     (('m, 'l, 'g) memory \<times> runtime_object) result" where
  "SnapshotList_DeepCopyObject ops from mem =
     bind_result (SnapshotList_DeepCopy ops from mem) (\<lambda>(mem, c).
       Ok (mem, if c \<noteq> None then Object_List c else Nil_Object))"

subsection \<open>Copies of the plain parts\<close>

definition SnapshotSpec_DeepCopyInto :: "nat \<Rightarrow> nat \<Rightarrow> ('m, 'l, 'g) memory \<Rightarrow> ('m, 'l, 'g) memory result" where
  "SnapshotSpec_DeepCopyInto from to mem =
     (if length (mem_specs mem) \<le> from \<or> length (mem_specs mem) \<le> to then Panic nil_dereference
      else Ok (mem\<lparr>mem_specs := (mem_specs mem)[to := mem_specs mem ! from]\<rparr>))"

definition SnapshotSpec_DeepCopy ::
    "nat option \<Rightarrow> ('m, 'l, 'g) memory \<Rightarrow> (('m, 'l, 'g) memory \<times> nat option) result" where
  "SnapshotSpec_DeepCopy from mem =
     (case from of
        None \<Rightarrow> Ok (mem, None)
      | Some a \<Rightarrow>
          let to = length (mem_specs mem);
              mem = mem\<lparr>mem_specs := mem_specs mem @
                [\<lparr>spec_Image = [], spec_Base64Hashes = [], spec_Algorithm = []\<rparr>]\<rparr>
          in bind_result (SnapshotSpec_DeepCopyInto a to mem) (\<lambda>mem. Ok (mem, Some to)))"

definition SnapshotStatus_DeepCopyInto :: "nat \<Rightarrow> nat \<Rightarrow> ('m, 'l, 'g) memory \<Rightarrow> ('m, 'l, 'g) memory result" where
  "SnapshotStatus_DeepCopyInto from to mem =
     (if length (mem_statuses mem) \<le> from \<or> length (mem_statuses mem) \<le> to then Panic nil_dereference
      else Ok (mem\<lparr>mem_statuses := (mem_statuses mem)[to := mem_statuses mem ! from]\<rparr>))"

definition SnapshotStatus_DeepCopy ::
    "nat option \<Rightarrow> ('m, 'l, 'g) memory \<Rightarrow> (('m, 'l, 'g) memory \<times> nat option) result" where
  "SnapshotStatus_DeepCopy from mem =
     (case from of
        None \<Rightarrow> Ok (mem, None)
      | Some a \<Rightarrow>
          let to = length (mem_statuses mem);
              mem = mem\<lparr>mem_statuses := mem_statuses mem @
                [\<lparr>status_IsUploaded = False, status_ControlHash = []\<rparr>]\<rparr>
          in bind_result (SnapshotStatus_DeepCopyInto a to mem) (\<lambda>mem. Ok (mem, Some to)))"

end
