(* ===== verification/Deep_Copy_Isolated.thy ===== *)
theory Deep_Copy_Isolated
  imports Deep_Copy
begin

text \<open>
  What a deep copy is good for: it has the value of the original and shares no memory with it. The
  locale states this for a copy of any kind of value; the metadata are assumed to have it,
  lists of copies and the snapshots of snapshot-controller/api/v1 are proved to.
\<close>

subsection \<open>The contract of a deep copy\<close>

text \<open>
  \<open>view\<close> is the value that something stands for in a memory, \<open>cells\<close> the part of the memory that it
  depends on, \<open>used\<close> the part that is in use. A copy never disturbs what is in use, of whatever kind
  it is; the copy itself has the value of the original, in cells that were not in use.
\<close>

locale undisturbing =
  fixes copy :: "'w \<Rightarrow> 'h \<Rightarrow> 'w \<times> 'h"
    and view :: "'h \<Rightarrow> 'v \<Rightarrow> 'a"
    and cells :: "'h \<Rightarrow> 'v \<Rightarrow> 'r set"
    and used :: "'h \<Rightarrow> 'r set"
  assumes copy_keeps: "cells h u \<subseteq> used h \<Longrightarrow> copy v h = (v', h') \<Longrightarrow>
      view h' u = view h u \<and> cells h' u = cells h u"
    and copy_grows: "copy v h = (v', h') \<Longrightarrow> used h \<subseteq> used h'"

locale deep_copier = undisturbing copy view cells used
  for copy :: "'v \<Rightarrow> 'h \<Rightarrow> 'v \<times> 'h" and view :: "'h \<Rightarrow> 'v \<Rightarrow> 'a"
    and cells :: "'h \<Rightarrow> 'v \<Rightarrow> 'r set" and used :: "'h \<Rightarrow> 'r set" +
  assumes copy_view: "cells h v \<subseteq> used h \<Longrightarrow> copy v h = (v', h') \<Longrightarrow> view h' v' = view h v"
    and copy_fresh: "cells h v \<subseteq> used h \<Longrightarrow> copy v h = (v', h') \<Longrightarrow>
      cells h' v' \<subseteq> used h' - used h"

fun copies :: "('v \<Rightarrow> 'h \<Rightarrow> 'v \<times> 'h) \<Rightarrow> 'v list \<Rightarrow> 'h \<Rightarrow> 'v list \<times> 'h" where
  "copies copy [] h = ([], h)"
| "copies copy (v # vs) h =
     (let (v', h) = copy v h; (vs', h) = copies copy vs h in (v' # vs', h))"

lemma length_copies: "copies copy vs h = (vs', h') \<Longrightarrow> length vs' = length vs"
  by (induction vs arbitrary: h vs' h') (auto split: prod.splits)

context undisturbing begin

lemma copies_grows: "copies copy vs h = (vs', h') \<Longrightarrow> used h \<subseteq> used h'"
  by (induction vs arbitrary: h vs' h') (fastforce split: prod.splits dest: copy_grows)+

lemma copies_keeps:
  "cells h u \<subseteq> used h \<Longrightarrow> copies copy vs h = (vs', h') \<Longrightarrow> view h' u = view h u \<and> cells h' u = cells h u"
proof (induction vs arbitrary: h vs' h')
  case (Cons v vs)
  obtain v1 h1 where c: "copy v h = (v1, h1)" by (rule prod.exhaust)
  obtain vs2 h2 where cs: "copies copy vs h1 = (vs2, h2)" by (rule prod.exhaust)
  have "view h1 u = view h u \<and> cells h1 u = cells h u" using copy_keeps [OF Cons.prems(1) c] .
  moreover from this have "cells h1 u \<subseteq> used h1" using Cons.prems(1) copy_grows [OF c] by blast
  ultimately show ?case using Cons.IH [OF _ cs] Cons.prems(2) c cs by auto
qed simp

end

context deep_copier begin

lemma copies_result:
  "(\<And>v. v \<in> set vs \<Longrightarrow> cells h v \<subseteq> used h) \<Longrightarrow> copies copy vs h = (vs', h') \<Longrightarrow>
   map (view h') vs' = map (view h) vs \<and> (\<forall>v \<in> set vs'. cells h' v \<subseteq> used h' - used h)"
proof (induction vs arbitrary: h vs' h')
  case (Cons v vs)
  obtain v1 h1 where c: "copy v h = (v1, h1)" by (rule prod.exhaust)
  obtain vs2 h2 where cs: "copies copy vs h1 = (vs2, h2)" by (rule prod.exhaust)
  have r: "vs' = v1 # vs2" "h' = h2" using Cons.prems(2) c cs by auto
  have g: "used h \<subseteq> used h1" "used h1 \<subseteq> used h2" using copy_grows [OF c] copies_grows [OF cs] .
  have v: "cells h v \<subseteq> used h" using Cons.prems(1) by simp
  have kept: "view h1 u = view h u \<and> cells h1 u = cells h u" if "u \<in> set vs" for u
    using copy_keeps [OF _ c] Cons.prems(1) that by simp
  have "cells h1 u \<subseteq> used h1" if "u \<in> set vs" for u
    using kept [OF that] Cons.prems(1) [of u] that g by auto
  note ih = Cons.IH [OF this cs]
  have f: "cells h1 v1 \<subseteq> used h1 - used h" by (rule copy_fresh [OF v c])
  then have "view h2 v1 = view h1 v1 \<and> cells h2 v1 = cells h1 v1" using copies_keeps [OF _ cs] by blast
  then have first: "view h2 v1 = view h v \<and> cells h2 v1 \<subseteq> used h2 - used h"
    using copy_view [OF v c] f g by auto
  have "map (view h1) vs = map (view h) vs" using kept by simp
  moreover have "\<forall>u \<in> set vs2. cells h2 u \<subseteq> used h2 - used h" using ih g by blast
  ultimately show ?case unfolding r using ih first by simp
qed simp

end

locale item_copier = deep_copier

sublocale item_copier \<subseteq> items: deep_copier "copies copy" "\<lambda>h. map (view h)"
    "\<lambda>h vs. \<Union>v \<in> set vs. cells h v" used
proof unfold_locales
  fix h vs vs' h'
  assume *: "(\<Union>v \<in> set vs. cells h v) \<subseteq> used h" "copies copy vs h = (vs', h')"
  then have "\<And>v. v \<in> set vs \<Longrightarrow> cells h v \<subseteq> used h" by blast
  from copies_result [OF this *(2)] show "map (view h') vs' = map (view h) vs"
    and "(\<Union>v \<in> set vs'. cells h' v) \<subseteq> used h' - used h" by auto
next
  fix h us vs vs' h'
  assume *: "(\<Union>v \<in> set us. cells h v) \<subseteq> used h" "copies copy vs h = (vs', h')"
  then show "map (view h') us = map (view h) us \<and> (\<Union>v \<in> set us. cells h' v) = (\<Union>v \<in> set us. cells h v)"
    using copies_keeps [OF _ *(2)] by (auto simp: UN_subset_iff)
qed (rule copies_grows)

subsection \<open>A snapshot is copied as its metadata\<close>

definition snap_copy ::
    "('m \<Rightarrow> 'g \<Rightarrow> 'm \<times> 'g) \<Rightarrow> 'm api_snapshot \<Rightarrow> 'g \<Rightarrow> 'm api_snapshot \<times> 'g" where
  "snap_copy copy v g = (let (m, g) = copy (api_ObjectMeta v) g in (v\<lparr>api_ObjectMeta := m\<rparr>, g))"

definition snap_view ::
    "('g \<Rightarrow> 'm \<Rightarrow> 'a) \<Rightarrow> 'g \<Rightarrow> 'm api_snapshot \<Rightarrow> type_meta \<times> 'a \<times> snapshot_spec \<times> snapshot_status" where
  "snap_view view g v = (api_TypeMeta v, view g (api_ObjectMeta v), api_Spec v, api_Status v)"

locale snapshot_copier = deep_copier copy view cells used
  for copy :: "'m \<Rightarrow> 'g \<Rightarrow> 'm \<times> 'g" and view :: "'g \<Rightarrow> 'm \<Rightarrow> 'a" and cells and used

sublocale snapshot_copier \<subseteq> snap: item_copier "snap_copy copy" "snap_view view"
    "\<lambda>g v. cells g (api_ObjectMeta v)" used
proof unfold_locales
  fix h h' and v v' :: "'m api_snapshot"
  assume *: "cells h (api_ObjectMeta v) \<subseteq> used h" "snap_copy copy v h = (v', h')"
  obtain m g where c: "copy (api_ObjectMeta v) h = (m, g)" by (rule prod.exhaust)
  have "v' = v\<lparr>api_ObjectMeta := m\<rparr>" "h' = g" using *(2) c by (simp_all add: snap_copy_def)
  then show "snap_view view h' v' = snap_view view h v"
    and "cells h' (api_ObjectMeta v') \<subseteq> used h' - used h"
    using copy_view [OF *(1) c] copy_fresh [OF *(1) c] by (simp_all add: snap_view_def)
next
  fix h v' h' and u v :: "'m api_snapshot"
  assume *: "cells h (api_ObjectMeta u) \<subseteq> used h" "snap_copy copy v h = (v', h')"
  then show "snap_view view h' u = snap_view view h u \<and> cells h' (api_ObjectMeta u) = cells h (api_ObjectMeta u)"
    using copy_keeps [OF *(1)] by (auto simp: snap_copy_def snap_view_def split: prod.splits)
next
  fix v h v' h'
  show "snap_copy copy v h = (v', h') \<Longrightarrow> used h \<subseteq> used h'"
    using copy_grows by (auto simp: snap_copy_def split: prod.splits)
qed

subsection \<open>What the functions do to the memory\<close>

lemma read_write [simp]:
  "read_snapshot mem q \<noteq> None \<Longrightarrow> read_snapshot (write_snapshot mem q v) q = Some v"
  by (cases q) (auto split: if_splits)

lemma nth_list_update_any: "xs[i := x] ! j = (if i = j \<and> i < length xs then x else xs ! j)"
  by (cases "i < length xs") (auto simp: nth_list_update list_update_beyond)

lemma read_write_other [simp]: "p \<noteq> q \<Longrightarrow> read_snapshot (write_snapshot mem q v) p = read_snapshot mem p"
  by (cases p; cases q) (auto simp: nth_list_update_any)

lemma write_write [simp]: "write_snapshot (write_snapshot mem q u) q v = write_snapshot mem q v"
proof (cases q)
  case (Elem a i)
  then show ?thesis by (cases "a < length (mem_arrays mem)") (simp_all add: list_update_beyond)
qed simp

lemma meta_write [simp]:
  "mem_meta (write_snapshot mem q v) = mem_meta mem"
  "read_snapshot (mem\<lparr>mem_meta := g\<rparr>) p = read_snapshot mem p"
  by (cases q; simp) (cases p; simp)

lemma write_meta [simp]: "write_snapshot (mem\<lparr>mem_meta := g\<rparr>) q v = (write_snapshot mem q v)\<lparr>mem_meta := g\<rparr>"
  by (cases q) simp_all

lemma Snapshot_DeepCopyInto_eq:
  assumes "read_snapshot mem p = Some v" and "read_snapshot mem q \<noteq> None"
    and "snap_copy (ObjectMeta_DeepCopyInto ops) v (mem_meta mem) = (v', g)"
  shows "Snapshot_DeepCopyInto ops p q mem = Ok ((write_snapshot mem q v')\<lparr>mem_meta := g\<rparr>)"
proof -
  obtain m g' where c: "ObjectMeta_DeepCopyInto ops (api_ObjectMeta v) (mem_meta mem) = (m, g')"
    by (rule prod.exhaust)
  then have "v' = v\<lparr>api_ObjectMeta := m\<rparr>" "g = g'" using assms(3) by (simp_all add: snap_copy_def)
  with assms(1,2) c show ?thesis
    by (cases "p = q") (simp_all add: Snapshot_DeepCopyInto_def Let_def)
qed

definition slice_items :: "('m, 'l, 'g) memory \<Rightarrow> slice \<Rightarrow> 'm api_snapshot list" where
  "slice_items mem s = take (sl_len s) (drop (sl_offset s) (mem_arrays mem ! sl_array s))"

definition slice_ok :: "('m, 'l, 'g) memory \<Rightarrow> slice \<Rightarrow> bool" where
  "slice_ok mem s \<longleftrightarrow> sl_array s < length (mem_arrays mem) \<and>
     sl_offset s + sl_len s \<le> length (mem_arrays mem ! sl_array s)"

lemma copy_items_eq:
  assumes "list_Items (mem_lists mem ! a) = Some s" and "list_Items (mem_lists mem ! b) = Some t"
    and "sl_array s \<noteq> sl_array t" and "slice_ok mem s" and "slice_ok mem t" and "sl_offset t = 0"
    and "i + n \<le> sl_len s" and "i + n \<le> sl_len t"
    and "copies (snap_copy (ObjectMeta_DeepCopyInto ops))
      (take n (drop (sl_offset s + i) (mem_arrays mem ! sl_array s))) (mem_meta mem) = (vs, g)"
  shows "copy_items ops a b i n mem = Ok (mem\<lparr>mem_arrays := (mem_arrays mem)
      [sl_array t := take i (mem_arrays mem ! sl_array t) @ vs @ drop (i + n) (mem_arrays mem ! sl_array t)],
      mem_meta := g\<rparr>)"
  using assms
proof (induction n arbitrary: i mem vs)
  case 0
  then have "vs = []" "g = mem_meta mem" by simp_all
  then show ?case by (simp add: append_take_drop_id)
next
  case (Suc n)
  let ?A = "mem_arrays mem" and ?S = "mem_arrays mem ! sl_array s" and ?T = "mem_arrays mem ! sl_array t"
  let ?v = "?S ! (sl_offset s + i)"
  have bounds: "sl_offset s + i < length ?S" "i < length ?T" "sl_array s < length ?A" "sl_array t < length ?A"
    using Suc.prems by (auto simp: slice_ok_def)
  have tl: "take (Suc n) (drop (sl_offset s + i) ?S) = ?v # take n (drop (sl_offset s + Suc i) ?S)"
    using bounds(1) by (simp add: Cons_nth_drop_Suc [symmetric])
  obtain v1 g1 where c: "snap_copy (ObjectMeta_DeepCopyInto ops) ?v (mem_meta mem) = (v1, g1)" by (rule prod.exhaust)
  obtain vs2 g2 where cs: "copies (snap_copy (ObjectMeta_DeepCopyInto ops))
      (take n (drop (sl_offset s + Suc i) ?S)) g1 = (vs2, g2)" by (rule prod.exhaust)
  have vs: "vs = v1 # vs2" "g = g2" using Suc.prems(9) unfolding tl using c cs by auto
  let ?m = "mem\<lparr>mem_arrays := ?A[sl_array t := ?T[i := v1]], mem_meta := g1\<rparr>"
  have places: "elem_place (Some s) i = Some (Elem (sl_array s) (sl_offset s + i))"
    "elem_place (Some t) i = Some (Elem (sl_array t) i)"
    using Suc.prems(6-8) by (simp_all add: elem_place_def)
  have one: "Snapshot_DeepCopyInto ops (Elem (sl_array s) (sl_offset s + i)) (Elem (sl_array t) i) mem = Ok ?m"
    using Snapshot_DeepCopyInto_eq [of mem "Elem (sl_array s) (sl_offset s + i)" ?v "Elem (sl_array t) i" ops v1 g1]
      bounds c by simp
  have S: "mem_arrays ?m ! sl_array s = ?S" using Suc.prems(3) by simp
  have T: "mem_arrays ?m ! sl_array t = ?T[i := v1]" using bounds by simp
  have ih: "copy_items ops a b (Suc i) n ?m = Ok (?m\<lparr>mem_arrays := (mem_arrays ?m)
      [sl_array t := take (Suc i) (mem_arrays ?m ! sl_array t) @ vs2 @
        drop (Suc i + n) (mem_arrays ?m ! sl_array t)], mem_meta := g\<rparr>)"
  proof (rule Suc.IH)
    show "copies (snap_copy (ObjectMeta_DeepCopyInto ops))
        (take n (drop (sl_offset s + Suc i) (mem_arrays ?m ! sl_array s))) (mem_meta ?m) = (vs2, g)"
      unfolding S using cs vs by simp
  qed (use Suc.prems bounds in \<open>auto simp: slice_ok_def nth_list_update\<close>)
  have "take (Suc i) (?T[i := v1]) @ vs2 @ drop (Suc i + n) (?T[i := v1]) =
      take i ?T @ vs @ drop (i + Suc n) ?T"
    using bounds(2) unfolding vs by (simp add: take_Suc_conv_app_nth)
  note ih = ih [unfolded T this]
  have "copy_items ops a b i (Suc n) mem = copy_items ops a b (Suc i) n ?m"
    using Suc.prems(1,2) places one by simp
  then show ?case unfolding ih by simp
qed

lemma SnapshotList_DeepCopyInto_eq:
  assumes "a \<noteq> b" and "a < length (mem_lists mem)" and "b < length (mem_lists mem)"
    and "ListMeta_DeepCopyInto ops (list_ListMeta (mem_lists mem ! a)) (mem_meta mem) = (l, g)"
  shows "list_Items (mem_lists mem ! a) = None \<Longrightarrow>
      SnapshotList_DeepCopyInto ops a b mem = Ok (mem\<lparr>mem_lists := (mem_lists mem)
        [b := (mem_lists mem ! a)\<lparr>list_ListMeta := l\<rparr>], mem_meta := g\<rparr>)"
    and "list_Items (mem_lists mem ! a) = Some s \<Longrightarrow> slice_ok mem s \<Longrightarrow>
      copies (snap_copy (ObjectMeta_DeepCopyInto ops)) (slice_items mem s) g = (vs, g') \<Longrightarrow>
      SnapshotList_DeepCopyInto ops a b mem = Ok (mem\<lparr>
        mem_lists := (mem_lists mem)[b := (mem_lists mem ! a)\<lparr>list_ListMeta := l,
          list_Items := Some \<lparr>sl_array = length (mem_arrays mem), sl_offset = 0, sl_len = sl_len s\<rparr>\<rparr>],
        mem_arrays := mem_arrays mem @ [vs], mem_meta := g'\<rparr>)"
proof -
  note def = SnapshotList_DeepCopyInto_def set_list_def slice_len_def Let_def
  show "SnapshotList_DeepCopyInto ops a b mem = Ok (mem\<lparr>mem_lists := (mem_lists mem)
      [b := (mem_lists mem ! a)\<lparr>list_ListMeta := l\<rparr>], mem_meta := g\<rparr>)"
    if "list_Items (mem_lists mem ! a) = None"
    using assms that by (simp add: def)
  assume s: "list_Items (mem_lists mem ! a) = Some s" and ok: "slice_ok mem s"
    and cs: "copies (snap_copy (ObjectMeta_DeepCopyInto ops)) (slice_items mem s) g = (vs, g')"
  let ?t = "\<lparr>sl_array = length (mem_arrays mem), sl_offset = 0, sl_len = sl_len s\<rparr>"
  let ?m = "mem\<lparr>mem_meta := g, mem_arrays := mem_arrays mem @ [replicate (sl_len s) (zero_snapshot ops)],
    mem_lists := (mem_lists mem)[b := (mem_lists mem ! a)\<lparr>list_ListMeta := l, list_Items := Some ?t\<rparr>]\<rparr>"
  have "SnapshotList_DeepCopyInto ops a b mem = copy_items ops a b 0 (sl_len s) ?m"
    using assms s by (simp add: def)
  also have "\<dots> = Ok (?m\<lparr>mem_arrays := (mem_arrays ?m)[sl_array ?t :=
      take 0 (mem_arrays ?m ! sl_array ?t) @ vs @ drop (0 + sl_len s) (mem_arrays ?m ! sl_array ?t)],
      mem_meta := g'\<rparr>)"
    by (rule copy_items_eq) (use assms s ok cs in \<open>auto simp: slice_ok_def slice_items_def nth_append\<close>)
  finally show "SnapshotList_DeepCopyInto ops a b mem = Ok (mem\<lparr>
      mem_lists := (mem_lists mem)[b := (mem_lists mem ! a)\<lparr>list_ListMeta := l, list_Items := Some ?t\<rparr>],
      mem_arrays := mem_arrays mem @ [vs], mem_meta := g'\<rparr>)"
    by (cases mem) simp
qed

subsection \<open>The copy of a list\<close>

definition list_items :: "('m, 'l, 'g) memory \<Rightarrow> nat \<Rightarrow> 'm api_snapshot list" where
  "list_items mem a = (case list_Items (mem_lists mem ! a) of None \<Rightarrow> [] | Some s \<Rightarrow> slice_items mem s)"

definition list_ok :: "('m, 'l, 'g) memory \<Rightarrow> nat \<Rightarrow> bool" where
  "list_ok mem a \<longleftrightarrow> a < length (mem_lists mem) \<and>
     (case list_Items (mem_lists mem ! a) of None \<Rightarrow> True | Some s \<Rightarrow> slice_ok mem s)"

definition list_view ::
    "('g \<Rightarrow> 'm \<Rightarrow> 'a) \<Rightarrow> ('g \<Rightarrow> 'l \<Rightarrow> 'b) \<Rightarrow> ('m, 'l, 'g) memory \<Rightarrow> nat \<Rightarrow>
     type_meta \<times> 'b \<times> bool \<times> (type_meta \<times> 'a \<times> snapshot_spec \<times> snapshot_status) list" where
  "list_view view lview mem a =
     (list_TypeMeta (mem_lists mem ! a), lview (mem_meta mem) (list_ListMeta (mem_lists mem ! a)),
      list_Items (mem_lists mem ! a) \<noteq> None, map (snap_view view (mem_meta mem)) (list_items mem a))"

definition list_cells ::
    "('g \<Rightarrow> 'm \<Rightarrow> 'r set) \<Rightarrow> ('g \<Rightarrow> 'l \<Rightarrow> 'r set) \<Rightarrow> ('m, 'l, 'g) memory \<Rightarrow> nat \<Rightarrow> 'r set" where
  "list_cells cells lcells mem a = lcells (mem_meta mem) (list_ListMeta (mem_lists mem ! a)) \<union>
     (\<Union>v \<in> set (list_items mem a). cells (mem_meta mem) (api_ObjectMeta v))"

text \<open>The memory after a copy: one more list, and one more array if the list has one.\<close>

definition copied_memory ::
    "('m, 'l, 'g) memory \<Rightarrow> nat \<Rightarrow> 'l \<Rightarrow> 'm api_snapshot list \<Rightarrow> 'g \<Rightarrow> ('m, 'l, 'g) memory" where
  "copied_memory mem a l vs g = mem\<lparr>
     mem_lists := mem_lists mem @ [(mem_lists mem ! a)\<lparr>list_ListMeta := l,
       list_Items := map_option (\<lambda>s. \<lparr>sl_array = length (mem_arrays mem), sl_offset = 0, sl_len = sl_len s\<rparr>)
         (list_Items (mem_lists mem ! a))\<rparr>],
     mem_arrays := mem_arrays mem @ (if list_Items (mem_lists mem ! a) = None then [] else [vs]),
     mem_meta := g\<rparr>"

lemma list_copied:
  assumes ok: "list_ok mem a"
    and l: "ListMeta_DeepCopyInto ops (list_ListMeta (mem_lists mem ! a)) (mem_meta mem) = (l, g)"
    and vs: "copies (snap_copy (ObjectMeta_DeepCopyInto ops)) (list_items mem a) g = (vs, g')"
  shows "SnapshotList_DeepCopy ops (Some a) mem = Ok (copied_memory mem a l vs g', Some (length (mem_lists mem)))"
proof -
  let ?m = "mem\<lparr>mem_lists := mem_lists mem @ [zero_list ops]\<rparr>" and ?b = "length (mem_lists mem)"
  have a: "a < ?b" using ok by (simp add: list_ok_def)
  have old: "mem_lists ?m ! a = mem_lists mem ! a" using a by (simp add: nth_append)
  have copy: "SnapshotList_DeepCopy ops (Some a) mem =
      bind_result (SnapshotList_DeepCopyInto ops a ?b ?m) (\<lambda>mem. Ok (mem, Some ?b))"
    by (simp add: SnapshotList_DeepCopy_def Let_def)
  have pre: "a \<noteq> ?b" "a < length (mem_lists ?m)" "?b < length (mem_lists ?m)"
    "ListMeta_DeepCopyInto ops (list_ListMeta (mem_lists ?m ! a)) (mem_meta ?m) = (l, g)"
    unfolding old using a l by simp_all
  show ?thesis
  proof (cases "list_Items (mem_lists mem ! a)")
    case None
    then have "g' = g" using vs by (simp add: list_items_def)
    with SnapshotList_DeepCopyInto_eq(1) [OF pre] None old show ?thesis
      unfolding copy copied_memory_def by (cases mem) simp
  next
    case (Some s)
    have "slice_items ?m s = list_items mem a" using Some by (simp add: list_items_def slice_items_def)
    moreover have "slice_ok ?m s" using ok Some by (simp add: list_ok_def slice_ok_def)
    ultimately show ?thesis
      using SnapshotList_DeepCopyInto_eq(2) [OF pre, of s vs g'] vs Some old
      unfolding copy copied_memory_def by (cases mem) simp
  qed
qed

lemma copied_original:
  assumes "list_ok mem a"
  shows "mem_lists (copied_memory mem a l vs g) ! a = mem_lists mem ! a"
    and "list_items (copied_memory mem a l vs g) a = list_items mem a"
  using assms by (auto simp: copied_memory_def list_items_def slice_items_def list_ok_def slice_ok_def
      nth_append split: option.splits)

lemma copied_copy:
  assumes "list_ok mem a" and "length vs = length (list_items mem a)"
  shows "list_items (copied_memory mem a l vs g) (length (mem_lists mem)) = vs"
  using assms by (auto simp: copied_memory_def list_items_def slice_items_def list_ok_def slice_ok_def
      nth_append split: option.splits)

lemma list_view_write:
  assumes "elem_place (list_Items (mem_lists mem ! c)) i = Some p"
    and "\<And>s t. list_Items (mem_lists mem ! a) = Some s \<Longrightarrow> list_Items (mem_lists mem ! c) = Some t \<Longrightarrow>
      sl_array s \<noteq> sl_array t"
  shows "list_view view lview (write_snapshot mem p v) a = list_view view lview mem a"
  using assms by (fastforce simp: elem_place_def list_view_def list_items_def slice_items_def
      split: option.splits if_splits)

context snapshot_copier begin

lemma snaps_copied:
  assumes "(\<Union>v \<in> set vs. cells h (api_ObjectMeta v)) \<subseteq> used h" and "copies (snap_copy copy) vs h = (ws, g)"
  shows "map (snap_view view g) ws = map (snap_view view h) vs"
    and "map (snap_view view g) vs = map (snap_view view h) vs"
    and "(\<Union>v \<in> set vs. cells g (api_ObjectMeta v)) = (\<Union>v \<in> set vs. cells h (api_ObjectMeta v))"
    and "(\<Union>v \<in> set ws. cells g (api_ObjectMeta v)) \<subseteq> used g - used h" and "used h \<subseteq> used g"
  using snap.items.copy_view [OF assms] snap.items.copy_keeps [OF assms] snap.items.copy_fresh [OF assms]
    snap.items.copy_grows [OF assms(2)]
  by simp_all

end

context undisturbing begin

lemma snap_copies_keep:
  assumes "cells h u \<subseteq> used h" and "copies (snap_copy copy) vs h = (ws, g)"
  shows "view g u = view h u \<and> cells g u = cells h u"
proof -
  have "undisturbing (snap_copy copy) view cells used"
    by (rule undisturbing.intro; auto simp: snap_copy_def copy_keeps split: prod.splits)
      (use copy_grows in blast)
  from undisturbing.copies_keeps [of "snap_copy copy" view cells used h u vs ws g, OF this assms]
  show ?thesis .
qed

end

lemma snaps_kept:
  assumes "undisturbing copy view cells used" and "copy v h = (v', g)"
    and "(\<Union>v \<in> set vs. cells h (api_ObjectMeta v)) \<subseteq> used h"
  shows "map (snap_view view g) vs = map (snap_view view h) vs"
    and "(\<Union>v \<in> set vs. cells g (api_ObjectMeta v)) = (\<Union>v \<in> set vs. cells h (api_ObjectMeta v))"
  using undisturbing.copy_keeps [OF assms(1) _ assms(2)] assms(3) by (simp_all add: snap_view_def UN_subset_iff)

text \<open>What copying the metadata of a list and then its items does.\<close>

lemma parts_copied:
  assumes om: "deep_copier om view cells used" and lm: "deep_copier lm lview lcells used"
    and om_l: "undisturbing om lview lcells used" and lm_m: "undisturbing lm view cells used"
    and used: "lcells h u \<subseteq> used h" "(\<Union>v \<in> set vs. cells h (api_ObjectMeta v)) \<subseteq> used h"
    and l: "lm u h = (l, g)" and c: "copies (snap_copy om) vs g = (ws, g')"
  shows "map (snap_view view g') ws = map (snap_view view h) vs" and "lview g' l = lview h u"
    and "map (snap_view view g') vs = map (snap_view view h) vs" and "lview g' u = lview h u"
    and "lcells g' u = lcells h u"
    and "(\<Union>v \<in> set vs. cells g' (api_ObjectMeta v)) = (\<Union>v \<in> set vs. cells h (api_ObjectMeta v))"
    and "lcells g' l \<inter> used h = {}"
    and "(\<Union>v \<in> set ws. cells g' (api_ObjectMeta v)) \<inter> used h = {}"
proof -
  have lmu: "undisturbing lm lview lcells used" using lm by (rule deep_copier.axioms)
  note grows = undisturbing.copy_grows [OF lmu l]
  note kept = snaps_kept [OF lm_m l used(2)]
  have "(\<Union>v \<in> set vs. cells g (api_ObjectMeta v)) \<subseteq> used g" unfolding kept(2) using used(2) grows by blast
  note items = snapshot_copier.snaps_copied [OF snapshot_copier.intro [OF om] this c]
  show "map (snap_view view g') ws = map (snap_view view h) vs"
    "map (snap_view view g') vs = map (snap_view view h) vs"
    "(\<Union>v \<in> set vs. cells g' (api_ObjectMeta v)) = (\<Union>v \<in> set vs. cells h (api_ObjectMeta v))"
    "(\<Union>v \<in> set ws. cells g' (api_ObjectMeta v)) \<inter> used h = {}"
    using items kept grows by auto
  note u = undisturbing.copy_keeps [of lm lview lcells used, OF lmu used(1) l]
  note fresh = deep_copier.copy_fresh [of lm lview lcells used, OF lm used(1) l]
  have "lcells g u \<subseteq> used g" "lcells g l \<subseteq> used g" using u used(1) grows fresh by auto
  note keep = this [THEN undisturbing.snap_copies_keep [of om lview lcells used, OF om_l _ c]]
  show "lview g' u = lview h u" "lcells g' u = lcells h u" "lview g' l = lview h u" "lcells g' l \<inter> used h = {}"
    using keep u fresh deep_copier.copy_view [of lm lview lcells used, OF lm used(1) l] by auto
qed

text \<open>
  Property C26. A deep copy of a list of snapshots is a new list with the value of the original and
  nothing in common with it: the original keeps its value, the copy's metadata lie in memory that
  was not in use, and what is later assigned to an element of either list leaves the other as it
  is. This is what the controller relies on when it changes an object it was handed from a cache.
  It rests on the same of the copies of the third-party metadata.
\<close>

theorem deep_copy_isolated:
  assumes om: "deep_copier (ObjectMeta_DeepCopyInto ops) view cells used"
    and lm: "deep_copier (ListMeta_DeepCopyInto ops) lview lcells used"
    and om_l: "undisturbing (ObjectMeta_DeepCopyInto ops) lview lcells used"
    and lm_m: "undisturbing (ListMeta_DeepCopyInto ops) view cells used"
    and ok: "list_ok mem a" and used: "list_cells cells lcells mem a \<subseteq> used (mem_meta mem)"
  shows "\<exists>mem' b. SnapshotList_DeepCopy ops (Some a) mem = Ok (mem', Some b) \<and> b \<noteq> a \<and>
      list_view view lview mem' b = list_view view lview mem a \<and>
      list_view view lview mem' a = list_view view lview mem a \<and>
      list_cells cells lcells mem' a = list_cells cells lcells mem a \<and>
      list_cells cells lcells mem' b \<inter> used (mem_meta mem) = {} \<and>
      (\<forall>i p v. elem_place (list_Items (mem_lists mem' ! b)) i = Some p \<longrightarrow>
         list_view view lview (write_snapshot mem' p v) a = list_view view lview mem a) \<and>
      (\<forall>i p v. elem_place (list_Items (mem_lists mem' ! a)) i = Some p \<longrightarrow>
         list_view view lview (write_snapshot mem' p v) b = list_view view lview mem a)"
proof -
  obtain l g where l: "ListMeta_DeepCopyInto ops (list_ListMeta (mem_lists mem ! a)) (mem_meta mem) = (l, g)"
    by (rule prod.exhaust)
  obtain vs g' where vs: "copies (snap_copy (ObjectMeta_DeepCopyInto ops)) (list_items mem a) g = (vs, g')"
    by (rule prod.exhaust)
  have u: "lcells (mem_meta mem) (list_ListMeta (mem_lists mem ! a)) \<subseteq> used (mem_meta mem)"
    "(\<Union>v \<in> set (list_items mem a). cells (mem_meta mem) (api_ObjectMeta v)) \<subseteq> used (mem_meta mem)"
    using used by (simp_all add: list_cells_def)
  note parts = parts_copied [of "ObjectMeta_DeepCopyInto ops" view cells used "ListMeta_DeepCopyInto ops"
      lview lcells, OF om lm om_l lm_m u l vs]
  let ?b = "length (mem_lists mem)"
  define mem' where "mem' = copied_memory mem a l vs g'"
  have new: "mem_lists mem' ! ?b = (mem_lists mem ! a)\<lparr>list_ListMeta := l, list_Items :=
      map_option (\<lambda>s. \<lparr>sl_array = length (mem_arrays mem), sl_offset = 0, sl_len = sl_len s\<rparr>)
        (list_Items (mem_lists mem ! a))\<rparr>" "mem_meta mem' = g'"
    by (simp_all add: mem'_def copied_memory_def)
  note a = copied_original [OF ok, of l vs g', folded mem'_def]
  note b = copied_copy [OF ok length_copies [OF vs], of l g', folded mem'_def]
  have va: "list_view view lview mem' a = list_view view lview mem a"
    and vb: "list_view view lview mem' ?b = list_view view lview mem a"
    using parts(1-4) by (simp_all add: list_view_def a b new)
  have apart: "sl_array s \<noteq> sl_array t" if "list_Items (mem_lists mem' ! a) = Some s"
    "list_Items (mem_lists mem' ! ?b) = Some t" for s t
    using ok that by (auto simp: a new list_ok_def slice_ok_def)
  have "list_cells cells lcells mem' a = list_cells cells lcells mem a"
    "list_cells cells lcells mem' ?b \<inter> used (mem_meta mem) = {}"
    using parts(5-8) by (auto simp: list_cells_def a b new)
  moreover have "list_view view lview (write_snapshot mem' p v) a = list_view view lview mem a"
    if "elem_place (list_Items (mem_lists mem' ! ?b)) i = Some p" for i p v
    by (rule trans [OF list_view_write [where a = a, OF that] va]) (rule apart)
  moreover have "list_view view lview (write_snapshot mem' p v) ?b = list_view view lview mem a"
    if "elem_place (list_Items (mem_lists mem' ! a)) i = Some p" for i p v
    by (rule trans [OF list_view_write [where a = ?b, OF that] vb]) (rule apart [symmetric])
  moreover have "?b \<noteq> a" using ok by (simp add: list_ok_def)
  ultimately show ?thesis
    using list_copied [OF ok l vs, folded mem'_def] va vb by blast
qed

subsection \<open>The generated copies behind pointers\<close>

text \<open>
  A function \<open>DeepCopy\<close> takes a pointer to a new one. For the plain parts it satisfies the contract as
  it is, the cells being the variables, and so do lists of pointers; it leaves the variables of
  other types alone.
\<close>

definition pointer_copy ::
    "(nat option \<Rightarrow> ('m, 'l, 'g) memory \<Rightarrow> (('m, 'l, 'g) memory \<times> nat option) result) \<Rightarrow>
     nat \<Rightarrow> ('m, 'l, 'g) memory \<Rightarrow> nat \<times> ('m, 'l, 'g) memory" where
  "pointer_copy deep_copy a mem =
     (case deep_copy (Some a) mem of Ok (mem', Some b) \<Rightarrow> (b, mem') | _ \<Rightarrow> (a, mem))"

lemma spec_pointer_copy:
  assumes "pointer_copy SnapshotSpec_DeepCopy a mem = (b, mem')"
  shows "\<exists>x. mem' = mem\<lparr>mem_specs := mem_specs mem @ x\<rparr> \<and>
    (a < length (mem_specs mem) \<longrightarrow> b = length (mem_specs mem) \<and> x = [mem_specs mem ! a])"
proof (cases "a \<le> length (mem_specs mem)")
  case True
  with assms show ?thesis
    by (auto simp: pointer_copy_def SnapshotSpec_DeepCopy_def SnapshotSpec_DeepCopyInto_def Let_def nth_append)
next
  case False
  with assms show ?thesis
    by (auto simp: pointer_copy_def SnapshotSpec_DeepCopy_def SnapshotSpec_DeepCopyInto_def Let_def
        intro: exI [of _ "[]"])
qed

interpretation spec_copy: item_copier "pointer_copy SnapshotSpec_DeepCopy" "\<lambda>mem a. mem_specs mem ! a"
    "\<lambda>mem a. {a}" "\<lambda>mem. {..< length (mem_specs mem)}"
  by unfold_locales (auto simp: nth_append dest!: spec_pointer_copy)

lemma status_pointer_copy:
  assumes "pointer_copy SnapshotStatus_DeepCopy a mem = (b, mem')"
  shows "\<exists>x. mem' = mem\<lparr>mem_statuses := mem_statuses mem @ x\<rparr> \<and>
    (a < length (mem_statuses mem) \<longrightarrow> b = length (mem_statuses mem) \<and> x = [mem_statuses mem ! a])"
proof (cases "a \<le> length (mem_statuses mem)")
  case True
  with assms show ?thesis
    by (auto simp: pointer_copy_def SnapshotStatus_DeepCopy_def SnapshotStatus_DeepCopyInto_def Let_def nth_append)
next
  case False
  with assms show ?thesis
    by (auto simp: pointer_copy_def SnapshotStatus_DeepCopy_def SnapshotStatus_DeepCopyInto_def Let_def
        intro: exI [of _ "[]"])
qed

interpretation status_copy: item_copier "pointer_copy SnapshotStatus_DeepCopy" "\<lambda>mem a. mem_statuses mem ! a"
    "\<lambda>mem a. {a}" "\<lambda>mem. {..< length (mem_statuses mem)}"
  by unfold_locales (auto simp: nth_append dest!: status_pointer_copy)

interpretation status_beside_spec: undisturbing "pointer_copy SnapshotSpec_DeepCopy"
    "\<lambda>mem a. mem_statuses mem ! a" "\<lambda>mem a. {a}" "\<lambda>mem. {..< length (mem_statuses mem)}"
  by unfold_locales (auto dest!: spec_pointer_copy)

subsection \<open>Metadata with a list of finalizers behind a pointer\<close>

type_synonym demo_meta = "string \<times> nat option"

fun demo_copy :: "demo_meta \<Rightarrow> string list list \<Rightarrow> demo_meta \<times> string list list" where
  "demo_copy (n, None) g = ((n, None), g)"
| "demo_copy (n, Some i) g = ((n, Some (length g)), g @ [g ! i])"

definition demo_view :: "string list list \<Rightarrow> demo_meta \<Rightarrow> string \<times> string list option" where
  "demo_view g m = (fst m, map_option (\<lambda>i. g ! i) (snd m))"

definition demo_cells :: "string list list \<Rightarrow> demo_meta \<Rightarrow> nat set" where
  "demo_cells g m = set_option (snd m)"

definition demo_used :: "string list list \<Rightarrow> nat set" where
  "demo_used g = {..< length g}"

lemma demo_copier: "deep_copier demo_copy demo_view demo_cells demo_used"
proof unfold_locales
  fix h v v' h' and u :: demo_meta
  assume c: "demo_copy v h = (v', h')"
  then show "demo_used h \<subseteq> demo_used h'" by (cases "(v, h)" rule: demo_copy.cases) (auto simp: demo_used_def)
  assume "demo_cells h u \<subseteq> demo_used h"
  with c show "demo_view h' u = demo_view h u \<and> demo_cells h' u = demo_cells h u"
    by (cases "(v, h)" rule: demo_copy.cases; cases "snd u")
      (auto simp: demo_view_def demo_cells_def demo_used_def nth_append)
next
  fix h v v' h'
  assume "demo_cells h v \<subseteq> demo_used h" and "demo_copy v h = (v', h')"
  then show "demo_view h' v' = demo_view h v" and "demo_cells h' v' \<subseteq> demo_used h' - demo_used h"
    by (cases "(v, h)" rule: demo_copy.cases; auto simp: demo_view_def demo_cells_def demo_used_def nth_append)+
qed

text \<open>The metadata of a list are plain: a string.\<close>

lemma plain_undisturbing: "undisturbing Pair view cells used"
  by (rule undisturbing.intro) auto

lemma plain_copier: "deep_copier Pair (\<lambda>g l. l) (\<lambda>g l. {}) used"
  by unfold_locales auto

lemma plain_kept: "undisturbing demo_copy (\<lambda>g l. l) (\<lambda>g l. {}) demo_used"
  by (rule undisturbing.intro) (use deep_copier.axioms(1) [OF demo_copier, THEN undisturbing.copy_grows] in auto)

interpretation demo: snapshot_copier demo_copy demo_view demo_cells demo_used
  by (rule snapshot_copier.intro, rule demo_copier)

definition demo_ops :: "(demo_meta, string, string list list) meta_ops" where
  "demo_ops = \<lparr>ObjectMeta_DeepCopyInto = demo_copy, ListMeta_DeepCopyInto = Pair,
     zero_ObjectMeta = ([], None), zero_ListMeta = []\<rparr>"

definition demo_item :: "demo_meta \<Rightarrow> demo_meta api_snapshot" where
  "demo_item m = (zero_snapshot demo_ops)\<lparr>api_ObjectMeta := m\<rparr>"

text \<open>A list that is a part of an array; one element has a finalizer.\<close>

definition demo_memory :: "(demo_meta, string, string list list) memory" where
  "demo_memory = \<lparr>mem_snapshots = [],
     mem_arrays = [[demo_item (''a'', None), demo_item (''b'', Some 0), demo_item (''c'', None)]],
     mem_lists = [(zero_list demo_ops)\<lparr>list_ListMeta := ''7'',
       list_Items := Some \<lparr>sl_array = 0, sl_offset = 1, sl_len = 2\<rparr>\<rparr>],
     mem_specs = [], mem_statuses = [], mem_meta = [[''finalizer'']]\<rparr>"

theorem deep_copy_isolated_witness:
  "\<exists>mem' b. SnapshotList_DeepCopy demo_ops (Some 0) demo_memory = Ok (mem', Some b) \<and> b \<noteq> 0 \<and>
      list_view demo_view (\<lambda>g l. l) mem' b = list_view demo_view (\<lambda>g l. l) demo_memory 0 \<and>
      list_cells demo_cells (\<lambda>g l. {}) mem' b \<inter> demo_used (mem_meta demo_memory) = {}"
proof -
  let ?lview = "\<lambda>(g :: string list list) (l :: string). l" and ?lcells = "\<lambda>(g :: string list list) (l :: string). {} :: nat set"
  have ops: "ObjectMeta_DeepCopyInto demo_ops = demo_copy" "ListMeta_DeepCopyInto demo_ops = Pair"
    by (simp_all add: demo_ops_def)
  have ok: "list_ok demo_memory 0" by (simp add: list_ok_def slice_ok_def demo_memory_def)
  have used: "list_cells demo_cells ?lcells demo_memory 0 \<subseteq> demo_used (mem_meta demo_memory)"
    by (simp add: list_cells_def list_items_def slice_items_def demo_memory_def demo_item_def
        demo_cells_def demo_used_def)
  show ?thesis
    using deep_copy_isolated [of demo_ops demo_view demo_cells demo_used ?lview ?lcells demo_memory 0,
        unfolded ops, OF demo_copier plain_copier plain_kept plain_undisturbing ok used]
    by blast
qed

subsection \<open>Nil and single snapshots\<close>

lemma nil_copied [simp]:
  "Snapshot_DeepCopyObject ops None mem = Ok (mem, Nil_Object)"
  "SnapshotList_DeepCopyObject ops None mem = Ok (mem, Nil_Object)"
  "SnapshotSpec_DeepCopy None mem = Ok (mem, None)"
  "SnapshotStatus_DeepCopy None mem = Ok (mem, None)"
  by (simp_all add: Snapshot_DeepCopyObject_def Snapshot_DeepCopy_def SnapshotList_DeepCopyObject_def
      SnapshotList_DeepCopy_def SnapshotSpec_DeepCopy_def SnapshotStatus_DeepCopy_def)

lemma snapshot_copied:
  assumes "read_snapshot mem p = Some v"
    and "snap_copy (ObjectMeta_DeepCopyInto ops) v (mem_meta mem) = (v', g)"
  shows "Snapshot_DeepCopyObject ops (Some p) mem =
      Ok (mem\<lparr>mem_snapshots := mem_snapshots mem @ [v'], mem_meta := g\<rparr>,
          Object_Snapshot (Some (Var (length (mem_snapshots mem)))))"
proof -
  let ?m = "mem\<lparr>mem_snapshots := mem_snapshots mem @ [zero_snapshot ops]\<rparr>"
  have "read_snapshot ?m p = Some v"
    using assms(1) by (cases p) (auto simp: nth_append split: if_splits)
  from Snapshot_DeepCopyInto_eq [OF this, of "Var (length (mem_snapshots mem))" ops v' g] assms(2)
  show ?thesis
    by (simp add: Snapshot_DeepCopyObject_def Snapshot_DeepCopy_def Let_def)
qed

end
