(* ===== verification/Spec2Isabelle.thy ===== *)
theory Spec2Isabelle
  imports Tenants Alarm Shutdown Hasher Controller_History Controller_Main Logger Snapshot_Main Line_Breaks Deep_Copy_Isolated
begin

text \<open>
  Integrity monitoring of containers (repository integrity-sum).

  \<^bold>\<open>The program.\<close> Three programs share this repository. The \<^emph>\<open>snapshot tool\<close> (cmd/snapshot,
  internal/integritymonitor/snapshot.go) walks the directories of an unpacked image, hashes every
  file and writes one line per hash. The \<^emph>\<open>snapshot controller\<close> (snapshot-controller/) takes these
  lines, in base64, out of a custom resource and stores them as an object in MinIO, under a name
  built from namespace, image and algorithm. The \<^emph>\<open>monitor\<close> (cmd/k8s-integrity-sum) runs beside the
  application: at every tick it hashes the directories of each configured process below
  \<open>/proc/<pid>/root\<close>, loads the object for the process's image and compares. A difference raises an
  alert with every registered sender and deletes the pod. Snapshot tool and monitor use the same
  pipeline: a goroutine that walks (internal/walker), workers that hash (internal/worker,
  pkg/hasher) and a consumer, joined by channels and a context that can be cancelled.

  \<^bold>\<open>Theories and what they model.\<close>
  \<^item> \<open>Prelude\<close>: results of Go calls (\<open>Ok\<close>, \<open>Fail\<close>, \<open>Panicked\<close>), runs of a step relation, and the
    locales \<open>step_invariant\<close> and \<open>bounded_steps\<close> for invariants and termination.
  \<^item> \<open>Go_Strings\<close>, \<open>Go_Conv\<close>, \<open>Go_Path\<close>, \<open>Go_Quote\<close>, \<open>Base64\<close>, \<open>Go_Errors\<close>: what the code uses of
    Go's strings, strconv, fmt, filepath, encoding/hex and encoding/base64, and its error values.
    A Go string is a list of characters, each one byte.
  \<^item> \<open>Walker\<close>: internal/walker/filewalker.go over \<open>filepath.WalkDir\<close>; a file tree is what
    \<open>Lstat\<close> and \<open>ReadDir\<close> report, with unreadable directories and entries that are no files.
  \<^item> \<open>Worker_Pool\<close>: internal/worker/workers.go with the walker's sends as the relation \<open>pool_step\<close>;
    a step is one channel operation, and \<open>pool_env_step\<close> adds the cancellation.
  \<^item> \<open>Trees\<close>: the abstraction that both programs share, relative paths with their hashes.
  \<^item> \<open>Hasher\<close>, \<open>Bee2\<close>: pkg/hasher/hasher.go with its registry, and internal/ffi/bee2, the Go object
    and the C function, with the C buffers as lists of bytes.
  \<^item> \<open>Checksums\<close>, \<open>Snapshot\<close>: the reader of internal/data, and the snapshot tool with its effect
    on the output file, whose write can fail for lack of room.
  \<^item> \<open>Process\<close>, \<open>Object_Name\<close>, \<open>Minio_Storage\<close>: the lookup of the process
    (internal/utils/process), the two functions that build the name of a baseline, and
    pkg/minio/minio.go over the client's calls.
  \<^item> \<open>Compare\<close>, \<open>Check_Protocol\<close>: \<open>compareHashes\<close>, first as the sequential loop over the hashes
    received, then with \<open>CheckIntegrity\<close> as two goroutines over \<open>errC\<close> and \<open>doneC\<close>
    (internal/integritymonitor/integritymonitor.go).
  \<^item> \<open>Check_Cancelled\<close>: what a cancellation in the middle of a check can do.
  \<^item> \<open>Baseline\<close>: snapshot, reader and comparison composed.
  \<^item> \<open>Alerts\<close>, \<open>Go_Json\<close>, \<open>Splunk\<close>: pkg/alerts with the syslog sender and
    \<open>integrityCheckFailed\<close>, and the Splunk sender with the JSON text of strings.
  \<^item> \<open>Monitor\<close>: a check with its alerts and the restart of the pod.
  \<^item> \<open>Configs\<close>, \<open>K8s\<close>, \<open>Options\<close>, \<open>Main_Loop\<close>, \<open>Monitor_Start\<close>: the flags and their defaults,
    pkg/k8s, \<open>ParseMonitoringOpts\<close>, \<open>runCheckIntegrity\<close>, and \<open>main\<close> of cmd/k8s-integrity-sum/main.go
    with pkg/health, in the order in which it sets up its parts.
  \<^item> \<open>Snapshot_Main\<close>: \<open>main\<close> of cmd/snapshot and its timeout.
  \<^item> \<open>Graceful\<close>: internal/utils/graceful, from a signal to the cancelled context.
  \<^item> \<open>Shutdown\<close>: the running monitor as one step relation, with the loop, the heartbeat, the watcher of
    \<open>Graceful\<close> and the return of \<open>main\<close> in any interleaving.
  \<^item> \<open>Detection\<close>, \<open>Alarm\<close>: the loop with its checks, alerts and restarts against written baselines,
    and the whole program from its start to the deletion of the pod.
  \<^item> \<open>Controller\<close>, \<open>Controller_Settles\<close>, \<open>Controller_History\<close>, \<open>Controller_Main\<close>: the reconciliation of
    snapshot-controller/controllers/snapshot_controller.go, what repeated reconciliations come to,
    histories in which reconciliations and the users' changes alternate (\<open>cluster_step\<close>),
    and snapshot-controller/main.go with the registration of the types in api/v1.
  \<^item> \<open>Tenants\<close>: what a stored object makes of a monitor's process; controller, store and monitor of two
    namespaces, or of two resources for one image.
  \<^item> \<open>Line_Breaks\<close>: what a line break in a file name does to the baseline and to the log.
  \<^item> \<open>Deep_Copy\<close>, \<open>Deep_Copy_Isolated\<close>: the types of snapshot-controller/api/v1/snapshot_types.go and
    their copies in zz_generated.deepcopy.go, over a memory of variables and arrays; a pointer is a
    place in it, a slice a part of an array.
  \<^item> \<open>Logger\<close>: the log level of internal/logger and cmd/snapshot.

  \<^bold>\<open>State and effects.\<close> The pipeline and the check are records of their channels and program
  counters. Sequential code that talks to MinIO, Kubernetes or the network threads a world \<open>'w\<close>
  of any type through the calls, which are fields of a record of parameters (\<open>minio_client\<close>,
  \<open>kube\<close>, \<open>main_env\<close>, \<open>http\<close>). An index out of range, a nil dereference and a send on a closed channel are \<open>Panicked\<close>
  results or a crashed state. Go's order of a map iteration is an argument (\<open>pick\<close>), and the
  schedule of a pipeline is any run of \<open>pool_env_step\<close>, so that a theorem about all runs is one
  about all interleavings.

  \<^bold>\<open>What the lemmas show.\<close> The walk finds each file of a readable tree once. The pipeline keeps the
  multiset of hashes still owed (\<open>in_flight\<close>), so that each is delivered exactly once, and every
  step lowers a measure, so that every run ends. The hashers satisfy the locale \<open>hash_object\<close>,
  interpreted for the standard library's digests and proved for bee2, which makes results
  independent of the files before. The format of the baseline is read back as it was written for
  every name without a double blank, surrounding white space and line breaks. The two naming
  functions satisfy \<open>shared_naming\<close>, the storage satisfies \<open>object_store\<close> for every client that
  behaves as documented. Of the comparison, the theories show what it accepts, that its errors are
  true, and that without cancellation all interleavings agree with the sequential loop. This theory joins
  these into the statement that the monitor accepts a process exactly if its files and hashes are
  those of the snapshot, and carries the snapshot through custom resource, controller and store to the
  monitor that its flags name. Other properties state what goes wrong where the code does not
  do what it means to: cancellation during a check, files that cannot be read, a scan that takes too
  long, long lines, double blanks, a registry's port in an image name, nested directories, a
  secret that appears late, a failed upload, a line break in a file name, an image name that leaves
  its namespace, two resources for one image. \<open>Detection\<close> joins check, alerts and loop: over any ticks a
  process with a baseline is left alone as long as it has the recorded files and hashes, and is
  alerted about and restarted when it has not; \<open>Alarm\<close> puts the start of the program before it and the
  deleted pod after it. \<open>Shutdown\<close> shows that the monitor works until a signal comes and then ends at the
  next tick. Over any history of the cluster the status of a
  resource is true as long as no status update is lost, no two resources share an object, and its image and
  algorithm have not been edited since the controller last changed it; all three conditions are
  needed. A deep copy keeps the value and shares nothing: the
  locale \<open>deep_copier\<close> states this for a copy of any kind of value, \<open>item_copier\<close> and \<open>snapshot_copier\<close>
  carry it from the metadata to snapshots and lists of them.

  \<^bold>\<open>Bounds.\<close> No definition has fuel. Loops over data are total functions; the loop of bee2's
  \<open>Write\<close> does not end for an object with an empty buffer and is a \<open>partial_function\<close>, with a lemma
  that it returns for the objects the constructor makes, with \<open>BLOCKSIZE\<close> = 4096 bytes. The scanner's limit is
  that of the code's default buffer, 64 KiB (\<open>max_token\<close>). Process ids are bounded by the 64 bits of
  \<open>strconv.Atoi\<close>.

  \<^bold>\<open>What is not modelled.\<close> Third-party packages and the operating system (MinIO's client, Kubernetes'
  clients, pidof, the file system, the digests, the bee2 library) are parameters; what a theorem
  needs of them stands among its hypotheses. The text of a floating-point number in JSON is a parameter
  of the Splunk sender. The controller framework's
  manager, schemes and builders, and the copies of Kubernetes' metadata, are parameters as well.
  Left out are what is logged and the mock that gomock generates for tests (pkg/k8s/mocks). Go's maps with
  concurrent access, real time and the scheduling of ticks are not part of the model. A panic of a
  goroutine beside \<open>main\<close> is an outcome of \<open>execute\<close> in \<open>Monitor_Start\<close>, but no step of \<open>Shutdown\<close>.
\<close>

section \<open>From the snapshot to the verdict\<close>

text \<open>
  Property C1. The monitor accepts a running process exactly if its file system still has the
  files and hashes that the snapshot tool saw in the image. Suppose the tool wrote a baseline
  without an error below a clean root, with names that the format gives back (\<open>record_safe\<close>), the storage
  returns it unchanged, and the configured directories on either
  side are readable directories of which none lies in another. Then \<open>CheckIntegrity\<close>, if its
  context is not cancelled, returns, and it returns no error if and only if the same relative
  paths with the same hashes are found on both sides. This holds for every number of workers,
  every interleaving of the goroutines of the check, every run of the tool's pipeline, and every
  order in which the Go map is read.
\<close>

theorem monitor_accepts_iff_unchanged:
  assumes "CalculateAndWriteHashes env scfg files = (files', None)"
    and "clean_root (sc_root_fs scfg)"
    and "list_all (good_dir (se_lstat env) (sc_root_fs scfg)) (sc_dir scfg)"
    and "separate (sc_dir scfg)"
    and "pool_runs hash_s (se_pool env (sc_algorithm scfg))"
    and "list_all (\<lambda>e. record_safe (snd e) (fst e))
      (tree_entries hash_s (se_lstat env) (sc_root_fs scfg) (sc_dir scfg))"
    and "pidof procName = Some (pidof_output (pid # pids))" and "0 < pid" and "pid < 2 ^ 63"
    and "CheckSumFile cfg procName (cfg_algorithm cfg) = Ok csFile"
    and "load (cfg_minio_bucket cfg) csFile = Ok (the (files' (sc_out scfg)))"
    and "0 < cfg_count_workers cfg"
    and "reach (\<lambda>s. s = check_start lstat_m pidof procName dirs (cfg_count_workers cfg))
      (check_step hash_m (compare_prepare pidof load cfg procName (cfg_algorithm cfg)) pick) s"
    and "list_all (good_dir lstat_m (proc_root pid)) dirs" and "separate dirs"
  shows "(\<forall>r. k_main s = MReturned r \<longrightarrow> (r = None \<longleftrightarrow>
      set (tree_entries hash_m lstat_m (proc_root pid) dirs) =
        set (tree_entries hash_s (se_lstat env) (sc_root_fs scfg) (sc_dir scfg)))) \<and>
    k_cmp s \<noteq> CPanicked \<and>
    (\<exists>n t r. run (check_step hash_m (compare_prepare pidof load cfg procName (cfg_algorithm cfg)) pick) s n t \<and>
       k_main t = MReturned r)"
proof -
  have prep: "compare_prepare pidof load cfg procName (cfg_algorithm cfg) =
      Ok (proc_root pid @ ''/'', map record_of (snapshot_hashes env scfg))"
    using assms by (intro prepare_of_snapshot [of env scfg files files' hash_s pidof procName pid pids
      cfg "cfg_algorithm cfg" csFile load])
  have paths: "check_paths pidof procName dirs = Ok (map (\<lambda>dir. (proc_root pid @ ''/'') @ dir) dirs)"
    by (rule check_paths_all) (use GetProcessPath_pidof [of pidof procName pid pids] assms(7-9) in simp)
  note run = assms(13) [unfolded prep]
  have "r = None \<longleftrightarrow> set (tree_entries hash_m lstat_m (proc_root pid) dirs) =
      set (tree_entries hash_s (se_lstat env) (sc_root_fs scfg) (sc_dir scfg))"
    if "k_main s = MReturned r" for r
    using calm_outcome [OF run paths assms(12) _ that] unfolding verdict_def
    using verdict_of_trees [OF assms(2-5), of _ hash_m lstat_m pid dirs pick] assms(14,15) by auto
  with calm_check_returns [OF run paths assms(12)] prep show ?thesis by simp
qed

theorem monitor_accepts_iff_unchanged_witness:
  "\<exists>n t r. run (check_step demo_hash (compare_prepare (\<lambda>_. Some (pidof_output [7]))
      (\<lambda>bucket object. Ok (the (fst (CalculateAndWriteHashes demo_env demo_snapshot Map.empty) ''o'')))
      demo_config ''p'' ''SHA256'') 0)
    (check_start demo_lstat (\<lambda>_. Some (pidof_output [7])) ''p'' [''/app''] 1) n t \<and> k_main t = MReturned r"
proof -
  let ?r = "CalculateAndWriteHashes demo_env demo_snapshot Map.empty"
  let ?load = "\<lambda>bucket object. Ok (the (fst ?r ''o''))"
  let ?s = "check_start demo_lstat (\<lambda>_. Some (pidof_output [7])) ''p'' [''/app''] 1"
  have "snd ?r = None" by code_simp
  then have r: "?r = (fst ?r, None)" by (metis prod.collapse)
  have root: "clean_root ''img''" by code_simp
  have cs: "CheckSumFile demo_config ''p'' ''SHA256'' = Ok ''ns/im/1.sha256''" by code_simp
  have run: "reach (\<lambda>s. s = ?s) (check_step demo_hash (compare_prepare (\<lambda>_. Some (pidof_output [7]))
      ?load demo_config ''p'' ''SHA256'') 0) ?s" by (rule reach_init) simp
  show ?thesis
    using monitor_accepts_iff_unchanged [of demo_env demo_snapshot Map.empty "fst ?r" demo_hash
        "\<lambda>_. Some (pidof_output [7])" "''p''" 7 "[]" demo_config "''ns/im/1.sha256''" ?load demo_lstat
        "[''/app'']" demo_hash 0 ?s]
      r root cs run demo_good demo_separate demo_runs demo_tree demo_safe
    by (simp add: demo_env_def demo_snapshot_def demo_config_def)
qed

section \<open>From the custom resource to the monitor\<close>

text \<open>
  Property C2. The three programs together enforce the snapshot. Suppose a custom resource carries
  the text of a snapshot in base64, one reconciliation handles it with a working store and cluster,
  and a monitor's flags give a process the resource's image, its namespace and its algorithm and leave
  the bucket at its default. Then the reconciliation stores the resource, and in every later world
  whose store still holds what is stored for it (which a truthful status guarantees), where loads of
  stored objects succeed and the process runs, a check of the process can return, and if it does, it
  has done nothing if the process has exactly the files and hashes of the snapshot, and otherwise has sent
  an alert about a difference that is there to every sender and restarted the pod.
\<close>

theorem deployed_baseline_enforced:
  assumes "client_ok c oview" and "keeps_resources c sview" and "kube_ok (ce_kube env) sview oview"
    and "snd (kb_Get (ce_kube env) req w) = Inr obj"
    and "\<And>obj w. snd (kb_StatusUpdate (ce_kube env) obj w) = None"
    and "\<And>w. snd (PutObject c DefaultBucketName (plain_name (rq_Namespace req) comps tag (sn_Algorithm obj)) data w) = None"
    and "\<not> sn_Deleting obj"
    and "\<not> (sn_IsUploaded obj \<and> sn_ControlHash obj = md5hash env (sn_Base64Hashes obj))"
    and obj: "sn_Image obj = image_of comps tag" "image_parts_ok (rq_Namespace req) comps tag"
      "sn_Base64Hashes obj = base64_EncodeToString data"
    and taken: "snapshot_taken data recorded"
    and flags: "cfg = config_of (viper_lookup given (config_flags numCPU @ minio_flags))"
      "given ''minio-bucket'' = None" "given ''pod-namespace'' = Some (FString (rq_Namespace req))"
      "given ''process-image'' = Some (FStringMap images)" "map_of images proc = Some (image_of comps tag)"
      "to_lower (cfg_algorithm cfg) = to_lower (sn_Algorithm obj)" "0 < cfg_count_workers cfg"
    and load: "\<And>u b n. mc_load m u b n = snd (storage_Load c b n u)"
      "\<And>u b n. oview u (b, n) \<noteq> None \<Longrightarrow> \<exists>d. snd (storage_Load c b n u) = Ok d"
  shows "\<exists>w'. reconcile_with env (Some c) req w = (w', Ok ()) \<and> stored_for oview w' (rq_Namespace req) obj \<and>
    (\<forall>u dirs pid registry restartPod namePod.
       stored_for oview u (rq_Namespace req) obj \<and> running m proc dirs u pid \<longrightarrow>
       (\<exists>out. check_outcome m cfg registry restartPod namePod proc dirs u out) \<and>
       (\<forall>out. check_outcome m cfg registry restartPod namePod proc dirs u out \<longrightarrow>
          (if set (current m dirs u pid) = set recorded then out = (u, None)
           else \<exists>now e. error_justified (map_of recorded) (current m dirs u pid) e \<and>
             out = (fst (restartPod (sends registry (restart_alert now namePod proc e) u)), Some (ErrIntegrity e)))))"
proof -
  let ?ns = "rq_Namespace req"
  have name: "BuildObjectName ?ns (sn_Image obj) (sn_Algorithm obj) = Ok (plain_name ?ns comps tag (sn_Algorithm obj))"
    using BuildObjectName_ok [OF obj(2)] obj(1) by simp
  have data: "base64_DecodeString (sn_Base64Hashes obj) = Ok data" by (simp add: obj(3) decode_encode)
  from reconcile_uploads [OF assms(1-8) name data] obtain w' where
    r: "reconcile_with env (Some c) req w = (w', Ok ())" and s: "stored_for oview w' ?ns obj"
    using name data by (auto simp: stored_for_def)
  have cfg: "cfg_pod_namespace cfg = ?ns" "cfg_process_image cfg proc = Some (image_of comps tag)"
    using flags(1,3-5) by (simp_all add: config_of_def getter_defs lookup_given)
  have bucket: "cfg_minio_bucket cfg = DefaultBucketName" using flags(1,2) by (simp add: config_bucket_default)
  have "watched m cfg proc dirs u pid recorded" if "stored_for oview u ?ns obj" "running m proc dirs u pid" for u dirs pid
  proof (rule stored_is_watched [OF assms(1) _ obj(2) cfg flags(6) bucket flags(7) load taken that(2)])
    show "oview u (DefaultBucketName, plain_name ?ns comps tag (sn_Algorithm obj)) = Some data"
      using that(1) name data by (auto simp: stored_for_def)
  qed
  from watched_verdict [OF this] watched_outcome_exists [OF this] r s show ?thesis by blast
qed

definition demo_given :: lookup where
  "demo_given = [''pod-namespace'' \<mapsto> FString ''ns'', ''process-image'' \<mapsto> FStringMap [(''p'', ''im:1'')]]"

definition demo_resource :: snapshot where
  "demo_resource = (demo_snap ''im:1'' False [] False)\<lparr>sn_Base64Hashes := base64_EncodeToString demo_text\<rparr>"

text \<open>A process whose file has changed: its hash is no longer that of \<open>demo_victim\<close>, the recorded one.\<close>

definition demo_changed :: "maps machine" where
  "demo_changed = demo_victim\<lparr>mc_hash := \<lambda>w f. Inr ''00''\<rparr>"

theorem deployed_baseline_enforced_witness:
  "let cfg = config_of (viper_lookup demo_given (config_flags 4 @ minio_flags));
       w = (Map.empty(demo_req \<mapsto> demo_resource), Map.empty) in
   \<exists>w'. reconcile_with maps_env (Some maps_client) demo_req w = (w', Ok ()) \<and>
     (\<exists>out. check_outcome demo_changed cfg [] (\<lambda>u. (u, None)) ''pod'' ''p'' [''/app''] w' out) \<and>
     (\<forall>out. check_outcome demo_victim cfg [] (\<lambda>u. (u, None)) ''pod'' ''p'' [''/app''] w' out \<longrightarrow> out = (w', None)) \<and>
     (\<forall>out. check_outcome demo_changed cfg [] (\<lambda>u. (u, None)) ''pod'' ''p'' [''/app''] w' out \<longrightarrow> snd out \<noteq> None)"
proof -
  let ?cfg = "config_of (viper_lookup demo_given (config_flags 4 @ minio_flags))"
  let ?w = "(Map.empty(demo_req \<mapsto> demo_resource), Map.empty) :: maps"
  have k: "kube_ok (ce_kube maps_env) fst snd" using maps_kube_ok by (simp add: maps_env_def)
  have r: "sn_key demo_resource = demo_req" "\<not> sn_Deleting demo_resource" "\<not> sn_IsUploaded demo_resource"
    "sn_Image demo_resource = image_of [''im''] ''1''" "sn_Algorithm demo_resource = ''SHA256''"
    "sn_Base64Hashes demo_resource = base64_EncodeToString demo_text"
    by (simp_all add: demo_resource_def demo_snap_def image_of_def sn_key_def)
  have g: "snd (kb_Get (ce_kube maps_env) demo_req ?w) = Inr demo_resource"
    using r(1) by (simp add: maps_env_def maps_kube_def)
  have st: "snd (kb_StatusUpdate (ce_kube maps_env) o1 u) = None" for o1 u
    by (simp add: maps_env_def maps_kube_def)
  have ns: "rq_Namespace demo_req = ''ns''" by simp
  have put: "snd (PutObject maps_client DefaultBucketName
      (plain_name (rq_Namespace demo_req) [''im''] ''1'' (sn_Algorithm demo_resource)) demo_text u) = None" for u
    by (simp add: maps_client_def map_client_def plain_name_def join_Cons r(5))
  have un: "\<not> (sn_IsUploaded demo_resource \<and>
      sn_ControlHash demo_resource = md5hash maps_env (sn_Base64Hashes demo_resource))" using r(3) by simp
  have good: "image_parts_ok (rq_Namespace demo_req) [''im''] ''1''"
    by (simp add: ns image_parts_ok_def proper_name_def)
  have taken: "snapshot_taken demo_text [(''app/x'', ''ff'')]" using demo_taken by (simp add: demo_text_def)
  have given: "demo_given ''minio-bucket'' = None" "demo_given ''pod-namespace'' = Some (FString (rq_Namespace demo_req))"
    "demo_given ''process-image'' = Some (FStringMap [(''p'', ''im:1'')])"
    "map_of [(''p'', ''im:1'')] ''p'' = Some (image_of [''im''] ''1'')"
    by (simp_all add: demo_given_def ns image_of_def)
  have cfg: "to_lower (cfg_algorithm ?cfg) = to_lower (sn_Algorithm demo_resource)" "0 < cfg_count_workers ?cfg"
    by (simp_all add: config_of_def GetString_def GetInt_def viper_lookup_def demo_given_def config_flags_def r(5))
  note enforced = deployed_baseline_enforced [OF maps_client_ok maps_keeps k g st put r(2) un r(4) good r(6) taken
      refl given cfg]
  have run: "running demo_victim ''p'' [''/app''] u 7" "running demo_changed ''p'' [''/app''] u 7" for u
    using demo_good demo_separate by (auto simp: running_def demo_victim_def demo_changed_def)
  have load: "mc_load demo_victim u b n = snd (storage_Load maps_client b n u)"
    "mc_load demo_changed u b n = snd (storage_Load maps_client b n u)" for u b n
    by (simp_all add: demo_changed_def demo_victim_def)
  have cur: "set (current demo_victim [''/app''] u 7) = set [(''app/x'', ''ff'')]"
    "set (current demo_changed [''/app''] u 7) \<noteq> set [(''app/x'', ''ff'')]" for u
    by (simp_all add: current_def demo_changed_def demo_victim_def tree_entries_def dir_entries_def dir_node_def
        List.map_filter_simps rel_path_def demo_plain)
  let ?out = "\<lambda>m. check_outcome m ?cfg [] (\<lambda>u. (u, None)) ''pod'' ''p'' [''/app'']"
  have reaction: "\<exists>w1. reconcile_with maps_env (Some maps_client) demo_req ?w = (w1, Ok ()) \<and> (\<exists>out. ?out m w1 out) \<and>
      (\<forall>out. ?out m w1 out \<longrightarrow> (if set (current m [''/app''] w1 7) = set [(''app/x'', ''ff'')]
         then out = (w1, None) else snd out \<noteq> None))"
    if "\<And>u b n. mc_load m u b n = snd (storage_Load maps_client b n u)" and "\<And>u. running m ''p'' [''/app''] u 7" for m
    using enforced [OF that(1) maps_loads]
  proof (elim meta_impE exE conjE, goal_cases)
    case (2 w1)
    note v = 2(3) [THEN spec [of _ w1], THEN spec [of _ "[''/app'']"], THEN spec [of _ 7], THEN spec [of _ "[]"],
        THEN spec [of _ "\<lambda>u. (u, None)"], THEN spec [of _ "''pod''"], THEN mp, OF conjI [OF 2(2) that(2)]]
    then have "snd out \<noteq> None" if "?out m w1 out" and "set (current m [''/app''] w1 7) \<noteq> set [(''app/x'', ''ff'')]" for out
      using that by (metis option.distinct(1) snd_conv)
    with v 2(1) show ?case by (intro exI [of _ w1]) presburger
  qed
  obtain w1 where w1: "reconcile_with maps_env (Some maps_client) demo_req ?w = (w1, Ok ())"
    using reaction [OF load(1) run(1)] by blast
  have quiet: "\<forall>out. ?out demo_victim w1 out \<longrightarrow> out = (w1, None)"
    using reaction [OF load(1) run(1)] cur(1) [of w1] w1 by (elim exE conjE) simp
  have loud: "(\<exists>out. ?out demo_changed w1 out) \<and> (\<forall>out. ?out demo_changed w1 out \<longrightarrow> snd out \<noteq> None)"
    using reaction [OF load(2) run(2)] cur(2) [of w1] w1 by (elim exE conjE) (simp only: prod.inject if_False, blast)
  show ?thesis unfolding Let_def using w1 quiet loud by blast
qed

end
